(* ===== verification/Prelude.thy ===== *)
theory Prelude
  imports
    "HOL-Library.Word"
    "HOL-Library.Mapping"
    "HOL-Library.AList_Mapping"
    "HOL-Library.Monad_Syntax"
begin

unbundle bit_operations_syntax

text \<open>
  Shared vocabulary of the development: the names of the Go types the model uses and
  the generic facts on finite maps and machine integers that more than one component needs.

  Conventions. A Go \<open>string\<close> and a Go byte slice are both a list of 8-bit characters
  (\<^typ>\<open>string\<close>). A Go \<open>uint64\<close> whose wrap-around the code can reach is a
  \<^typ>\<open>64 word\<close>. A Go \<open>int\<close> or \<open>int64\<close> that stays far from its limits in any run
  (a length, a byte count, a time in nanoseconds) is an \<^typ>\<open>int\<close>; where the code can leave
  the 64-bit range the wrap-around is written out with \<open>wrap64\<close>. A Go map is a
  \<open>mapping\<close>; iteration order never matters in the modelled code.
\<close>

type_synonym bytes = string
type_synonym uint64 = "64 word"
type_synonym uint32 = "32 word"

section \<open>Signed 64-bit arithmetic\<close>

text \<open>Two's complement wrap-around of a mathematical integer into int64.\<close>

definition wrap64 :: "int \<Rightarrow> int" where
  "wrap64 z = (z + 2 ^ 63) mod 2 ^ 64 - 2 ^ 63"

definition in_int64 :: "int \<Rightarrow> bool" where
  "in_int64 z \<longleftrightarrow> - (2 ^ 63) \<le> z \<and> z < 2 ^ 63"

lemma wrap64_id: "in_int64 z \<Longrightarrow> wrap64 z = z"
  by (simp add: wrap64_def in_int64_def)

section \<open>Finite maps\<close>

lemma lookup_delete':
  "Mapping.lookup (Mapping.delete k m) k' = (if k = k' then None else Mapping.lookup m k')"
  by (cases "k = k'") auto

lemma in_keys_iff: "k \<in> Mapping.keys m \<longleftrightarrow> Mapping.lookup m k \<noteq> None"
  by (auto simp: keys_dom_lookup)

end
