(* ===== verification/ExpiryHeap.thy ===== *)
theory ExpiryHeap
  imports Prelude
begin

text \<open>
  The expiry heap of \<^verbatim>\<open>pkg/tqmemory/index.go\<close>: a binary min-heap of (expiry, key) entries
  in a slice, with a map from keys to heap positions, driven by \<^verbatim>\<open>container/heap\<close>
  (\<open>up\<close>, \<open>down\<close>, \<open>Push\<close>, \<open>Fix\<close> and \<open>Remove\<close> are that package's algorithms over the
  heap's own \<open>Len\<close>, \<open>Less\<close>, \<open>Swap\<close>, \<open>Push\<close> and \<open>Pop\<close>). The theory proves that the heap is
  a finite map from keys to expiry times whose \<open>PeekMin\<close> is a minimum, and packages this
  contract as the locale \<open>expiry_queue\<close>, through which the index uses it.
\<close>

section \<open>State and the heap interface methods\<close>

text \<open>An \<open>*ExpiryEntry\<close> is only ever referenced from the slice, so it is a value here.\<close>

record ExpiryEntry =
  Expiry :: int
  EKey :: string
  hindex :: nat

record ExpiryHeap =
  entries :: "ExpiryEntry list"
  keyIndex :: "(string, nat) mapping"

definition NewExpiryHeap :: ExpiryHeap where
  "NewExpiryHeap = \<lparr>entries = [], keyIndex = Mapping.empty\<rparr>"

definition heap_Len :: "ExpiryHeap \<Rightarrow> nat" where
  "heap_Len h = length (entries h)"

definition heap_Less :: "ExpiryHeap \<Rightarrow> nat \<Rightarrow> nat \<Rightarrow> bool" where
  "heap_Less h i j \<longleftrightarrow> Expiry (entries h ! i) < Expiry (entries h ! j)"

definition heap_Swap :: "ExpiryHeap \<Rightarrow> nat \<Rightarrow> nat \<Rightarrow> ExpiryHeap" where
  "heap_Swap h i j =
    (let es = (entries h)[i := entries h ! j, j := entries h ! i];
         es = es[i := (es ! i)\<lparr>hindex := i\<rparr>];
         es = es[j := (es ! j)\<lparr>hindex := j\<rparr>]
     in \<lparr>entries = es,
         keyIndex = Mapping.update (EKey (es ! j)) j
           (Mapping.update (EKey (es ! i)) i (keyIndex h))\<rparr>)"

definition heap_PushEntry :: "ExpiryHeap \<Rightarrow> ExpiryEntry \<Rightarrow> ExpiryHeap" where
  "heap_PushEntry h x =
    (let e = x\<lparr>hindex := length (entries h)\<rparr>
     in \<lparr>entries = entries h @ [e],
         keyIndex = Mapping.update (EKey e) (hindex e) (keyIndex h)\<rparr>)"

definition heap_PopLast :: "ExpiryHeap \<Rightarrow> ExpiryEntry \<times> ExpiryHeap" where
  "heap_PopLast h =
    (let n = length (entries h); e = entries h ! (n - 1)
     in (e, \<lparr>entries = take (n - 1) (entries h),
             keyIndex = Mapping.delete (EKey e) (keyIndex h)\<rparr>))"

definition PeekMin :: "ExpiryHeap \<Rightarrow> ExpiryEntry option" where
  "PeekMin h = (if length (entries h) = 0 then None else Some (entries h ! 0))"

section \<open>The algorithms of container/heap\<close>

definition hparent :: "nat \<Rightarrow> nat" where
  "hparent j = (j - 1) div 2"

lemma hparent_less [simp]: "0 < j \<Longrightarrow> hparent j < j"
  by (auto simp: hparent_def)

lemma hparent_self [simp]: "hparent j = j \<longleftrightarrow> j = 0"
  by (auto simp: hparent_def)

lemma hparent_le [simp]: "hparent j \<le> j"
  by (auto simp: hparent_def)

lemma hparent_less_trans [simp]: "k < n \<Longrightarrow> hparent k < n"
  using hparent_le[of k] by linarith

lemma hparent_children: "0 < k \<Longrightarrow> hparent k = i \<longleftrightarrow> k = 2 * i + 1 \<or> k = 2 * i + 2"
  by (auto simp: hparent_def)

function heap_up :: "ExpiryHeap \<Rightarrow> nat \<Rightarrow> ExpiryHeap" where
  "heap_up h j =
    (let i = hparent j
     in if i = j \<or> \<not> heap_Less h j i then h else heap_up (heap_Swap h i j) i)"
  by pat_completeness auto
termination
  by (relation "measure snd") (auto intro: hparent_less)

declare heap_up.simps [simp del]

text \<open>The loop of \<open>down\<close>: the final heap and the final position.\<close>

definition min_child :: "ExpiryHeap \<Rightarrow> nat \<Rightarrow> nat \<Rightarrow> nat" where
  "min_child h i n =
    (let j1 = 2 * i + 1; j2 = j1 + 1
     in if j2 < n \<and> heap_Less h j2 j1 then j2 else j1)"

lemma min_child_bounds:
  "i < min_child h i n" "2 * i + 1 < n \<Longrightarrow> min_child h i n < n"
  "hparent (min_child h i n) = i"
  by (auto simp: min_child_def Let_def hparent_def)

function heap_down_loop :: "ExpiryHeap \<Rightarrow> nat \<Rightarrow> nat \<Rightarrow> ExpiryHeap \<times> nat" where
  "heap_down_loop h i n =
    (if n \<le> 2 * i + 1 then (h, i)
     else let j = min_child h i n
          in if \<not> heap_Less h j i then (h, i) else heap_down_loop (heap_Swap h i j) j n)"
  by pat_completeness auto
termination
  by (relation "measure (\<lambda>(h, i, n). n - i)")
    (auto simp: min_child_bounds(1) intro!: diff_less_mono2)

declare heap_down_loop.simps [simp del]

definition heap_down :: "ExpiryHeap \<Rightarrow> nat \<Rightarrow> nat \<Rightarrow> ExpiryHeap \<times> bool" where
  "heap_down h i0 n = (case heap_down_loop h i0 n of (h', i) \<Rightarrow> (h', i > i0))"

definition heap_Push :: "ExpiryHeap \<Rightarrow> ExpiryEntry \<Rightarrow> ExpiryHeap" where
  "heap_Push h x = (let h' = heap_PushEntry h x in heap_up h' (heap_Len h' - 1))"

definition heap_Fix :: "ExpiryHeap \<Rightarrow> nat \<Rightarrow> ExpiryHeap" where
  "heap_Fix h i =
    (case heap_down h i (heap_Len h) of (h', moved) \<Rightarrow> if \<not> moved then heap_up h' i else h')"

definition heap_Remove :: "ExpiryHeap \<Rightarrow> nat \<Rightarrow> ExpiryEntry \<times> ExpiryHeap" where
  "heap_Remove h i =
    (let n = heap_Len h - 1
     in if n \<noteq> i
        then (case heap_down (heap_Swap h i n) i n of
                (h', moved) \<Rightarrow> heap_PopLast (if \<not> moved then heap_up h' i else h'))
        else heap_PopLast h)"

section \<open>Insert and Remove by key\<close>

definition heap_Insert :: "ExpiryHeap \<Rightarrow> string \<Rightarrow> int \<Rightarrow> ExpiryHeap" where
  "heap_Insert h key expiry =
    (case Mapping.lookup (keyIndex h) key of
      Some idx \<Rightarrow>
        heap_Fix (h\<lparr>entries := (entries h)[idx := (entries h ! idx)\<lparr>Expiry := expiry\<rparr>]\<rparr>) idx
    | None \<Rightarrow> heap_Push h \<lparr>Expiry = expiry, EKey = key, hindex = 0\<rparr>)"

definition heap_RemoveKey :: "ExpiryHeap \<Rightarrow> string \<Rightarrow> ExpiryHeap" where
  "heap_RemoveKey h key =
    (case Mapping.lookup (keyIndex h) key of
      Some idx \<Rightarrow> snd (heap_Remove h idx)
    | None \<Rightarrow> h)"

section \<open>Positions and keys\<close>

text \<open>The expiry at a position, the consistency of the key map, and the heap as a map.\<close>

definition prio :: "ExpiryHeap \<Rightarrow> nat \<Rightarrow> int" where
  "prio h k = Expiry (entries h ! k)"

definition keys_ok :: "ExpiryHeap \<Rightarrow> bool" where
  "keys_ok h \<longleftrightarrow>
    (\<forall>i < length (entries h). Mapping.lookup (keyIndex h) (EKey (entries h ! i)) = Some i
       \<and> hindex (entries h ! i) = i) \<and>
    (\<forall>k i. Mapping.lookup (keyIndex h) k = Some i \<longrightarrow>
       i < length (entries h) \<and> EKey (entries h ! i) = k)"

definition heap_lookup :: "ExpiryHeap \<Rightarrow> string \<Rightarrow> int option" where
  "heap_lookup h k = map_option (prio h) (Mapping.lookup (keyIndex h) k)"

lemma heap_Less_prio: "heap_Less h i j \<longleftrightarrow> prio h i < prio h j"
  by (simp add: heap_Less_def prio_def)

lemma keys_okD1:
  "keys_ok h \<Longrightarrow> i < length (entries h) \<Longrightarrow>
   Mapping.lookup (keyIndex h) (EKey (entries h ! i)) = Some i"
  by (simp add: keys_ok_def)

lemma keys_okD2:
  "keys_ok h \<Longrightarrow> Mapping.lookup (keyIndex h) k = Some i \<Longrightarrow>
   i < length (entries h) \<and> EKey (entries h ! i) = k"
  by (simp add: keys_ok_def)

lemma keys_ok_inj:
  "keys_ok h \<Longrightarrow> i < length (entries h) \<Longrightarrow> j < length (entries h) \<Longrightarrow>
   EKey (entries h ! i) = EKey (entries h ! j) \<longleftrightarrow> i = j"
  by (metis keys_okD1 option.inject)

lemma length_heap_Swap [simp]: "length (entries (heap_Swap h i j)) = length (entries h)"
  by (simp add: heap_Swap_def Let_def)

lemma heap_Swap_nth:
  assumes "i < length (entries h)" "j < length (entries h)" "k < length (entries h)"
  shows "entries (heap_Swap h i j) ! k =
    (if k = j then (entries h ! i)\<lparr>hindex := j\<rparr>
     else if k = i then (entries h ! j)\<lparr>hindex := i\<rparr> else entries h ! k)"
  using assms by (simp add: heap_Swap_def Let_def nth_list_update)

lemma heap_Swap_keyIndex:
  assumes "i < length (entries h)" "j < length (entries h)"
  shows "keyIndex (heap_Swap h i j) =
    Mapping.update (EKey (entries h ! i)) j
      (Mapping.update (EKey (entries h ! j)) i (keyIndex h))"
  using assms by (simp add: heap_Swap_def Let_def nth_list_update)

lemma prio_heap_Swap:
  assumes "i < length (entries h)" "j < length (entries h)" "k < length (entries h)"
  shows "prio (heap_Swap h i j) k = prio h (if k = i then j else if k = j then i else k)"
  using assms by (simp add: prio_def heap_Swap_nth)

lemma keys_ok_heap_Swap:
  assumes ok: "keys_ok h" and ij: "i < length (entries h)" "j < length (entries h)"
  shows "keys_ok (heap_Swap h i j)"
  unfolding keys_ok_def
proof (intro conjI allI impI)
  fix k assume k: "k < length (entries (heap_Swap h i j))"
  then show "Mapping.lookup (keyIndex (heap_Swap h i j))
      (EKey (entries (heap_Swap h i j) ! k)) = Some k"
    using ok ij by (auto simp: heap_Swap_nth heap_Swap_keyIndex lookup_update' keys_ok_inj keys_okD1)
  from k show "hindex (entries (heap_Swap h i j) ! k) = k"
    using ok ij by (simp add: heap_Swap_nth keys_ok_def)
next
  fix k l assume "Mapping.lookup (keyIndex (heap_Swap h i j)) k = Some l"
  then show "l < length (entries (heap_Swap h i j))"
    and "EKey (entries (heap_Swap h i j) ! l) = k"
    using ok ij
    by (auto simp: heap_Swap_keyIndex lookup_update' heap_Swap_nth
        dest: keys_okD2 split: if_splits)
qed

lemma heap_lookup_heap_Swap:
  assumes ok: "keys_ok h" and ij: "i < length (entries h)" "j < length (entries h)"
  shows "heap_lookup (heap_Swap h i j) = heap_lookup h"
proof
  fix k
  show "heap_lookup (heap_Swap h i j) k = heap_lookup h k"
    using assms
    by (cases "Mapping.lookup (keyIndex h) k")
      (auto simp: heap_lookup_def heap_Swap_keyIndex lookup_update' prio_heap_Swap keys_okD1 keys_ok_inj
        dest: keys_okD2)
qed

text \<open>What every sequence of swaps keeps, in one predicate.\<close>

definition same_content :: "ExpiryHeap \<Rightarrow> ExpiryHeap \<Rightarrow> bool" where
  "same_content h h' \<longleftrightarrow> length (entries h') = length (entries h) \<and> keys_ok h'
     \<and> heap_lookup h' = heap_lookup h"

lemma same_content_refl: "keys_ok h \<Longrightarrow> same_content h h"
  by (simp add: same_content_def)

lemma same_content_Swap:
  "keys_ok h \<Longrightarrow> i < length (entries h) \<Longrightarrow> j < length (entries h) \<Longrightarrow>
   same_content h (heap_Swap h i j)"
  by (simp add: same_content_def keys_ok_heap_Swap heap_lookup_heap_Swap)

lemma same_content_trans:
  "same_content h1 h2 \<Longrightarrow> same_content h2 h3 \<Longrightarrow> same_content h1 h3"
  by (simp add: same_content_def)

section \<open>Heap order\<close>

text \<open>
  \<open>ordered_but n h i\<close>: among the first \<open>n\<close> positions, every parent that is not \<open>i\<close> is at most
  its children other than \<open>i\<close>, and the children of \<open>i\<close> are at least \<open>i\<close>'s parent: a heap
  whose only defect is the value at \<open>i\<close>. \<open>ordered_up\<close> has the defect upwards only.
\<close>

definition heap_ordered :: "nat \<Rightarrow> ExpiryHeap \<Rightarrow> bool" where
  "heap_ordered n h \<longleftrightarrow> (\<forall>k. 0 < k \<and> k < n \<longrightarrow> prio h (hparent k) \<le> prio h k)"

definition ordered_up :: "nat \<Rightarrow> ExpiryHeap \<Rightarrow> nat \<Rightarrow> bool" where
  "ordered_up n h i \<longleftrightarrow>
    (\<forall>k. 0 < k \<and> k < n \<and> k \<noteq> i \<longrightarrow> prio h (hparent k) \<le> prio h k) \<and>
    (\<forall>k. 0 < i \<and> 0 < k \<and> k < n \<and> hparent k = i \<longrightarrow> prio h (hparent i) \<le> prio h k)"

definition ordered_but :: "nat \<Rightarrow> ExpiryHeap \<Rightarrow> nat \<Rightarrow> bool" where
  "ordered_but n h i \<longleftrightarrow>
    (\<forall>k. 0 < k \<and> k < n \<and> k \<noteq> i \<and> hparent k \<noteq> i \<longrightarrow> prio h (hparent k) \<le> prio h k) \<and>
    (\<forall>k. 0 < i \<and> 0 < k \<and> k < n \<and> hparent k = i \<longrightarrow> prio h (hparent i) \<le> prio h k)"

lemma heap_ordered_min:
  "heap_ordered n h \<Longrightarrow> k < n \<Longrightarrow> prio h 0 \<le> prio h k"
proof (induction k rule: less_induct)
  case (less k)
  show ?case
  proof (cases "k = 0")
    case True
    then show ?thesis by simp
  next
    case False
    then have "hparent k < k" by simp
    with less have "prio h 0 \<le> prio h (hparent k)" by simp
    also have "\<dots> \<le> prio h k" using less.prems False by (simp add: heap_ordered_def)
    finally show ?thesis .
  qed
qed

lemma ordered_up_done:
  "ordered_up n h i \<Longrightarrow> i = 0 \<or> prio h (hparent i) \<le> prio h i \<Longrightarrow> heap_ordered n h"
  by (auto simp: ordered_up_def heap_ordered_def)

lemma ordered_up_step:
  assumes up: "ordered_up n h j" and len: "n \<le> length (entries h)" and j: "j < n" "0 < j"
    and less: "prio h j < prio h (hparent j)"
  shows "ordered_up n (heap_Swap h (hparent j) j) (hparent j)"
proof -
  let ?i = "hparent j" and ?h = "heap_Swap h (hparent j) j"
  have ij: "?i < j" using j by simp
  have il: "?i < length (entries h)" "j < length (entries h)" using ij j len by linarith+
  have pr: "prio ?h k = prio h (if k = ?i then j else if k = j then ?i else k)" if "k < n" for k
    using that len prio_heap_Swap[OF il, of k] by simp
  have old: "prio h (hparent k) \<le> prio h k" if "0 < k" "k < n" "k \<noteq> j" for k
    using up that by (simp add: ordered_up_def)
  have gp: "prio h ?i \<le> prio h k" if "0 < k" "k < n" "hparent k = j" for k
    using up that j by (simp add: ordered_up_def)
  show ?thesis
    unfolding ordered_up_def
  proof (intro conjI allI impI)
    fix k assume k: "0 < k \<and> k < n \<and> k \<noteq> ?i"
    then have p: "hparent k < n" by (meson hparent_le le_less_trans)
    consider "k = j" | "k \<noteq> j" "hparent k = ?i" | "k \<noteq> j" "hparent k = j"
      | "k \<noteq> j" "hparent k \<noteq> ?i" "hparent k \<noteq> j" by blast
    then show "prio ?h (hparent k) \<le> prio ?h k"
    proof cases
      case 1
      with k p pr ij less show ?thesis by simp
    next
      case 2
      with k p ij less old[of k] show ?thesis by (simp add: pr)
    next
      case 3
      with k p ij gp[of k] show ?thesis by (simp add: pr)
    next
      case 4
      with k p ij old[of k] show ?thesis by (simp add: pr)
    qed
  next
    fix k assume k: "0 < ?i \<and> 0 < k \<and> k < n \<and> hparent k = ?i"
    have q: "hparent ?i < ?i" using k by auto
    have le: "prio h (hparent ?i) \<le> prio h ?i" using old[of ?i] k ij j by simp
    have "hparent ?i < n" "hparent ?i \<noteq> j" using q ij j by linarith+
    then have "prio ?h (hparent ?i) = prio h (hparent ?i)" using q pr[of "hparent ?i"] by simp
    moreover have "prio h ?i \<le> prio ?h k"
      using k old[of k] ij j by (cases "k = j") (auto simp: pr)
    ultimately show "prio ?h (hparent ?i) \<le> prio ?h k" using le by simp
  qed
qed

lemma heap_up_correct:
  assumes "keys_ok h" and "ordered_up n h j" and "n \<le> length (entries h)" and "j < n"
  shows "same_content h (heap_up h j) \<and> heap_ordered n (heap_up h j)"
  using assms
proof (induction h j rule: heap_up.induct)
  case (1 h j)
  let ?i = "hparent j"
  show ?case
  proof (cases "?i = j \<or> \<not> heap_Less h j ?i")
    case True
    then have "j = 0 \<or> prio h ?i \<le> prio h j" by (auto simp: heap_Less_prio)
    with "1.prems" True show ?thesis
      by (simp add: heap_up.simps[of h j] same_content_refl ordered_up_done)
  next
    case False
    then have j: "0 < j" and lt: "?i < j" and less: "prio h j < prio h ?i"
      by (auto simp: heap_Less_prio)
    have sw: "same_content h (heap_Swap h ?i j)"
      using "1.prems" lt by (intro same_content_Swap) auto
    have "same_content (heap_Swap h ?i j) (heap_up (heap_Swap h ?i j) ?i)
        \<and> heap_ordered n (heap_up (heap_Swap h ?i j) ?i)"
      using "1.prems" lt j less sw False less_trans[OF lt]
      by (intro "1.IH"[OF refl False]) (auto simp: same_content_def intro!: ordered_up_step)
    with sw False show ?thesis
      by (auto simp: heap_up.simps[of h j] Let_def intro: same_content_trans)
  qed
qed

lemma ordered_but_done:
  assumes "ordered_but n h i" and "0 < i \<longrightarrow> prio h (hparent i) \<le> prio h i"
    and "\<forall>k. 0 < k \<and> k < n \<and> hparent k = i \<longrightarrow> prio h i \<le> prio h k"
  shows "heap_ordered n h"
  using assms unfolding ordered_but_def heap_ordered_def by metis

lemma ordered_but_up:
  assumes "ordered_but n h i"
    and "\<forall>k. 0 < k \<and> k < n \<and> hparent k = i \<longrightarrow> prio h i \<le> prio h k"
  shows "ordered_up n h i"
  using assms unfolding ordered_but_def ordered_up_def by metis

lemma no_smaller_child:
  assumes "n \<le> 2 * i + 1 \<or> \<not> heap_Less h (min_child h i n) i"
  shows "\<forall>k. 0 < k \<and> k < n \<and> hparent k = i \<longrightarrow> prio h i \<le> prio h k"
proof (intro allI impI, elim conjE)
  fix k assume k: "0 < k" "k < n" "hparent k = i"
  then have "k = 2 * i + 1 \<or> k = 2 * i + 2" by (simp add: hparent_children)
  with assms k(2) show "prio h i \<le> prio h k"
    by (auto simp: min_child_def Let_def heap_Less_prio split: if_splits)
qed

lemma min_child_least:
  "0 < k \<Longrightarrow> k < n \<Longrightarrow> hparent k = i \<Longrightarrow> prio h (min_child h i n) \<le> prio h k"
  by (auto simp: hparent_children min_child_def Let_def heap_Less_prio)

lemma ordered_but_step:
  assumes but: "ordered_but n h i" and len: "n \<le> length (entries h)"
    and c: "2 * i + 1 < n" and less: "prio h (min_child h i n) < prio h i"
  shows "ordered_but n (heap_Swap h i (min_child h i n)) (min_child h i n)"
    and "prio (heap_Swap h i (min_child h i n)) i
      < prio (heap_Swap h i (min_child h i n)) (min_child h i n)"
    and "0 < i \<Longrightarrow> prio h (hparent i) \<le> prio (heap_Swap h i (min_child h i n)) i"
proof -
  let ?j = "min_child h i n" let ?h = "heap_Swap h i (min_child h i n)"
  have ij: "i < ?j" "?j < n" "hparent ?j = i" using c by (simp_all add: min_child_bounds)
  have pr: "prio ?h k = prio h (if k = i then ?j else if k = ?j then i else k)" if "k < n" for k
    using that ij len prio_heap_Swap[of i h ?j k] by simp
  have old: "prio h (hparent k) \<le> prio h k" if "0 < k" "k < n" "k \<noteq> i" "hparent k \<noteq> i" for k
    using but that by (simp add: ordered_but_def)
  have gp: "prio h (hparent i) \<le> prio h k" if "0 < i" "0 < k" "k < n" "hparent k = i" for k
    using but that by (simp add: ordered_but_def)
  show "prio ?h i < prio ?h ?j" using ij less by (simp add: pr)
  show "prio h (hparent i) \<le> prio ?h i" if "0 < i"
    using that ij gp[of ?j] by (simp add: pr)
  show "ordered_but n ?h ?j"
    unfolding ordered_but_def
  proof (intro conjI allI impI)
    fix k assume k: "0 < k \<and> k < n \<and> k \<noteq> ?j \<and> hparent k \<noteq> ?j"
    then have p: "hparent k < n" by (meson hparent_le le_less_trans)
    consider "k = i" | "k \<noteq> i" "hparent k = i" | "k \<noteq> i" "hparent k \<noteq> i" by blast
    then show "prio ?h (hparent k) \<le> prio ?h k"
    proof cases
      case 1
      with k have "hparent i \<noteq> i" "hparent i \<noteq> ?j" by auto
      with 1 k p ij gp[of ?j] show ?thesis by (simp add: pr)
    next
      case 2
      with k p ij min_child_least[of k n i h] show ?thesis by (simp add: pr)
    next
      case 3
      with k p ij old[of k] show ?thesis by (simp add: pr)
    qed
  next
    fix k assume k: "0 < ?j \<and> 0 < k \<and> k < n \<and> hparent k = ?j"
    then have "?j < k" using hparent_less[of k] by simp
    with k ij old[of k] show "prio ?h (hparent ?j) \<le> prio ?h k" by (simp add: pr)
  qed
qed

lemma heap_down_loop_correct:
  assumes "keys_ok h" and "ordered_but n h i" and "n \<le> length (entries h)"
    and "0 < i \<longrightarrow> prio h (hparent i) \<le> prio h i"
  shows "same_content h (fst (heap_down_loop h i n)) \<and> heap_ordered n (fst (heap_down_loop h i n))
    \<and> i \<le> snd (heap_down_loop h i n)"
  using assms
proof (induction h i n rule: heap_down_loop.induct)
  case (1 h i n)
  let ?j = "min_child h i n"
  show ?case
  proof (cases "n \<le> 2 * i + 1 \<or> \<not> heap_Less h ?j i")
    case True
    then have "heap_ordered n h"
      using "1.prems" no_smaller_child[OF True] by (intro ordered_but_done[of n h i]) auto
    with True "1.prems" show ?thesis
      by (auto simp: heap_down_loop.simps[of h i n] Let_def same_content_refl)
  next
    case False
    then have c: "2 * i + 1 < n" and less: "prio h ?j < prio h i" by (auto simp: heap_Less_prio)
    let ?h = "heap_Swap h i ?j"
    have ij: "i < ?j" "?j < n" "hparent ?j = i" using c by (simp_all add: min_child_bounds)
    have sw: "same_content h ?h"
      using "1.prems" ij by (intro same_content_Swap) auto
    note st = ordered_but_step[OF "1.prems"(2,3) c less]
    have "same_content ?h (fst (heap_down_loop ?h ?j n))
        \<and> heap_ordered n (fst (heap_down_loop ?h ?j n)) \<and> ?j \<le> snd (heap_down_loop ?h ?j n)"
      using False sw st "1.prems"(3) ij
      by (intro "1.IH"[OF _ refl]) (auto simp: same_content_def)
    with sw False ij show ?thesis
      by (auto simp: heap_down_loop.simps[of h i n] Let_def intro: same_content_trans)
  qed
qed

text \<open>
  \<open>down\<close> from a position with an arbitrary value: either it moved and the heap is ordered, or
  it did not and only the upward relation of the position can be wrong.
\<close>

lemma heap_down_correct:
  assumes "keys_ok h" and "ordered_but n h i" and "n \<le> length (entries h)"
    and "heap_down h i n = (h', moved)"
  shows "same_content h h' \<and> (if moved then heap_ordered n h' else h' = h \<and> ordered_up n h i)"
proof (cases "n \<le> 2 * i + 1 \<or> \<not> heap_Less h (min_child h i n) i")
  case True
  with assms(4) have "h' = h \<and> \<not> moved"
    by (auto simp: heap_down_def heap_down_loop.simps[of h i n] Let_def split: if_splits)
  with assms(1) ordered_but_up[OF assms(2) no_smaller_child[OF True]] show ?thesis
    by (simp add: same_content_refl)
next
  case False
  let ?j = "min_child h i n" let ?h = "heap_Swap h i ?j"
  from False have c: "2 * i + 1 < n" and less: "prio h ?j < prio h i"
    by (auto simp: heap_Less_prio)
  have ij: "i < ?j" "?j < n" "hparent ?j = i" using c by (simp_all add: min_child_bounds)
  have sw: "same_content h ?h"
    using assms ij by (intro same_content_Swap) auto
  note st = ordered_but_step[OF assms(2,3) c less]
  have "same_content ?h (fst (heap_down_loop ?h ?j n))
      \<and> heap_ordered n (fst (heap_down_loop ?h ?j n)) \<and> ?j \<le> snd (heap_down_loop ?h ?j n)"
    using sw st assms(3) ij by (intro heap_down_loop_correct) (auto simp: same_content_def)
  with sw False ij assms(4) show ?thesis
    by (auto simp: heap_down_def heap_down_loop.simps[of h i n] Let_def
        intro: same_content_trans split: prod.splits)
qed

section \<open>The invariant and the operations by key\<close>

definition heap_inv :: "ExpiryHeap \<Rightarrow> bool" where
  "heap_inv h \<longleftrightarrow> keys_ok h \<and> heap_ordered (length (entries h)) h"

lemma heap_Swap_other [simp]:
  "k \<noteq> i \<Longrightarrow> k \<noteq> j \<Longrightarrow> entries (heap_Swap h i j) ! k = entries h ! k"
  by (simp add: heap_Swap_def Let_def)

lemma heap_up_above: "j < k \<Longrightarrow> entries (heap_up h j) ! k = entries h ! k"
proof (induction h j rule: heap_up.induct)
  case (1 h j)
  have "k \<noteq> j" "k \<noteq> hparent j" "hparent j < k" using "1.prems" hparent_le[of j] by linarith+
  with "1.IH"[OF refl] show ?case
    by (cases "hparent j = j \<or> \<not> heap_Less h j (hparent j)")
      (auto simp: heap_up.simps[of h j] Let_def)
qed

lemma heap_down_loop_above:
  "n \<le> k \<Longrightarrow> i < n \<Longrightarrow> entries (fst (heap_down_loop h i n)) ! k = entries h ! k"
proof (induction h i n rule: heap_down_loop.induct)
  case (1 h i n)
  show ?case
  proof (cases "n \<le> 2 * i + 1 \<or> \<not> heap_Less h (min_child h i n) i")
    case True
    then show ?thesis by (auto simp: heap_down_loop.simps[of h i n] Let_def)
  next
    case False
    then have "min_child h i n < n" by (auto simp: min_child_bounds)
    with False 1 show ?thesis by (simp add: heap_down_loop.simps[of h i n] Let_def)
  qed
qed

lemma heap_inv_same_content:
  "same_content h h' \<Longrightarrow> heap_ordered (length (entries h)) h' \<Longrightarrow>
   heap_inv h' \<and> heap_lookup h' = heap_lookup h"
  by (simp add: same_content_def heap_inv_def)

lemma heap_inv_New: "heap_inv NewExpiryHeap"
  by (simp add: heap_inv_def NewExpiryHeap_def keys_ok_def heap_ordered_def)

lemma heap_lookup_New: "heap_lookup NewExpiryHeap = Map.empty"
  by (rule ext) (simp add: heap_lookup_def NewExpiryHeap_def)

lemma prio_PushEntry:
  "prio (heap_PushEntry h x) k = (if k = length (entries h) then Expiry x else prio h k)"
  if "k \<le> length (entries h)"
  using that by (simp add: prio_def heap_PushEntry_def Let_def nth_append)

lemma prio_PushEntry_old [simp]:
  "k < length (entries h) \<Longrightarrow> prio (heap_PushEntry h x) k = prio h k"
  by (simp add: prio_PushEntry)

lemma keys_ok_PushEntry:
  assumes "keys_ok h" and "Mapping.lookup (keyIndex h) (EKey x) = None"
  shows "keys_ok (heap_PushEntry h x)"
  using assms unfolding keys_ok_def
  by (auto simp: heap_PushEntry_def Let_def nth_append less_Suc_eq lookup_update'
      split: if_splits)

lemma heap_lookup_PushEntry:
  assumes "keys_ok h"
  shows "heap_lookup (heap_PushEntry h x) = (heap_lookup h)(EKey x \<mapsto> Expiry x)"
proof
  fix k
  show "heap_lookup (heap_PushEntry h x) k = ((heap_lookup h)(EKey x \<mapsto> Expiry x)) k"
    using assms
    by (cases "Mapping.lookup (keyIndex h) k")
      (auto simp: heap_lookup_def heap_PushEntry_def Let_def lookup_update' prio_def nth_append
        dest: keys_okD2)
qed

lemma heap_Push_correct:
  assumes inv: "heap_inv h" and new: "Mapping.lookup (keyIndex h) (EKey x) = None"
  shows "heap_inv (heap_Push h x) \<and> heap_lookup (heap_Push h x) = (heap_lookup h)(EKey x \<mapsto> Expiry x)"
proof -
  let ?h = "heap_PushEntry h x" and ?n = "length (entries h)"
  have len: "length (entries ?h) = Suc ?n" by (simp add: heap_PushEntry_def Let_def)
  have "prio ?h (hparent k) \<le> prio ?h k" if "0 < k" "k < ?n" for k
    using that inv by (simp add: heap_inv_def heap_ordered_def)
  then have up: "ordered_up (Suc ?n) ?h ?n"
    by (auto simp: ordered_up_def less_Suc_eq hparent_children)
  have "same_content ?h (heap_up ?h ?n) \<and> heap_ordered (Suc ?n) (heap_up ?h ?n)"
    using inv new by (intro heap_up_correct up keys_ok_PushEntry) (auto simp: heap_inv_def len)
  then show ?thesis
    using inv heap_inv_same_content[of ?h "heap_up ?h ?n"]
    by (simp add: heap_Push_def heap_Len_def len heap_lookup_PushEntry heap_inv_def)
qed

lemma heap_Fix_correct:
  assumes ok: "keys_ok h" and but: "ordered_but (length (entries h)) h i"
    and i: "i < length (entries h)"
  shows "heap_inv (heap_Fix h i) \<and> heap_lookup (heap_Fix h i) = heap_lookup h"
proof -
  obtain h' moved where d: "heap_down h i (length (entries h)) = (h', moved)" by fastforce
  show ?thesis
    using heap_down_correct[OF ok but order_refl d]
      heap_up_correct[of h "length (entries h)" i] ok i
      heap_inv_same_content[of h h'] heap_inv_same_content[of h "heap_up h i"]
    by (auto simp: heap_Fix_def heap_Len_def d split: if_splits)
qed

lemma ordered_but_change:
  assumes "heap_ordered n h" and "\<And>k. k < n \<Longrightarrow> k \<noteq> i \<Longrightarrow> prio h' k = prio h k"
  shows "ordered_but n h' i"
proof -
  have o: "prio h (hparent k) \<le> prio h k" if "0 < k" "k < n" for k
    using assms(1) that by (simp add: heap_ordered_def)
  have lt: "hparent k < n" if "k < n" for k using that by (meson hparent_le le_less_trans)
  have gp: "prio h (hparent (hparent k)) \<le> prio h k" if "0 < hparent k" "k < n" for k
  proof -
    have "0 < k" using that(1) hparent_le[of k] by linarith
    with o[of "hparent k"] o[of k] that lt[of k] show ?thesis by linarith
  qed
  show ?thesis
    unfolding ordered_but_def
    using o gp lt assms(2) by (metis hparent_less less_irrefl less_trans)
qed

lemma heap_PopLast_correct:
  assumes ok: "keys_ok h" and ord: "heap_ordered (length (entries h) - 1) h" and ne: "entries h \<noteq> []"
  shows "heap_inv (snd (heap_PopLast h))
    \<and> heap_lookup (snd (heap_PopLast h)) = (heap_lookup h)(EKey (last (entries h)) := None)"
proof -
  let ?n = "length (entries h) - 1" and ?h = "snd (heap_PopLast h)"
  have n: "?n < length (entries h)" using ne by simp
  have es: "entries ?h = take ?n (entries h)"
    and ki: "keyIndex ?h = Mapping.delete (EKey (entries h ! ?n)) (keyIndex h)"
    by (simp_all add: heap_PopLast_def Let_def)
  have "keys_ok ?h"
    unfolding keys_ok_def es ki using ok n
    by (auto simp: lookup_delete' keys_ok_inj keys_okD1 keys_ok_def split: if_splits
        dest: keys_okD2[OF ok])
  moreover have "heap_ordered (length (entries ?h)) ?h"
    using ord by (auto simp: heap_ordered_def es prio_def)
  moreover have "heap_lookup ?h k = ((heap_lookup h)(EKey (entries h ! ?n) := None)) k" for k
  proof (cases "Mapping.lookup (keyIndex h) k")
    case None
    then show ?thesis by (simp add: heap_lookup_def ki lookup_delete')
  next
    case (Some a)
    then have a: "a < length (entries h)" "EKey (entries h ! a) = k" using keys_okD2[OF ok] by auto
    show ?thesis
    proof (cases "a = ?n")
      case True
      with a show ?thesis by (simp add: heap_lookup_def ki)
    next
      case False
      with a n have "a < ?n" "k \<noteq> EKey (entries h ! ?n)" using keys_ok_inj[OF ok a(1) n] by auto
      then show ?thesis by (simp add: heap_lookup_def ki Some prio_def es)
    qed
  qed
  ultimately show ?thesis
    using ne by (auto simp: heap_inv_def last_conv_nth)
qed

lemma heap_Remove_correct:
  assumes inv: "heap_inv h" and i: "i < length (entries h)"
  shows "heap_inv (snd (heap_Remove h i))
    \<and> heap_lookup (snd (heap_Remove h i)) = (heap_lookup h)(EKey (entries h ! i) := None)"
proof -
  define n where "n = length (entries h) - 1"
  have n: "n < length (entries h)" "i \<le> n" using i by (auto simp: n_def)
  have ok: "keys_ok h" and ord: "heap_ordered (length (entries h)) h"
    using inv by (simp_all add: heap_inv_def)
  have ord_n: "heap_ordered n h" using ord n by (simp add: heap_ordered_def)
  show ?thesis
  proof (cases "n = i")
    case True
    then show ?thesis
      using heap_PopLast_correct[OF ok] ord_n n(1)
      by (cases "entries h = []") (auto simp: heap_Remove_def heap_Len_def n_def last_conv_nth)
  next
    case False
    then have lt: "i < n" using n by simp
    let ?s = "heap_Swap h i n"
    obtain h' moved where d: "heap_down ?s i n = (h', moved)" by fastforce
    define r where "r = (if \<not> moved then heap_up h' i else h')"
    have oks: "keys_ok ?s" and sw: "same_content h ?s"
      using ok i n by (simp_all add: keys_ok_heap_Swap same_content_Swap)
    have "ordered_but n ?s i"
      using i n by (intro ordered_but_change[OF ord_n]) (simp add: prio_heap_Swap)
    then have "same_content ?s r \<and> heap_ordered n r"
      using heap_down_correct[OF oks _ _ d] heap_up_correct[OF oks, of n i] n lt
      by (auto simp: r_def)
    moreover have "entries r ! n = entries ?s ! n"
      using heap_down_loop_above[of n n i ?s] heap_up_above[of i n h'] d lt
      by (auto simp: r_def heap_down_def split: prod.splits)
    moreover have "EKey (entries ?s ! n) = EKey (entries h ! i)"
      using i n by (simp add: heap_Swap_nth)
    moreover have "length (entries r) = Suc n"
      using \<open>same_content ?s r \<and> _\<close> n(1) by (simp add: same_content_def n_def)
    moreover have "heap_Remove h i = heap_PopLast r"
      unfolding heap_Remove_def heap_Len_def n_def[symmetric] Let_def using False d
      by (simp add: r_def)
    moreover have "entries r \<noteq> []" using \<open>length (entries r) = Suc n\<close> by auto
    moreover have "keys_ok r" "heap_lookup r = heap_lookup h" "heap_ordered n r"
      using \<open>same_content ?s r \<and> _\<close> sw by (simp_all add: same_content_def)
    ultimately show ?thesis
      using heap_PopLast_correct[of r] by (simp add: last_conv_nth)
  qed
qed

lemma heap_Insert_correct:
  assumes inv: "heap_inv h"
  shows "heap_inv (heap_Insert h k x) \<and> heap_lookup (heap_Insert h k x) = (heap_lookup h)(k \<mapsto> x)"
proof (cases "Mapping.lookup (keyIndex h) k")
  case None
  then show ?thesis
    using heap_Push_correct[OF inv, of "\<lparr>Expiry = x, EKey = k, hindex = 0\<rparr>"]
    by (simp add: heap_Insert_def)
next
  case (Some i)
  let ?h = "h\<lparr>entries := (entries h)[i := (entries h ! i)\<lparr>Expiry := x\<rparr>]\<rparr>"
  have ok: "keys_ok h" and i: "i < length (entries h)" and ki: "EKey (entries h ! i) = k"
    using inv Some by (auto simp: heap_inv_def dest: keys_okD2)
  have pr: "prio ?h j = (if j = i then x else prio h j)" if "j < length (entries h)" for j
    using that by (simp add: prio_def nth_list_update)
  have same: "EKey (entries ?h ! j) = EKey (entries h ! j)"
    "hindex (entries ?h ! j) = hindex (entries h ! j)" for j
    using i by (cases "j = i"; simp)+
  have ok': "keys_ok ?h"
    using ok unfolding keys_ok_def same by simp
  have "ordered_but (length (entries ?h)) ?h i"
    using inv by (intro ordered_but_change[of _ h]) (auto simp: pr heap_inv_def)
  then have "heap_inv (heap_Fix ?h i) \<and> heap_lookup (heap_Fix ?h i) = heap_lookup ?h"
    using i ok' by (intro heap_Fix_correct) auto
  moreover have "heap_lookup ?h k' = ((heap_lookup h)(k \<mapsto> x)) k'" for k'
  proof (cases "k' = k")
    case True
    then show ?thesis using i by (simp add: heap_lookup_def pr Some)
  next
    case False
    then show ?thesis
      using ok ki by (cases "Mapping.lookup (keyIndex h) k'") (auto simp: heap_lookup_def pr dest: keys_okD2)
  qed
  ultimately show ?thesis
    by (auto simp: heap_Insert_def Some)
qed

lemma heap_RemoveKey_correct:
  assumes inv: "heap_inv h"
  shows "heap_inv (heap_RemoveKey h k) \<and> heap_lookup (heap_RemoveKey h k) = (heap_lookup h)(k := None)"
proof (cases "Mapping.lookup (keyIndex h) k")
  case None
  then have "heap_lookup h k = None" by (simp add: heap_lookup_def)
  then show ?thesis using inv None by (auto simp: heap_RemoveKey_def)
next
  case (Some i)
  then show ?thesis
    using heap_Remove_correct[OF inv, of i] inv
    by (auto simp: heap_RemoveKey_def heap_inv_def dest: keys_okD2)
qed

lemma PeekMin_None:
  assumes "heap_inv h"
  shows "PeekMin h = None \<longleftrightarrow> heap_lookup h = Map.empty"
proof
  assume "PeekMin h = None"
  then have "entries h = []" by (simp add: PeekMin_def split: if_splits)
  then have "Mapping.lookup (keyIndex h) k = None" for k
    using assms keys_okD2[of h k] by (cases "Mapping.lookup (keyIndex h) k") (auto simp: heap_inv_def)
  then show "heap_lookup h = Map.empty" by (auto simp: heap_lookup_def)
next
  assume e: "heap_lookup h = Map.empty"
  show "PeekMin h = None"
  proof (rule ccontr)
    assume "PeekMin h \<noteq> None"
    then have "0 < length (entries h)" by (simp add: PeekMin_def split: if_splits)
    then have "heap_lookup h (EKey (entries h ! 0)) \<noteq> None"
      using assms by (simp add: heap_lookup_def heap_inv_def keys_okD1)
    with e show False by simp
  qed
qed

lemma PeekMin_Some:
  assumes inv: "heap_inv h" and e: "PeekMin h = Some e"
  shows "heap_lookup h (EKey e) = Some (Expiry e)"
    and "heap_lookup h k = Some x \<Longrightarrow> Expiry e \<le> x"
proof -
  have e0: "e = entries h ! 0" "0 < length (entries h)"
    using e by (auto simp: PeekMin_def split: if_splits)
  then show "heap_lookup h (EKey e) = Some (Expiry e)"
    using inv by (simp add: heap_lookup_def heap_inv_def keys_okD1 prio_def)
  assume "heap_lookup h k = Some x"
  then obtain i where "Mapping.lookup (keyIndex h) k = Some i" "x = prio h i"
    by (auto simp: heap_lookup_def)
  with inv have "prio h 0 \<le> x"
    using heap_ordered_min[of "length (entries h)" h i] keys_okD2[of h k i]
    by (auto simp: heap_inv_def)
  with e0 show "Expiry e \<le> x" by (simp add: prio_def)
qed

section \<open>The expiry queue as an interface\<close>

text \<open>
  What the index and the worker rely on: a finite map from keys to expiry times with a
  minimum. What a sequence of commands leaves is proved from the laws alone.
\<close>

datatype queue_cmd = QInsert string int | QRemove string

text \<open>The map from keys to expiry times that a sequence of commands leaves.\<close>

fun expiry_map :: "queue_cmd list \<Rightarrow> (string \<Rightarrow> int option) \<Rightarrow> string \<Rightarrow> int option" where
  "expiry_map [] m = m"
| "expiry_map (QInsert k x # cs) m = expiry_map cs (m(k \<mapsto> x))"
| "expiry_map (QRemove k # cs) m = expiry_map cs (m(k := None))"

locale expiry_queue =
  fixes inv :: "'q \<Rightarrow> bool"
    and look :: "'q \<Rightarrow> string \<Rightarrow> int option"
    and new :: 'q
    and insert :: "'q \<Rightarrow> string \<Rightarrow> int \<Rightarrow> 'q"
    and remove :: "'q \<Rightarrow> string \<Rightarrow> 'q"
    and peek :: "'q \<Rightarrow> (string \<times> int) option"
  assumes inv_new: "inv new" and look_new: "look new = Map.empty"
    and inv_insert: "inv q \<Longrightarrow> inv (insert q k x)"
    and look_insert: "inv q \<Longrightarrow> look (insert q k x) = (look q)(k \<mapsto> x)"
    and inv_remove: "inv q \<Longrightarrow> inv (remove q k)"
    and look_remove: "inv q \<Longrightarrow> look (remove q k) = (look q)(k := None)"
    and peek_None: "inv q \<Longrightarrow> peek q = None \<longleftrightarrow> look q = Map.empty"
    and peek_look: "inv q \<Longrightarrow> peek q = Some (k, x) \<Longrightarrow> look q k = Some x"
    and peek_min: "inv q \<Longrightarrow> peek q = Some (k, x) \<Longrightarrow> look q k' = Some y \<Longrightarrow> x \<le> y"
begin

lemma run_commands:
  assumes "inv q"
  defines "step \<equiv> \<lambda>c q. case c of QInsert k x \<Rightarrow> insert q k x | QRemove k \<Rightarrow> remove q k"
  shows "inv (fold step cs q) \<and> look (fold step cs q) = expiry_map cs (look q)"
  using assms(1)
proof (induction cs arbitrary: q)
  case (Cons c cs)
  then show ?case
    by (cases c) (simp_all add: step_def inv_insert inv_remove look_insert look_remove fun_upd_def)
qed simp

end

interpretation eq: expiry_queue heap_inv heap_lookup NewExpiryHeap heap_Insert heap_RemoveKey
  "\<lambda>h. map_option (\<lambda>e. (EKey e, Expiry e)) (PeekMin h)"
  by unfold_locales
    (auto simp: heap_inv_New heap_lookup_New heap_Insert_correct heap_RemoveKey_correct
      PeekMin_None PeekMin_Some)

end
