(* ===== verification/GoList.thy ===== *)
theory GoList
  imports Prelude
begin

text \<open>
  The part of Go's \<^verbatim>\<open>container/list\<close> that the index uses for its LRU list. A
  \<^verbatim>\<open>*list.Element\<close> is a pointer that the entries hold, so an element has an identity: the
  model numbers the elements of a list in the order of their creation. Operations given an
  element that is not in the list change nothing, as the package's check of \<open>e.list\<close> does.
  The laws the index relies on are the locale \<open>recency_list\<close>.
\<close>

record 'a golist =
  elems :: "(nat \<times> 'a) list"
  nextElem :: nat

definition list_New :: "'a golist" where
  "list_New = \<lparr>elems = [], nextElem = 0\<rparr>"

definition list_Front :: "'a golist \<Rightarrow> (nat \<times> 'a) option" where
  "list_Front l = (case elems l of [] \<Rightarrow> None | e # _ \<Rightarrow> Some e)"

definition list_PushBack :: "'a golist \<Rightarrow> 'a \<Rightarrow> nat \<times> 'a golist" where
  "list_PushBack l v =
    (nextElem l, \<lparr>elems = elems l @ [(nextElem l, v)], nextElem = Suc (nextElem l)\<rparr>)"

definition list_MoveToBack :: "'a golist \<Rightarrow> nat \<Rightarrow> 'a golist" where
  "list_MoveToBack l el =
    l\<lparr>elems := filter (\<lambda>x. fst x \<noteq> el) (elems l) @ filter (\<lambda>x. fst x = el) (elems l)\<rparr>"

definition list_Remove :: "'a golist \<Rightarrow> nat \<Rightarrow> 'a golist" where
  "list_Remove l el = l\<lparr>elems := filter (\<lambda>x. fst x \<noteq> el) (elems l)\<rparr>"

text \<open>The assignment \<open>el.Value = v\<close>.\<close>

definition list_SetValue :: "'a golist \<Rightarrow> nat \<Rightarrow> 'a \<Rightarrow> 'a golist" where
  "list_SetValue l el v = l\<lparr>elems := map (\<lambda>x. if fst x = el then (el, v) else x) (elems l)\<rparr>"

definition list_ok :: "'a golist \<Rightarrow> bool" where
  "list_ok l \<longleftrightarrow> distinct (map fst (elems l)) \<and> (\<forall>x \<in> set (elems l). fst x < nextElem l)"

lemma list_ok_elem_inj:
  "list_ok l \<Longrightarrow> (el, r) \<in> set (elems l) \<Longrightarrow> (el, r') \<in> set (elems l) \<Longrightarrow> r = r'"
  by (metis list_ok_def eq_key_imp_eq_value)

lemma filter_fst_eq:
  "distinct (map fst xs) \<Longrightarrow> (el, v) \<in> set xs \<Longrightarrow> filter (\<lambda>x. fst x = el) xs = [(el, v)]"
proof (induction xs)
  case Nil
  then show ?case by simp
next
  case (Cons x xs)
  show ?case
  proof (cases "fst x = el")
    case True
    with Cons.prems have "el \<notin> fst ` set xs" by auto
    with True Cons.prems have "x = (el, v)" "filter (\<lambda>x. fst x = el) xs = []"
      by (auto simp: filter_empty_conv image_iff)
    then show ?thesis by simp
  next
    case False
    with Cons show ?thesis by auto
  qed
qed

lemma map_fst_setvalue:
  "map fst (map (\<lambda>x. if fst x = el then (el, v) else x) xs) = map fst xs"
  by (induction xs) auto

lemma filter_setvalue:
  "filter (\<lambda>x. fst x \<noteq> el) (map (\<lambda>x. if fst x = el then (el, v) else x) xs) =
   filter (\<lambda>x. fst x \<noteq> el) xs"
  by (induction xs) auto

section \<open>The recency list as an interface\<close>

locale recency_list =
  fixes inv :: "'l \<Rightarrow> bool"
    and seq :: "'l \<Rightarrow> (nat \<times> 'a) list"
    and new :: 'l
    and front :: "'l \<Rightarrow> (nat \<times> 'a) option"
    and pushback :: "'l \<Rightarrow> 'a \<Rightarrow> nat \<times> 'l"
    and move :: "'l \<Rightarrow> nat \<Rightarrow> 'l"
    and remove :: "'l \<Rightarrow> nat \<Rightarrow> 'l"
    and setvalue :: "'l \<Rightarrow> nat \<Rightarrow> 'a \<Rightarrow> 'l"
  assumes inv_new: "inv new" and seq_new: "seq new = []"
    and inv_distinct: "inv l \<Longrightarrow> distinct (map fst (seq l))"
    and front_seq: "front l = (case seq l of [] \<Rightarrow> None | e # _ \<Rightarrow> Some e)"
    and push_inv: "inv l \<Longrightarrow> inv (snd (pushback l v))"
    and push_seq: "seq (snd (pushback l v)) = seq l @ [(fst (pushback l v), v)]"
    and push_fresh: "inv l \<Longrightarrow> fst (pushback l v) \<notin> fst ` set (seq l)"
    and move_inv: "inv l \<Longrightarrow> inv (move l el)"
    and move_seq: "inv l \<Longrightarrow> (el, v) \<in> set (seq l) \<Longrightarrow>
      seq (move l el) = filter (\<lambda>x. fst x \<noteq> el) (seq l) @ [(el, v)]"
    and remove_inv: "inv l \<Longrightarrow> inv (remove l el)"
    and remove_seq: "seq (remove l el) = filter (\<lambda>x. fst x \<noteq> el) (seq l)"
    and set_inv: "inv l \<Longrightarrow> inv (setvalue l el v)"
    and set_seq: "seq (setvalue l el v) = map (\<lambda>x. if fst x = el then (el, v) else x) (seq l)"
begin

text \<open>Replacing an element's value and moving it: the step that \<open>Index.Set\<close> makes.\<close>

lemma set_move_seq:
  assumes "inv l" and "(el, v) \<in> set (seq l)"
  shows "seq (move (setvalue l el w) el) = filter (\<lambda>x. fst x \<noteq> el) (seq l) @ [(el, w)]"
proof -
  have "(el, w) \<in> set (seq (setvalue l el w))"
    using assms(2) by (force simp: set_seq)
  then have "seq (move (setvalue l el w) el) =
      filter (\<lambda>x. fst x \<noteq> el) (seq (setvalue l el w)) @ [(el, w)]"
    by (rule move_seq[OF set_inv[OF assms(1)]])
  also have "filter (\<lambda>x. fst x \<noteq> el) (seq (setvalue l el w)) = filter (\<lambda>x. fst x \<noteq> el) (seq l)"
    unfolding set_seq by (rule filter_setvalue)
  finally show ?thesis .
qed

lemma set_move_inv: "inv l \<Longrightarrow> inv (move (setvalue l el w) el)"
  by (intro move_inv set_inv)

end

lemma list_ok_SetValue: "list_ok l \<Longrightarrow> list_ok (list_SetValue l el v)"
  by (auto simp: list_ok_def list_SetValue_def map_fst_setvalue simp del: map_map)

lemma list_ok_MoveToBack: "list_ok l \<Longrightarrow> list_ok (list_MoveToBack l el)"
  by (auto simp: list_ok_def list_MoveToBack_def distinct_map_filter)

interpretation ll: recency_list list_ok elems list_New list_Front list_PushBack
  list_MoveToBack list_Remove list_SetValue
  by unfold_locales
    (auto simp: list_ok_SetValue list_ok_MoveToBack,
     auto simp: list_ok_def list_New_def list_Front_def list_PushBack_def list_Remove_def
       list_MoveToBack_def list_SetValue_def distinct_map_filter filter_fst_eq)

end
