(* ===== verification/ItemList.thy ===== *)
theory ItemList
  imports Prelude
begin

text \<open>
  The abstract contents of one shard: the list of its items from the least to the most
  recently used. This is the specification the index is proved to implement; its operations
  are the textbook ones on a list with distinct keys.
\<close>

record item =
  ikey :: string
  ival :: bytes
  isoft :: int
  ihard :: int
  icas :: uint64
  irefresh :: bool

definition a_find :: "string \<Rightarrow> item list \<Rightarrow> item option" where
  "a_find k its = List.find (\<lambda>i. ikey i = k) its"

definition a_delete :: "string \<Rightarrow> item list \<Rightarrow> item list" where
  "a_delete k its = filter (\<lambda>i. ikey i \<noteq> k) its"

definition a_set :: "item \<Rightarrow> item list \<Rightarrow> item list" where
  "a_set i its = a_delete (ikey i) its @ [i]"

definition a_touch :: "string \<Rightarrow> item list \<Rightarrow> item list" where
  "a_touch k its = (case a_find k its of None \<Rightarrow> its | Some i \<Rightarrow> a_set i its)"

definition isize :: "item \<Rightarrow> int" where
  "isize i = int (length (ikey i) + length (ival i))"

definition total_size :: "item list \<Rightarrow> int" where
  "total_size its = sum_list (map isize its)"

text \<open>The hard expiry that the expiry heap holds for a key: none when the item never expires.\<close>

definition a_expiry :: "item list \<Rightarrow> string \<Rightarrow> int option" where
  "a_expiry its k =
    (case a_find k its of None \<Rightarrow> None | Some i \<Rightarrow> if ihard i > 0 then Some (ihard i) else None)"

definition keys_distinct :: "item list \<Rightarrow> bool" where
  "keys_distinct its \<longleftrightarrow> distinct (map ikey its)"

section \<open>Laws\<close>

lemma a_find_Nil [simp]: "a_find k [] = None"
  by (simp add: a_find_def)

lemma a_find_Cons [simp]: "a_find k (i # its) = (if ikey i = k then Some i else a_find k its)"
  by (simp add: a_find_def)

lemma a_find_append [simp]:
  "a_find k (xs @ ys) = (case a_find k xs of None \<Rightarrow> a_find k ys | Some i \<Rightarrow> Some i)"
  by (induction xs) auto

lemma a_delete_Cons: "a_delete k (i # its) = (if ikey i = k then a_delete k its else i # a_delete k its)"
  by (simp add: a_delete_def)

lemma a_find_delete [simp]: "a_find k (a_delete k' its) = (if k = k' then None else a_find k its)"
  by (induction its) (auto simp: a_delete_def)

lemma a_find_set [simp]: "a_find k (a_set i its) = (if ikey i = k then Some i else a_find k its)"
  by (auto simp: a_set_def split: option.splits)

lemma a_find_ikey: "a_find k its = Some i \<Longrightarrow> ikey i = k"
  by (induction its) (auto split: if_splits)

lemma a_find_in: "a_find k its = Some i \<Longrightarrow> i \<in> set its"
  by (induction its) (auto split: if_splits)

lemma a_touch_Some: "a_find k its = Some i \<Longrightarrow> a_touch k its = a_set i its \<and> ikey i = k"
  by (simp add: a_touch_def a_find_ikey)

lemma a_touch_None: "a_find k its = None \<Longrightarrow> a_touch k its = its"
  by (simp add: a_touch_def)

lemma a_find_touch [simp]: "a_find k (a_touch k' its) = a_find k its"
  using a_touch_Some[of k' its] by (cases "a_find k' its") (auto simp: a_touch_None)

lemma a_find_None_iff: "a_find k its = None \<longleftrightarrow> k \<notin> ikey ` set its"
  by (induction its) auto

lemma a_find_Some_iff:
  "keys_distinct its \<Longrightarrow> a_find k its = Some i \<longleftrightarrow> i \<in> set its \<and> ikey i = k"
  by (induction its) (auto simp: keys_distinct_def)

lemma a_delete_absent: "a_find k its = None \<Longrightarrow> a_delete k its = its"
  by (induction its) (auto simp: a_delete_def split: if_splits)

lemma keys_distinct_Nil [simp]: "keys_distinct []"
  by (simp add: keys_distinct_def)

lemma keys_distinct_Cons:
  "keys_distinct (i # its) \<longleftrightarrow> a_find (ikey i) its = None \<and> keys_distinct its"
  by (auto simp: keys_distinct_def a_find_None_iff)

lemma keys_distinct_delete [simp]: "keys_distinct its \<Longrightarrow> keys_distinct (a_delete k its)"
  by (simp add: keys_distinct_def a_delete_def distinct_map_filter)

lemma keys_distinct_set [simp]: "keys_distinct its \<Longrightarrow> keys_distinct (a_set i its)"
  by (auto simp: keys_distinct_def a_set_def a_delete_def distinct_map_filter)

lemma keys_distinct_touch [simp]: "keys_distinct its \<Longrightarrow> keys_distinct (a_touch k its)"
  by (auto simp: a_touch_def split: option.splits)

lemma set_a_delete: "set (a_delete k its) = {i \<in> set its. ikey i \<noteq> k}"
  by (auto simp: a_delete_def)

lemma total_size_simps [simp]:
  "total_size [] = 0" "total_size (i # its) = isize i + total_size its"
  "total_size (xs @ ys) = total_size xs + total_size ys"
  by (simp_all add: total_size_def)

lemma isize_nonneg [simp]: "0 \<le> isize i"
  by (simp add: isize_def)

lemma total_size_nonneg [simp]: "0 \<le> total_size its"
  by (induction its) auto

definition size_of_key :: "string \<Rightarrow> item list \<Rightarrow> int" where
  "size_of_key k its = (case a_find k its of None \<Rightarrow> 0 | Some i \<Rightarrow> isize i)"

lemma size_of_key_in: "keys_distinct its \<Longrightarrow> i \<in> set its \<Longrightarrow> size_of_key (ikey i) its = isize i"
  by (simp add: size_of_key_def a_find_Some_iff[THEN iffD2])

lemma size_of_key_absent: "k \<notin> ikey ` set its \<Longrightarrow> size_of_key k its = 0"
  by (simp add: size_of_key_def a_find_None_iff[THEN iffD2])

lemma total_size_delete:
  "keys_distinct its \<Longrightarrow> total_size (a_delete k its) = total_size its - size_of_key k its"
proof (induction its)
  case Nil
  then show ?case by (simp add: a_delete_def size_of_key_def)
next
  case (Cons i its)
  then show ?case
    by (cases "ikey i = k")
      (auto simp: keys_distinct_Cons size_of_key_def a_delete_absent a_delete_def
        split: option.splits)
qed

lemma total_size_set:
  "keys_distinct its \<Longrightarrow>
   total_size (a_set i its) = total_size its - size_of_key (ikey i) its + isize i"
  by (simp add: a_set_def total_size_delete)

lemma total_size_touch [simp]: "keys_distinct its \<Longrightarrow> total_size (a_touch k its) = total_size its"
  using a_touch_Some[of k its]
  by (cases "a_find k its") (auto simp: a_touch_None total_size_set size_of_key_def)

lemma a_delete_hd:
  "keys_distinct (i # its) \<Longrightarrow> a_delete (ikey i) (i # its) = its"
  by (simp add: keys_distinct_Cons a_delete_def) (metis a_delete_absent a_delete_def)

lemma a_set_delete_same [simp]: "a_set i (a_delete (ikey i) its) = a_set i its"
  by (simp add: a_set_def a_delete_def)

lemma a_touch_set_same: "a_touch (ikey i) (a_set i its) = a_set i its"
  by (simp add: a_touch_def) (simp add: a_set_def a_delete_def)

lemma a_expiry_empty [simp]: "a_expiry [] = Map.empty"
  by (rule ext) (simp add: a_expiry_def)

lemma a_expiry_delete: "a_expiry (a_delete k its) = (a_expiry its)(k := None)"
  by (rule ext) (simp add: a_expiry_def)

lemma a_expiry_set:
  "a_expiry (a_set i its) = (a_expiry its)(ikey i := if ihard i > 0 then Some (ihard i) else None)"
  by (rule ext) (simp add: a_expiry_def)

lemma a_expiry_touch [simp]: "a_expiry (a_touch k its) = a_expiry its"
  by (rule ext) (simp add: a_expiry_def)

lemma filter_a_delete:
  assumes "keys_distinct its" and "a_find k its = Some i" and "P i"
  shows "filter (\<lambda>x. \<not> P x) (a_delete k its) = filter (\<lambda>x. \<not> P x) its"
    and "total_size (filter P its) = isize i + total_size (filter P (a_delete k its))"
    and "length (a_delete k its) < length its"
  using assms
proof (induction its)
  case (Cons j its)
  case 1
  with Cons show ?case
    by (cases "ikey j = k") (auto simp: keys_distinct_Cons a_delete_absent a_delete_Cons)
next
  case (Cons j its)
  case 2
  with Cons show ?case
    by (cases "ikey j = k") (auto simp: keys_distinct_Cons a_delete_absent a_delete_Cons)
next
  case (Cons j its)
  case 3
  with Cons show ?case
    by (cases "ikey j = k") (auto simp: keys_distinct_Cons a_delete_absent a_delete_Cons)
qed simp_all

text \<open>The test that the handlers and the background expiry make on the hard expiry.\<close>

definition hard_expired :: "int \<Rightarrow> item \<Rightarrow> bool" where
  "hard_expired now i \<longleftrightarrow> 0 < ihard i \<and> ihard i \<le> now"

section \<open>The index as an interface\<close>

text \<open>
  What the worker relies on: an index that implements the item list, with pointers to the
  stored entries. The lemmas inside are the steps of the worker's eviction and expiry loops.
\<close>

locale recency_index =
  fixes inv :: "'i \<Rightarrow> bool"
    and contents :: "'i \<Rightarrow> item list"
    and ent :: "'i \<Rightarrow> 'r \<Rightarrow> item"
    and get :: "'i \<Rightarrow> string \<Rightarrow> 'r option"
    and del :: "'i \<Rightarrow> string \<Rightarrow> 'r option \<times> 'i"
    and touch :: "'i \<Rightarrow> string \<Rightarrow> 'i"
    and oldest :: "'i \<Rightarrow> 'r option"
    and count :: "'i \<Rightarrow> nat"
    and peek :: "'i \<Rightarrow> (string \<times> int) option"
  assumes distinct: "inv x \<Longrightarrow> keys_distinct (contents x)"
    and get_contents: "inv x \<Longrightarrow> map_option (ent x) (get x k) = a_find k (contents x)"
    and del_inv: "inv x \<Longrightarrow> inv (snd (del x k))"
    and del_contents: "inv x \<Longrightarrow> contents (snd (del x k)) = a_delete k (contents x)"
    and del_get: "inv x \<Longrightarrow> fst (del x k) = get x k"
    and del_ent: "inv x \<Longrightarrow> ent (snd (del x k)) r = ent x r"
    and touch_inv: "inv x \<Longrightarrow> inv (touch x k)"
    and touch_contents: "inv x \<Longrightarrow> contents (touch x k) = a_touch k (contents x)"
    and oldest_contents: "inv x \<Longrightarrow>
      map_option (ent x) (oldest x) = (case contents x of [] \<Rightarrow> None | i # _ \<Rightarrow> Some i)"
    and count_contents: "inv x \<Longrightarrow> count x = length (contents x)"
    and peek_none: "inv x \<Longrightarrow> peek x = None \<longleftrightarrow> (\<forall>i \<in> set (contents x). ihard i \<le> 0)"
    and peek_some: "inv x \<Longrightarrow> peek x = Some (k, e) \<Longrightarrow>
      \<exists>i. a_find k (contents x) = Some i \<and> ihard i = e \<and> 0 < e"
    and peek_min: "inv x \<Longrightarrow> peek x = Some (k, e) \<Longrightarrow> i \<in> set (contents x) \<Longrightarrow> 0 < ihard i \<Longrightarrow>
      e \<le> ihard i"
begin

lemma get_None: "inv x \<Longrightarrow> get x k = None \<longleftrightarrow> a_find k (contents x) = None"
  using get_contents[of x k] by (metis option.map_disc_iff)

lemma get_Some: "inv x \<Longrightarrow> get x k = Some r \<Longrightarrow> a_find k (contents x) = Some (ent x r)"
  using get_contents[of x k] by simp

lemma evict_stop: "inv x \<Longrightarrow> oldest x = None \<longleftrightarrow> contents x = []"
  using oldest_contents[of x] by (auto split: list.splits)

lemma evict_step:
  assumes "inv x" and "oldest x = Some r"
  shows "contents x = ent x r # contents (snd (del x (ikey (ent x r))))"
proof -
  obtain its where c: "contents x = ent x r # its"
    using oldest_contents[OF assms(1)] assms(2) by (auto split: list.splits)
  with distinct[OF assms(1)] have "a_delete (ikey (ent x r)) (contents x) = its"
    by (metis a_delete_hd)
  with c assms(1) show ?thesis by (simp add: del_contents)
qed

lemma expire_stop:
  assumes "inv x"
  shows "(case peek x of None \<Rightarrow> True | Some (k, e) \<Rightarrow> now < e) \<longleftrightarrow>
    (\<forall>i \<in> set (contents x). \<not> hard_expired now i)"
proof (cases "peek x")
  case None
  then show ?thesis using peek_none[OF assms] by (auto simp: hard_expired_def)
next
  case (Some ke)
  obtain k e where ke: "ke = (k, e)" by (cases ke)
  from peek_some[OF assms Some[unfolded ke]] obtain i
    where "i \<in> set (contents x)" "ihard i = e" "0 < e" by (auto dest: a_find_in)
  then show ?thesis
    using peek_min[OF assms Some[unfolded ke]] Some ke by (force simp: hard_expired_def)
qed

lemma expire_step:
  assumes "inv x" and "peek x = Some (k, e)" and "e \<le> now"
  obtains r where "fst (del x k) = Some r" "ent x r \<in> set (contents x)"
    "hard_expired now (ent x r)" "ikey (ent x r) = k" "a_find k (contents x) = Some (ent x r)"
proof -
  from peek_some[OF assms(1,2)] obtain i
    where i: "a_find k (contents x) = Some i" "ihard i = e" "0 < e" by auto
  then obtain r where "get x k = Some r" "ent x r = i"
    using get_contents[OF assms(1), of k] by auto
  with i assms show thesis
    by (intro that[of r]) (auto simp: del_get hard_expired_def dest: a_find_in a_find_ikey)
qed

end

end
