(* ===== verification/Index.thy ===== *)
theory Index
  imports ExpiryHeap GoList ItemList
begin

text \<open>
  The index of one shard, \<open>Index\<close> of \<^verbatim>\<open>pkg/tqmemory/index.go\<close>: a map from keys to entry
  pointers, the expiry heap and the LRU list. Entries are shared: the map, the LRU list and
  the request handlers hold pointers to the same \<open>IndexEntry\<close>, and the handlers assign to its
  fields. The model keeps the entry objects in an explicit store, a list indexed by pointers
  (\<open>nat\<close>), allocated in order and never reclaimed (a collected object is one that nothing
  points to). The main result is that a well-formed index implements the recency-ordered item
  list of \<^theory_text>\<open>ItemList\<close>, each operation being the list's operation.
\<close>

section \<open>State\<close>

record IndexEntry =
  Key :: string
  Value :: bytes
  SoftExpiry :: int
  HardExpiry :: int
  Cas :: uint64
  Refreshing :: bool
  lruElem :: "nat option"

type_synonym eref = nat

record Index =
  objs :: "IndexEntry list"
  data :: "(string, eref) mapping"
  expiryHeap :: ExpiryHeap
  lruList :: "eref golist"

text \<open>Reading and assigning through a pointer, and \<open>&IndexEntry{...}\<close>.\<close>

definition deref :: "Index \<Rightarrow> eref \<Rightarrow> IndexEntry" where
  "deref idx r = objs idx ! r"

definition assign :: "Index \<Rightarrow> eref \<Rightarrow> (IndexEntry \<Rightarrow> IndexEntry) \<Rightarrow> Index" where
  "assign idx r f = idx\<lparr>objs := (objs idx)[r := f (objs idx ! r)]\<rparr>"

definition alloc :: "Index \<Rightarrow> IndexEntry \<Rightarrow> eref \<times> Index" where
  "alloc idx e = (length (objs idx), idx\<lparr>objs := objs idx @ [e]\<rparr>)"

section \<open>Operations\<close>

definition NewIndex :: Index where
  "NewIndex = \<lparr>objs = [], data = Mapping.empty, expiryHeap = NewExpiryHeap, lruList = list_New\<rparr>"

definition Index_Get :: "Index \<Rightarrow> string \<Rightarrow> eref option" where
  "Index_Get idx key = Mapping.lookup (data idx) key"

definition Index_Set :: "Index \<Rightarrow> eref \<Rightarrow> Index" where
  "Index_Set idx r =
    (let entry = deref idx r;
         old = Mapping.lookup (data idx) (Key entry);
         idx = idx\<lparr>data := Mapping.update (Key entry) r (data idx)\<rparr>;
         idx = (if HardExpiry entry > 0
           then idx\<lparr>expiryHeap := heap_Insert (expiryHeap idx) (Key entry) (HardExpiry entry)\<rparr>
           else idx\<lparr>expiryHeap := heap_RemoveKey (expiryHeap idx) (Key entry)\<rparr>)
     in case Option.bind old (\<lambda>ro. lruElem (deref idx ro)) of
          Some el \<Rightarrow>
            (let idx = idx\<lparr>lruList := list_SetValue (lruList idx) el r\<rparr>;
                 idx = assign idx r (\<lambda>e. e\<lparr>lruElem := Some el\<rparr>)
             in idx\<lparr>lruList := list_MoveToBack (lruList idx) el\<rparr>)
        | None \<Rightarrow>
            (case list_PushBack (lruList idx) r of (el, l) \<Rightarrow>
              assign (idx\<lparr>lruList := l\<rparr>) r (\<lambda>e. e\<lparr>lruElem := Some el\<rparr>)))"

definition Index_Delete :: "Index \<Rightarrow> string \<Rightarrow> eref option \<times> Index" where
  "Index_Delete idx key =
    (case Mapping.lookup (data idx) key of
      None \<Rightarrow> (None, idx)
    | Some r \<Rightarrow>
        (let idx = idx\<lparr>data := Mapping.delete key (data idx)\<rparr>;
             idx = idx\<lparr>expiryHeap := heap_RemoveKey (expiryHeap idx) key\<rparr>
         in case lruElem (deref idx r) of
              Some el \<Rightarrow> (Some r, assign (idx\<lparr>lruList := list_Remove (lruList idx) el\<rparr>) r
                           (\<lambda>e. e\<lparr>lruElem := None\<rparr>))
            | None \<Rightarrow> (Some r, idx)))"

definition Index_Touch :: "Index \<Rightarrow> string \<Rightarrow> Index" where
  "Index_Touch idx key =
    (case Option.bind (Mapping.lookup (data idx) key) (\<lambda>r. lruElem (deref idx r)) of
      Some el \<Rightarrow> idx\<lparr>lruList := list_MoveToBack (lruList idx) el\<rparr>
    | None \<Rightarrow> idx)"

definition Index_GetOldest :: "Index \<Rightarrow> eref option" where
  "Index_GetOldest idx = map_option snd (list_Front (lruList idx))"

definition Index_Count :: "Index \<Rightarrow> nat" where
  "Index_Count idx = Mapping.size (data idx)"

section \<open>Abstraction and invariant\<close>

definition abs_item :: "IndexEntry \<Rightarrow> item" where
  "abs_item e = \<lparr>ikey = Key e, ival = Value e, isoft = SoftExpiry e, ihard = HardExpiry e,
     icas = Cas e, irefresh = Refreshing e\<rparr>"

definition items :: "Index \<Rightarrow> item list" where
  "items idx = map (\<lambda>x. abs_item (objs idx ! snd x)) (elems (lruList idx))"

text \<open>
  The map and the LRU list agree: every list element points to an allocated entry that points
  back to it and that the map has under its key, and every mapped entry is in the list.
\<close>

definition idx_struct :: "Index \<Rightarrow> bool" where
  "idx_struct idx \<longleftrightarrow> list_ok (lruList idx) \<and> finite (Mapping.keys (data idx)) \<and>
    (\<forall>(el, r) \<in> set (elems (lruList idx)). r < length (objs idx) \<and>
       lruElem (objs idx ! r) = Some el \<and> Mapping.lookup (data idx) (Key (objs idx ! r)) = Some r) \<and>
    (\<forall>k r. Mapping.lookup (data idx) k = Some r \<longrightarrow>
       Key (objs idx ! r) = k \<and> (\<exists>el. (el, r) \<in> set (elems (lruList idx))))"

text \<open>The expiry heap holds exactly the hard expiries of the items, but perhaps for one key.\<close>

definition heap_agrees :: "Index \<Rightarrow> string set \<Rightarrow> bool" where
  "heap_agrees idx K \<longleftrightarrow> heap_inv (expiryHeap idx) \<and>
    (\<forall>k. k \<notin> K \<longrightarrow> heap_lookup (expiryHeap idx) k = a_expiry (items idx) k)"

definition idx_inv :: "Index \<Rightarrow> bool" where
  "idx_inv idx \<longleftrightarrow> idx_struct idx \<and> heap_agrees idx {}"

lemma abs_item_simps [simp]:
  "ikey (abs_item e) = Key e" "ival (abs_item e) = Value e" "isoft (abs_item e) = SoftExpiry e"
  "ihard (abs_item e) = HardExpiry e" "icas (abs_item e) = Cas e"
  "irefresh (abs_item e) = Refreshing e"
  by (simp_all add: abs_item_def)

lemma abs_item_lruElem [simp]: "abs_item (e\<lparr>lruElem := x\<rparr>) = abs_item e"
  by (simp add: abs_item_def)

lemma idx_structD1:
  "idx_struct idx \<Longrightarrow> (el, r) \<in> set (elems (lruList idx)) \<Longrightarrow>
   r < length (objs idx) \<and> lruElem (objs idx ! r) = Some el \<and>
   Mapping.lookup (data idx) (Key (objs idx ! r)) = Some r"
  by (auto simp: idx_struct_def)

lemma idx_structD2:
  assumes "idx_struct idx" and "Mapping.lookup (data idx) k = Some r"
  obtains el where "(el, r) \<in> set (elems (lruList idx))" "Key (objs idx ! r) = k"
    "r < length (objs idx)" "lruElem (objs idx ! r) = Some el"
proof -
  obtain el where "(el, r) \<in> set (elems (lruList idx))" "Key (objs idx ! r) = k"
    using assms unfolding idx_struct_def by blast
  with idx_structD1[OF assms(1) this(1)] that show thesis by blast
qed

lemma lru_elem_key:
  assumes "idx_struct idx" and "(el, r) \<in> set (elems (lruList idx))"
    and "(el', r') \<in> set (elems (lruList idx))"
  shows "el' = el \<longleftrightarrow> Key (objs idx ! r') = Key (objs idx ! r)"
proof
  assume "el' = el"
  moreover have "list_ok (lruList idx)" using assms(1) by (simp add: idx_struct_def)
  ultimately show "Key (objs idx ! r') = Key (objs idx ! r)"
    using assms list_ok_elem_inj by metis
next
  assume "Key (objs idx ! r') = Key (objs idx ! r)"
  then have "r' = r" using idx_structD1[OF assms(1,2)] idx_structD1[OF assms(1,3)] by simp
  then show "el' = el" using idx_structD1[OF assms(1,2)] idx_structD1[OF assms(1,3)] by simp
qed

lemma keys_distinct_items: "idx_struct idx \<Longrightarrow> keys_distinct (items idx)"
proof -
  assume s: "idx_struct idx"
  have "distinct (elems (lruList idx))"
    using s by (auto simp: idx_struct_def list_ok_def distinct_map)
  moreover have "inj_on (\<lambda>x. Key (objs idx ! snd x)) (set (elems (lruList idx)))"
  proof (rule inj_onI)
    fix x y assume x: "x \<in> set (elems (lruList idx))" and y: "y \<in> set (elems (lruList idx))"
      and eq: "Key (objs idx ! snd x) = Key (objs idx ! snd y)"
    obtain el r el' r' where xy: "x = (el, r)" "y = (el', r')" by (cases x, cases y)
    have a: "lruElem (objs idx ! r) = Some el" "Mapping.lookup (data idx) (Key (objs idx ! r)) = Some r"
      using idx_structD1[OF s] x xy by blast+
    have b: "lruElem (objs idx ! r') = Some el'" "Mapping.lookup (data idx) (Key (objs idx ! r')) = Some r'"
      using idx_structD1[OF s] y xy by blast+
    from eq have "Key (objs idx ! r) = Key (objs idx ! r')" by (simp add: xy)
    with a(2) b(2) have "r = r'" by (metis option.inject)
    with a(1) b(1) xy show "x = y" by simp
  qed
  ultimately show "keys_distinct (items idx)"
    by (simp add: keys_distinct_def items_def distinct_map comp_def)
qed

lemma find_items:
  assumes s: "idx_struct idx"
  shows "a_find k (items idx) = map_option (\<lambda>r. abs_item (objs idx ! r)) (Mapping.lookup (data idx) k)"
proof (cases "Mapping.lookup (data idx) k")
  case None
  then have "k \<notin> ikey ` set (items idx)"
    using idx_structD1[OF s] by (force simp: items_def)
  with None show ?thesis by (simp add: a_find_None_iff)
next
  case (Some r)
  then obtain el where "(el, r) \<in> set (elems (lruList idx))" "Key (objs idx ! r) = k"
    using idx_structD2[OF s] by metis
  then have "abs_item (objs idx ! r) \<in> set (items idx)" by (force simp: items_def)
  with \<open>Key _ = k\<close> Some show ?thesis
    by (simp add: a_find_Some_iff[OF keys_distinct_items[OF s]])
qed

text \<open>The elements other than the one of a key, as the list operations and as the items see them.\<close>

lemma filter_elem_key:
  assumes "idx_struct idx" and "(el, r) \<in> set (elems (lruList idx))"
  shows "filter (\<lambda>x. fst x \<noteq> el) (elems (lruList idx)) =
    filter (\<lambda>x. Key (objs idx ! snd x) \<noteq> Key (objs idx ! r)) (elems (lruList idx))"
proof (rule filter_cong[OF refl])
  fix x assume "x \<in> set (elems (lruList idx))"
  then show "fst x \<noteq> el \<longleftrightarrow> Key (objs idx ! snd x) \<noteq> Key (objs idx ! r)"
    using lru_elem_key[OF assms, of "fst x" "snd x"] by simp
qed

lemma a_delete_items:
  "a_delete k (items idx) = map (\<lambda>x. abs_item (objs idx ! snd x))
    (filter (\<lambda>x. Key (objs idx ! snd x) \<noteq> k) (elems (lruList idx)))"
  by (simp add: a_delete_def items_def filter_map comp_def)

section \<open>The operations refine the item list\<close>

text \<open>
  Putting an entry at the back: the common core of \<open>Set\<close> on a new key, \<open>Set\<close> on a present
  key and \<open>Touch\<close>.
\<close>

lemma elem_other_key:
  assumes "idx_struct idx" and "Key (objs idx ! r) = k"
    and "(el', r') \<in> set (elems (lruList idx))" and "Key (objs idx ! r') \<noteq> k"
  shows "r' \<noteq> r \<and> r' < length (objs idx) \<and> lruElem (objs idx ! r') = Some el' \<and>
    Mapping.lookup (data idx) (Key (objs idx ! r')) = Some r' \<and> Key (objs idx ! r') \<noteq> k"
  using idx_structD1[OF assms(1,3)] assms(2,4) by auto

lemma struct_put_back:
  assumes s: "idx_struct idx" and r: "r < length (objs idx)" and k: "k = Key (objs idx ! r)"
    and E: "elems l = filter (\<lambda>x. Key (objs idx ! snd x) \<noteq> k) (elems (lruList idx)) @ [(el, r)]"
    and l: "list_ok l"
    and idx': "objs idx' = (objs idx)[r := (objs idx ! r)\<lparr>lruElem := Some el\<rparr>]"
      "data idx' = Mapping.update k r (data idx)" "lruList idx' = l"
  shows "idx_struct idx'" and "items idx' = a_set (abs_item (objs idx ! r)) (items idx)"
proof -
  note old = elem_other_key[OF s k[symmetric]]
  have objs: "objs idx' ! r' = (if r' = r then (objs idx ! r)\<lparr>lruElem := Some el\<rparr> else objs idx ! r')" for r'
    using r by (simp add: idx')
  have len: "length (objs idx') = length (objs idx)" by (simp add: idx')
  have elems: "set (elems (lruList idx')) =
      insert (el, r) {x \<in> set (elems (lruList idx)). Key (objs idx ! snd x) \<noteq> k}"
    by (auto simp: idx' E)
  show "idx_struct idx'"
    unfolding idx_struct_def
  proof (intro conjI allI impI)
    show "list_ok (lruList idx')" using l by (simp add: idx')
    show "finite (Mapping.keys (data idx'))" using s by (simp add: idx' idx_struct_def)
    show "\<forall>(el, r) \<in> set (elems (lruList idx')). r < length (objs idx') \<and>
       lruElem (objs idx' ! r) = Some el \<and> Mapping.lookup (data idx') (Key (objs idx' ! r)) = Some r"
      unfolding elems using old r k len by (auto simp: objs idx'(2) lookup_update')
  next
    fix k' r' assume lk: "Mapping.lookup (data idx') k' = Some r'"
    have "Key (objs idx' ! r') = k' \<and> (\<exists>el. (el, r') \<in> set (elems (lruList idx')))"
    proof (cases "k' = k")
      case True
      with lk k show ?thesis by (auto simp: objs elems idx'(2))
    next
      case False
      with lk have "Mapping.lookup (data idx) k' = Some r'" by (simp add: idx'(2))
      with False old show ?thesis
        by (elim idx_structD2[OF s]) (auto simp: objs elems)
    qed
    then show "Key (objs idx' ! r') = k'" "\<exists>el. (el, r') \<in> set (elems (lruList idx'))" by auto
  qed
  have "map (\<lambda>x. abs_item (objs idx' ! snd x))
      (filter (\<lambda>x. Key (objs idx ! snd x) \<noteq> k) (elems (lruList idx))) = a_delete k (items idx)"
    unfolding a_delete_items using old by (auto simp: objs)
  then show "items idx' = a_set (abs_item (objs idx ! r)) (items idx)"
    by (simp add: items_def[of idx'] idx'(3) E a_set_def objs k)
qed

lemma idx_Set:
  assumes s: "idx_struct idx" and r: "r < length (objs idx)"
    and h: "heap_agrees idx {Key (objs idx ! r)}"
  shows "idx_inv (Index_Set idx r)"
    and "items (Index_Set idx r) = a_set (abs_item (objs idx ! r)) (items idx)"
    and "objs (Index_Set idx r) = (objs idx)[r := (objs idx ! r)\<lparr>lruElem := lruElem (objs (Index_Set idx r) ! r)\<rparr>]"
proof -
  let ?k = "Key (objs idx ! r)" and ?i = "Index_Set idx r"
  have lok: "list_ok (lruList idx)" using s by (simp add: idx_struct_def)
  obtain el l where E: "elems l = filter (\<lambda>x. Key (objs idx ! snd x) \<noteq> ?k) (elems (lruList idx)) @ [(el, r)]"
    and l: "list_ok l" and o: "objs ?i = (objs idx)[r := (objs idx ! r)\<lparr>lruElem := Some el\<rparr>]"
    and d: "data ?i = Mapping.update ?k r (data idx)" and ll: "lruList ?i = l"
    and hp: "expiryHeap ?i = (if HardExpiry (objs idx ! r) > 0
      then heap_Insert (expiryHeap idx) ?k (HardExpiry (objs idx ! r))
      else heap_RemoveKey (expiryHeap idx) ?k)"
  proof (cases "Mapping.lookup (data idx) ?k")
    case None
    then have "filter (\<lambda>x. Key (objs idx ! snd x) \<noteq> ?k) (elems (lruList idx)) = elems (lruList idx)"
      using idx_structD1[OF s] by (fastforce simp: filter_id_conv)
    with None ll.push_inv[OF lok] ll.push_seq[of "lruList idx" r] show thesis
      by (intro that[of "snd (list_PushBack (lruList idx) r)" "fst (list_PushBack (lruList idx) r)"])
        (auto simp: Index_Set_def Let_def deref_def assign_def split: prod.splits)
  next
    case (Some ro)
    then obtain el where el: "(el, ro) \<in> set (elems (lruList idx))" "Key (objs idx ! ro) = ?k"
      "lruElem (objs idx ! ro) = Some el" by (elim idx_structD2[OF s])
    with Some ll.set_move_inv[OF lok] ll.set_move_seq[OF lok el(1), of r] filter_elem_key[OF s el(1)]
    show thesis
      by (intro that[of "list_MoveToBack (list_SetValue (lruList idx) el r) el" el])
        (auto simp: Index_Set_def Let_def deref_def assign_def)
  qed
  show "objs ?i = (objs idx)[r := (objs idx ! r)\<lparr>lruElem := lruElem (objs ?i ! r)\<rparr>]"
    using r by (simp add: o)
  note p = struct_put_back[OF s r refl E l o d ll]
  show it: "items ?i = a_set (abs_item (objs idx ! r)) (items idx)" by (rule p)
  have "heap_inv (expiryHeap idx)" and "\<And>k. k \<noteq> ?k \<Longrightarrow> heap_lookup (expiryHeap idx) k = a_expiry (items idx) k"
    using h by (simp_all add: heap_agrees_def)
  then have "heap_agrees ?i {}"
    by (auto simp: heap_agrees_def it hp a_expiry_set eq.inv_insert eq.look_insert
        eq.inv_remove eq.look_remove)
  with p(1) show "idx_inv ?i" by (simp add: idx_inv_def)
qed

lemma idx_Touch:
  assumes s: "idx_struct idx"
  shows "idx_struct (Index_Touch idx k)" and "items (Index_Touch idx k) = a_touch k (items idx)"
    and "objs (Index_Touch idx k) = objs idx" and "expiryHeap (Index_Touch idx k) = expiryHeap idx"
    and "data (Index_Touch idx k) = data idx"
proof -
  show "objs (Index_Touch idx k) = objs idx" "expiryHeap (Index_Touch idx k) = expiryHeap idx"
    "data (Index_Touch idx k) = data idx"
    by (auto simp: Index_Touch_def split: option.splits)
  have lok: "list_ok (lruList idx)" using s by (simp add: idx_struct_def)
  have "idx_struct (Index_Touch idx k) \<and> items (Index_Touch idx k) = a_touch k (items idx)"
  proof (cases "Mapping.lookup (data idx) k")
    case None
    then show ?thesis using s by (simp add: Index_Touch_def a_touch_def find_items)
  next
    case (Some r)
    then obtain el where el: "(el, r) \<in> set (elems (lruList idx))" "Key (objs idx ! r) = k"
      "r < length (objs idx)" "lruElem (objs idx ! r) = Some el" by (elim idx_structD2[OF s])
    let ?l = "list_MoveToBack (lruList idx) el"
    have t: "Index_Touch idx k = idx\<lparr>lruList := ?l\<rparr>" using Some el by (simp add: Index_Touch_def deref_def)
    have E: "elems ?l = filter (\<lambda>x. Key (objs idx ! snd x) \<noteq> k) (elems (lruList idx)) @ [(el, r)]"
      using ll.move_seq[OF lok el(1)] filter_elem_key[OF s el(1)] el(2) by simp
    have o: "objs (idx\<lparr>lruList := ?l\<rparr>) = (objs idx)[r := (objs idx ! r)\<lparr>lruElem := Some el\<rparr>]"
    proof -
      have "(objs idx ! r)\<lparr>lruElem := Some el\<rparr> = objs idx ! r"
        using el(4) by (cases "objs idx ! r") simp
      then show ?thesis by simp
    qed
    have d: "data (idx\<lparr>lruList := ?l\<rparr>) = Mapping.update k r (data idx)"
      using Some by (intro mapping_eqI) (auto simp: lookup_update')
    show ?thesis
      using struct_put_back[OF s el(3) el(2)[symmetric] E ll.move_inv[OF lok] o d]
      by (simp add: t a_touch_def find_items[OF s] Some)
  qed
  then show "idx_struct (Index_Touch idx k)" "items (Index_Touch idx k) = a_touch k (items idx)" by auto
qed

lemma struct_take_out:
  assumes s: "idx_struct idx" and r: "r < length (objs idx)" and k: "Key (objs idx ! r) = k"
    and E: "elems (lruList idx') = filter (\<lambda>x. Key (objs idx ! snd x) \<noteq> k) (elems (lruList idx))"
    and l: "list_ok (lruList idx')"
    and idx': "objs idx' = (objs idx)[r := (objs idx ! r)\<lparr>lruElem := None\<rparr>]"
      "data idx' = Mapping.delete k (data idx)"
  shows "idx_struct idx'" and "items idx' = a_delete k (items idx)"
    and "abs_item (objs idx' ! r') = abs_item (objs idx ! r')"
proof -
  note old = elem_other_key[OF s k]
  have objs: "objs idx' ! r' = (if r' = r then (objs idx ! r)\<lparr>lruElem := None\<rparr> else objs idx ! r')" for r'
    using r by (simp add: idx')
  have len: "length (objs idx') = length (objs idx)" by (simp add: idx')
  have abs: "abs_item (objs idx' ! r') = abs_item (objs idx ! r')" for r' by (simp add: objs)
  show "abs_item (objs idx' ! r') = abs_item (objs idx ! r')" by (rule abs)
  show "items idx' = a_delete k (items idx)"
    unfolding a_delete_items by (simp add: items_def E abs)
  show "idx_struct idx'"
    unfolding idx_struct_def
  proof (intro conjI allI impI)
    show "list_ok (lruList idx')" by (rule l)
    show "finite (Mapping.keys (data idx'))" using s by (simp add: idx' idx_struct_def)
    show "\<forall>(el, r) \<in> set (elems (lruList idx')). r < length (objs idx') \<and>
       lruElem (objs idx' ! r) = Some el \<and> Mapping.lookup (data idx') (Key (objs idx' ! r)) = Some r"
      unfolding E
    proof (clarify, goal_cases)
      case (1 el' r')
      then have "(el', r') \<in> set (elems (lruList idx))" "Key (objs idx ! r') \<noteq> k" by auto
      from old[OF this] show ?case by (auto simp: objs idx'(2) lookup_delete' len)
    qed
  next
    fix k' r' assume "Mapping.lookup (data idx') k' = Some r'"
    then have "k' \<noteq> k" "Mapping.lookup (data idx) k' = Some r'"
      by (auto simp: idx'(2) lookup_delete' split: if_splits)
    then have "Key (objs idx' ! r') = k' \<and> (\<exists>el. (el, r') \<in> set (elems (lruList idx')))"
      using old unfolding E by (elim idx_structD2[OF s]) (auto simp: objs)
    then show "Key (objs idx' ! r') = k'" "\<exists>el. (el, r') \<in> set (elems (lruList idx'))" by auto
  qed
qed

lemma idx_Delete:
  assumes inv: "idx_inv idx"
  shows "idx_inv (snd (Index_Delete idx k))"
    and "items (snd (Index_Delete idx k)) = a_delete k (items idx)"
    and "fst (Index_Delete idx k) = Mapping.lookup (data idx) k"
    and "length (objs (snd (Index_Delete idx k))) = length (objs idx)"
    and "abs_item (objs (snd (Index_Delete idx k)) ! r) = abs_item (objs idx ! r)"
proof -
  have s: "idx_struct idx" and h: "heap_agrees idx {}" using inv by (simp_all add: idx_inv_def)
  have lok: "list_ok (lruList idx)" using s by (simp add: idx_struct_def)
  let ?i = "snd (Index_Delete idx k)"
  have "idx_inv ?i \<and> items ?i = a_delete k (items idx) \<and>
      fst (Index_Delete idx k) = Mapping.lookup (data idx) k \<and>
      length (objs ?i) = length (objs idx) \<and> abs_item (objs ?i ! r) = abs_item (objs idx ! r)"
  proof (cases "Mapping.lookup (data idx) k")
    case None
    then show ?thesis
      using inv by (simp add: Index_Delete_def a_delete_absent find_items[OF s])
  next
    case (Some ro)
    then obtain el where el: "(el, ro) \<in> set (elems (lruList idx))" "Key (objs idx ! ro) = k"
      "ro < length (objs idx)" "lruElem (objs idx ! ro) = Some el" by (elim idx_structD2[OF s])
    have ob: "objs ?i = (objs idx)[ro := (objs idx ! ro)\<lparr>lruElem := None\<rparr>]"
        "data ?i = Mapping.delete k (data idx)"
      and ll: "lruList ?i = list_Remove (lruList idx) el"
      and hp: "expiryHeap ?i = heap_RemoveKey (expiryHeap idx) k"
      and fs: "fst (Index_Delete idx k) = Some ro"
      using Some el by (simp_all add: Index_Delete_def Let_def deref_def assign_def)
    have E: "elems (lruList ?i) = filter (\<lambda>x. Key (objs idx ! snd x) \<noteq> k) (elems (lruList idx))"
      using filter_elem_key[OF s el(1)] el(2) by (simp add: ll ll.remove_seq)
    have l: "list_ok (lruList ?i)" using ll.remove_inv[OF lok] by (simp add: ll)
    note out = struct_take_out[OF s el(3,2) E l ob]
    have "heap_agrees ?i {}"
      using h by (simp add: heap_agrees_def out(2) hp a_expiry_delete eq.inv_remove eq.look_remove)
    with out show ?thesis by (simp add: idx_inv_def fs Some ob(1))
  qed
  then show "idx_inv ?i" "items ?i = a_delete k (items idx)"
    "fst (Index_Delete idx k) = Mapping.lookup (data idx) k"
    "length (objs ?i) = length (objs idx)" "abs_item (objs ?i ! r) = abs_item (objs idx ! r)"
    by blast+
qed

section \<open>Assigning to an entry and storing it\<close>

text \<open>An assignment that leaves the key and the list element alone keeps the structure.\<close>

lemma idx_struct_assign:
  assumes s: "idx_struct idx"
    and f: "\<And>e. Key (f e) = Key e" "\<And>e. lruElem (f e) = lruElem e"
  shows "idx_struct (assign idx r f)"
proof -
  have "Key (objs (assign idx r f) ! r') = Key (objs idx ! r')"
    "lruElem (objs (assign idx r f) ! r') = lruElem (objs idx ! r')" for r'
    using f by (cases "r' = r \<and> r < length (objs idx)"; auto simp: assign_def nth_list_update list_update_beyond)+
  then show ?thesis
    using s unfolding idx_struct_def by (simp add: assign_def)
qed

lemma nth_assign: "r < length (objs idx) \<Longrightarrow>
  objs (assign idx r f) ! r' = (if r' = r then f (objs idx ! r) else objs idx ! r')"
  by (simp add: assign_def nth_list_update)

lemma assign_fields [simp]:
  "data (assign idx r f) = data idx" "lruList (assign idx r f) = lruList idx"
  "expiryHeap (assign idx r f) = expiryHeap idx"
  "length (objs (assign idx r f)) = length (objs idx)"
  by (simp_all add: assign_def)

lemma a_delete_assign:
  assumes s: "idx_struct idx" and f: "\<And>e. Key (f e) = Key e"
    and r: "r < length (objs idx)"
  shows "a_delete (Key (objs idx ! r)) (items (assign idx r f)) = a_delete (Key (objs idx ! r)) (items idx)"
proof -
  have k: "Key (objs (assign idx r f) ! r') = Key (objs idx ! r')" for r'
    using f r by (simp add: nth_assign)
  show ?thesis
    unfolding a_delete_items k assign_fields
    using r by (auto simp: nth_assign)
qed

lemma idx_assign_Set:
  assumes inv: "idx_inv idx" and r: "r < length (objs idx)"
    and f: "\<And>e. Key (f e) = Key e" "\<And>e. lruElem (f e) = lruElem e"
  shows "idx_inv (Index_Set (assign idx r f) r)"
    and "items (Index_Set (assign idx r f) r) = a_set (abs_item (f (objs idx ! r))) (items idx)"
    and "abs_item (objs (Index_Set (assign idx r f) r) ! r) = abs_item (f (objs idx ! r))"
proof -
  let ?k = "Key (objs idx ! r)" and ?i = "assign idx r f"
  have s: "idx_struct idx" and h: "heap_agrees idx {}" using inv by (simp_all add: idx_inv_def)
  note s' = idx_struct_assign[OF s f, of r]
  have or: "objs ?i ! r = f (objs idx ! r)" using r by (simp add: nth_assign)
  note ad = a_delete_assign[OF s f(1) r]
  have "a_expiry (items ?i) k = a_expiry (items idx) k" if "k \<noteq> ?k" for k
    using that arg_cong[OF ad, of "\<lambda>its. a_expiry its k"] by (simp add: a_expiry_delete)
  then have "heap_agrees ?i {Key (objs ?i ! r)}"
    using h f by (simp add: heap_agrees_def or)
  note st = idx_Set[OF s' _ this]
  show "idx_inv (Index_Set ?i r)" using st(1) r by simp
  show "items (Index_Set ?i r) = a_set (abs_item (f (objs idx ! r))) (items idx)"
    using st(2) r ad f by (simp add: or a_set_def)
  have "objs (Index_Set ?i r) ! r = (objs ?i ! r)\<lparr>lruElem := lruElem (objs (Index_Set ?i r) ! r)\<rparr>"
    by (subst st(3)) (use r in simp_all)
  then have "abs_item (objs (Index_Set ?i r) ! r)
      = abs_item ((objs ?i ! r)\<lparr>lruElem := lruElem (objs (Index_Set ?i r) ! r)\<rparr>)"
    by (rule arg_cong)
  then show "abs_item (objs (Index_Set ?i r) ! r) = abs_item (f (objs idx ! r))"
    by (simp add: or)
qed

text \<open>Marking an entry, with its expiry left alone, and touching its key (\<open>handleGet\<close>).\<close>

lemma idx_assign_Touch:
  assumes inv: "idx_inv idx" and lk: "Index_Get idx k = Some r"
    and f: "\<And>e. Key (f e) = Key e" "\<And>e. lruElem (f e) = lruElem e"
      "\<And>e. HardExpiry (f e) = HardExpiry e"
  shows "idx_inv (Index_Touch (assign idx r f) k)"
    and "items (Index_Touch (assign idx r f) k) = a_set (abs_item (f (objs idx ! r))) (items idx)"
proof -
  let ?i = "assign idx r f"
  have s: "idx_struct idx" and h: "heap_agrees idx {}" using inv by (simp_all add: idx_inv_def)
  note s' = idx_struct_assign[OF s f(1,2), of r]
  have d: "Mapping.lookup (data idx) k = Some r" using lk by (simp add: Index_Get_def)
  then have r: "r < length (objs idx)" and k: "Key (objs idx ! r) = k"
    by (auto elim: idx_structD2[OF s])
  have fi: "a_find k (items ?i) = Some (abs_item (f (objs idx ! r)))"
    using d r by (simp add: find_items[OF s'] nth_assign)
  have ad: "a_delete k (items ?i) = a_delete k (items idx)"
    using a_delete_assign[OF s f(1) r] k by simp
  show it: "items (Index_Touch ?i k) = a_set (abs_item (f (objs idx ! r))) (items idx)"
    using fi ad f(1) k by (simp add: idx_Touch(2)[OF s'] a_touch_def a_set_def)
  have "a_find k (items idx) = Some (abs_item (objs idx ! r))"
    using d by (simp add: find_items[OF s])
  then have "a_expiry (a_set (abs_item (f (objs idx ! r))) (items idx)) = a_expiry (items idx)"
    using f k by (intro ext) (auto simp: a_expiry_def)
  then show "idx_inv (Index_Touch ?i k)"
    using idx_Touch(1)[OF s', of k] idx_Touch(4)[OF s', of k] h
    by (simp add: idx_inv_def heap_agrees_def it)
qed

lemma idx_Touch_inv: "idx_inv idx \<Longrightarrow> idx_inv (Index_Touch idx k)"
  by (simp add: idx_inv_def idx_Touch heap_agrees_def)

lemma idx_alloc:
  assumes inv: "idx_inv idx"
  shows "idx_inv (snd (alloc idx e))" and "items (snd (alloc idx e)) = items idx"
    and "fst (alloc idx e) < length (objs (snd (alloc idx e)))"
    and "objs (snd (alloc idx e)) ! fst (alloc idx e) = e"
proof -
  let ?i = "snd (alloc idx e)"
  have s: "idx_struct idx" and h: "heap_agrees idx {}" using inv by (simp_all add: idx_inv_def)
  have o: "objs ?i = objs idx @ [e]" and same: "data ?i = data idx" "lruList ?i = lruList idx"
    "expiryHeap ?i = expiryHeap idx" by (simp_all add: alloc_def)
  have old: "objs ?i ! r = objs idx ! r" if "(el, r) \<in> set (elems (lruList idx))" for el r
    using idx_structD1[OF s that] by (simp add: o nth_append)
  show it: "items ?i = items idx"
    using old by (auto simp: items_def same)
  have "idx_struct ?i"
    unfolding idx_struct_def same
  proof (intro conjI allI impI)
    show "list_ok (lruList idx)" "finite (Mapping.keys (data idx))"
      using s by (simp_all add: idx_struct_def)
    show "\<forall>(el, r) \<in> set (elems (lruList idx)). r < length (objs ?i) \<and>
        lruElem (objs ?i ! r) = Some el \<and> Mapping.lookup (data idx) (Key (objs ?i ! r)) = Some r"
      using idx_structD1[OF s] by (fastforce simp: o nth_append)
  next
    fix k r assume "Mapping.lookup (data idx) k = Some r"
    then show "Key (objs ?i ! r) = k" "\<exists>el. (el, r) \<in> set (elems (lruList idx))"
      using old by (auto elim!: idx_structD2[OF s])
  qed
  then show "idx_inv ?i" using h by (simp add: idx_inv_def heap_agrees_def it same)
  show "fst (alloc idx e) < length (objs ?i)" "objs ?i ! fst (alloc idx e) = e"
    by (simp_all add: alloc_def)
qed

lemma idx_inv_New: "idx_inv NewIndex"
  by (simp add: idx_inv_def idx_struct_def heap_agrees_def NewIndex_def items_def
      ll.inv_new ll.seq_new eq.inv_new eq.look_new)

lemma items_New: "items NewIndex = []"
  by (simp add: NewIndex_def items_def ll.seq_new)

lemma idx_Get:
  "idx_inv idx \<Longrightarrow> map_option (\<lambda>r. abs_item (objs idx ! r)) (Index_Get idx k) = a_find k (items idx)"
  by (simp add: Index_Get_def find_items idx_inv_def)

lemma idx_Get_bound: "idx_inv idx \<Longrightarrow> Index_Get idx k = Some r \<Longrightarrow> r < length (objs idx)"
  by (auto simp: Index_Get_def idx_inv_def elim: idx_structD2)

lemma idx_GetOldest:
  "map_option (\<lambda>r. abs_item (objs idx ! r)) (Index_GetOldest idx) =
   (case items idx of [] \<Rightarrow> None | i # _ \<Rightarrow> Some i)"
  by (auto simp: Index_GetOldest_def items_def ll.front_seq split: list.splits)

lemma idx_Count: "idx_inv idx \<Longrightarrow> Index_Count idx = length (items idx)"
proof -
  assume "idx_inv idx"
  then have s: "idx_struct idx" by (simp add: idx_inv_def)
  have "Mapping.keys (data idx) = ikey ` set (items idx)"
    using find_items[OF s] a_find_None_iff[of _ "items idx"]
    by (auto simp: in_keys_iff)
  then have "Mapping.size (data idx) = card (ikey ` set (items idx))"
    by (simp add: Mapping.size_def)
  also have "\<dots> = length (items idx)"
    using keys_distinct_items[OF s] by (metis keys_distinct_def distinct_card length_map set_map)
  finally show ?thesis by (simp add: Index_Count_def)
qed

lemma idx_Peek:
  assumes inv: "idx_inv idx"
  shows "PeekMin (expiryHeap idx) = None \<longleftrightarrow> (\<forall>i \<in> set (items idx). ihard i \<le> 0)"
    and "PeekMin (expiryHeap idx) = Some e \<Longrightarrow>
      \<exists>i. a_find (EKey e) (items idx) = Some i \<and> ihard i = Expiry e \<and> 0 < Expiry e"
    and "PeekMin (expiryHeap idx) = Some e \<Longrightarrow> i \<in> set (items idx) \<Longrightarrow> 0 < ihard i \<Longrightarrow>
      Expiry e \<le> ihard i"
proof -
  have h: "heap_inv (expiryHeap idx)" and l: "heap_lookup (expiryHeap idx) = a_expiry (items idx)"
    and kd: "keys_distinct (items idx)"
    using inv by (auto simp: idx_inv_def heap_agrees_def keys_distinct_items)
  have ex: "a_expiry (items idx) (ikey i) = (if 0 < ihard i then Some (ihard i) else None)"
    if "i \<in> set (items idx)" for i
    using that a_find_Some_iff[OF kd, of "ikey i" i] by (simp add: a_expiry_def)
  show "PeekMin (expiryHeap idx) = None \<longleftrightarrow> (\<forall>i \<in> set (items idx). ihard i \<le> 0)"
    unfolding PeekMin_None[OF h] l
  proof
    assume "a_expiry (items idx) = Map.empty"
    then show "\<forall>i \<in> set (items idx). ihard i \<le> 0" using ex by (fastforce split: if_splits)
  next
    assume "\<forall>i \<in> set (items idx). ihard i \<le> 0"
    then show "a_expiry (items idx) = Map.empty"
      by (intro ext) (force simp: a_expiry_def dest: a_find_in split: option.splits)
  qed
  {
    assume e: "PeekMin (expiryHeap idx) = Some e"
    show "\<exists>i. a_find (EKey e) (items idx) = Some i \<and> ihard i = Expiry e \<and> 0 < Expiry e"
      using PeekMin_Some(1)[OF h e] unfolding l by (auto simp: a_expiry_def split: option.splits if_splits)
    show "Expiry e \<le> ihard i" if "i \<in> set (items idx)" "0 < ihard i"
      using PeekMin_Some(2)[OF h e, of "ikey i" "ihard i"] ex that unfolding l by simp
  }
qed

section \<open>The index provides the interface\<close>

interpretation ix: recency_index idx_inv items "\<lambda>idx r. abs_item (deref idx r)" Index_Get Index_Delete
  Index_Touch Index_GetOldest Index_Count
  "\<lambda>idx. map_option (\<lambda>e. (EKey e, Expiry e)) (PeekMin (expiryHeap idx))"
proof
  show "keys_distinct (items x)" if "idx_inv x" for x
    using that by (simp add: keys_distinct_items idx_inv_def)
  show "fst (Index_Delete x k) = Index_Get x k" if "idx_inv x" for x k
    using that by (simp add: idx_Delete(3) Index_Get_def)
  show "items (Index_Touch x k) = a_touch k (items x)" if "idx_inv x" for x k
    using that by (simp add: idx_Touch(2) idx_inv_def)
  fix x k e
  assume inv: "idx_inv x" and p: "map_option (\<lambda>e. (EKey e, Expiry e)) (PeekMin (expiryHeap x)) = Some (k, e)"
  then obtain h where h: "PeekMin (expiryHeap x) = Some h" "k = EKey h" "e = Expiry h" by auto
  show "\<exists>i. a_find k (items x) = Some i \<and> ihard i = e \<and> 0 < e"
    using idx_Peek(2)[OF inv h(1)] h by simp
  show "e \<le> ihard i" if "i \<in> set (items x)" "0 < ihard i" for i
    using idx_Peek(3)[OF inv h(1) that] h by simp
qed (simp_all add: deref_def idx_Delete idx_Get idx_GetOldest idx_Count idx_Peek(1) idx_Touch_inv)

end
