(* ===== verification/IndexProps.thy ===== *)
theory IndexProps
  imports Index
begin

text \<open>
  The properties of the two data structures of a shard over whole sequences of operations:
  the expiry heap as a map with a minimum, and the index as the item list ordered by recency.
\<close>

section \<open>The expiry heap\<close>

fun heap_apply :: "queue_cmd \<Rightarrow> ExpiryHeap \<Rightarrow> ExpiryHeap" where
  "heap_apply (QInsert k x) h = heap_Insert h k x"
| "heap_apply (QRemove k) h = heap_RemoveKey h k"

lemma heap_apply_case:
  "heap_apply c q = (case c of QInsert k x \<Rightarrow> heap_Insert q k x | QRemove k \<Rightarrow> heap_RemoveKey q k)"
  by (cases c) simp_all

text \<open>
  C21. After any sequence of insertions and removals by key, each with its sifting up and down,
  the expiry heap holds exactly the latest expiry time of each key still present, its key
  index points to the right slots, and its first entry is a minimum.
\<close>

theorem expiry_heap_is_priority_map:
  "let h = fold heap_apply cs NewExpiryHeap; m = expiry_map cs Map.empty
   in heap_inv h \<and> (\<forall>k. heap_lookup h k = m k) \<and>
     (case PeekMin h of
        None \<Rightarrow> \<forall>k. m k = None
      | Some e \<Rightarrow> m (EKey e) = Some (Expiry e) \<and>
          (\<forall>k. case m k of None \<Rightarrow> True | Some x \<Rightarrow> Expiry e \<le> x))"
proof -
  let ?h = "fold heap_apply cs NewExpiryHeap"
  have *: "heap_inv ?h \<and> heap_lookup ?h = expiry_map cs Map.empty"
    using eq.run_commands[OF eq.inv_new, of cs]
    by (simp add: heap_apply_case[abs_def] eq.look_new)
  then show ?thesis
    using PeekMin_None[of ?h] PeekMin_Some[of ?h]
    by (auto simp: Let_def split: option.split)
qed

section \<open>The index\<close>

datatype index_cmd = ISet IndexEntry | IDelete string | ITouch string

fun index_apply :: "index_cmd \<Rightarrow> Index \<Rightarrow> Index" where
  "index_apply (ISet e) idx = (case alloc idx e of (r, idx) \<Rightarrow> Index_Set idx r)"
| "index_apply (IDelete k) idx = snd (Index_Delete idx k)"
| "index_apply (ITouch k) idx = Index_Touch idx k"

fun list_apply :: "index_cmd \<Rightarrow> item list \<Rightarrow> item list" where
  "list_apply (ISet e) its = a_set (abs_item e) its"
| "list_apply (IDelete k) its = a_delete k its"
| "list_apply (ITouch k) its = a_touch k its"

lemma index_apply_step:
  assumes inv: "idx_inv idx"
  shows "idx_inv (index_apply c idx) \<and> items (index_apply c idx) = list_apply c (items idx)"
proof (cases c)
  case (ISet e)
  obtain r i where al: "alloc idx e = (r, i)" by fastforce
  note a = idx_alloc[OF inv, of e, unfolded al, simplified]
  have "idx_struct i" "heap_agrees i {Key (objs i ! r)}" using a(1) by (simp_all add: idx_inv_def heap_agrees_def)
  from idx_Set[OF this(1) a(3) this(2)] show ?thesis using a ISet al by simp
next
  case (IDelete k)
  then show ?thesis using ix.del_inv[OF inv] ix.del_contents[OF inv] by simp
next
  case (ITouch k)
  then show ?thesis using ix.touch_inv[OF inv] ix.touch_contents[OF inv] by simp
qed

lemma index_apply_run:
  "idx_inv idx \<Longrightarrow> idx_inv (fold index_apply cs idx) \<and>
     items (fold index_apply cs idx) = fold list_apply cs (items idx)"
  by (induction cs arbitrary: idx) (simp_all add: index_apply_step)

text \<open>
  C20. After any sequence of sets, deletes and touches, the index, a hash map, a heap and a
  linked list that share their entries, answers every query as one list of items in order of
  last use does: lookup, the least recently used item, the number of items, and the item
  that expires first.
\<close>

theorem index_is_recency_list:
  "let idx = fold index_apply cs NewIndex; its = fold list_apply cs []
   in idx_inv idx \<and> keys_distinct its \<and>
     (\<forall>k. map_option (\<lambda>r. abs_item (deref idx r)) (Index_Get idx k) = a_find k its) \<and>
     map_option (\<lambda>r. abs_item (deref idx r)) (Index_GetOldest idx) = (case its of [] \<Rightarrow> None | i # _ \<Rightarrow> Some i) \<and>
     Index_Count idx = length its \<and>
     (case PeekMin (expiryHeap idx) of
        None \<Rightarrow> \<forall>i \<in> set its. ihard i \<le> 0
      | Some e \<Rightarrow> (\<exists>i \<in> set its. ikey i = EKey e \<and> ihard i = Expiry e) \<and>
          (\<forall>i \<in> set its. ihard i \<le> 0 \<or> Expiry e \<le> ihard i))"
proof -
  let ?i = "fold index_apply cs NewIndex"
  have inv: "idx_inv ?i" and its: "items ?i = fold list_apply cs []"
    using index_apply_run[OF idx_inv_New, of cs] by (simp_all add: items_New)
  have p: "case PeekMin (expiryHeap ?i) of
        None \<Rightarrow> \<forall>i \<in> set (items ?i). ihard i \<le> 0
      | Some e \<Rightarrow> (\<exists>i \<in> set (items ?i). ikey i = EKey e \<and> ihard i = Expiry e) \<and>
          (\<forall>i \<in> set (items ?i). ihard i \<le> 0 \<or> Expiry e \<le> ihard i)"
  proof (cases "PeekMin (expiryHeap ?i)")
    case None
    then show ?thesis using idx_Peek(1)[OF inv] by simp
  next
    case (Some e)
    have "\<exists>i \<in> set (items ?i). ikey i = EKey e \<and> ihard i = Expiry e"
      using idx_Peek(2)[OF inv Some] by (auto dest: a_find_in a_find_ikey)
    moreover have "\<forall>i \<in> set (items ?i). ihard i \<le> 0 \<or> Expiry e \<le> ihard i"
      using idx_Peek(3)[OF inv Some] by (metis not_le)
    ultimately show ?thesis using Some by simp
  qed
  show ?thesis
    using ix.distinct[OF inv] ix.get_contents[OF inv] ix.oldest_contents[OF inv]
      ix.count_contents[OF inv] inv p[unfolded its]
    by (simp add: its Let_def)
qed

definition sample_entry :: "string \<Rightarrow> int \<Rightarrow> IndexEntry" where
  "sample_entry k hard = \<lparr>Key = k, Value = ''v'', SoftExpiry = 0, HardExpiry = hard, Cas = 0,
     Refreshing = False, lruElem = None\<rparr>"

definition sample_cmds :: "index_cmd list" where
  "sample_cmds = [ISet (sample_entry ''a'' 30), ISet (sample_entry ''b'' 10), ITouch ''a'',
     ISet (sample_entry ''c'' 20), IDelete ''b'']"

theorem index_is_recency_list_witness:
  "Index_Count (fold index_apply sample_cmds NewIndex) = 2 \<and>
   map_option Expiry (PeekMin (expiryHeap (fold index_apply sample_cmds NewIndex))) = Some 20"
proof -
  have "Index_Count (fold index_apply sample_cmds NewIndex) = length (fold list_apply sample_cmds [])"
    using index_is_recency_list[of sample_cmds] by (simp add: Let_def)
  moreover have "length (fold list_apply sample_cmds []) = 2" by code_simp
  moreover have "map_option Expiry (PeekMin (expiryHeap (fold index_apply sample_cmds NewIndex))) = Some 20"
    by code_simp
  ultimately show ?thesis by simp
qed

end
