(* ===== verification/GoTime.thy ===== *)
theory GoTime
  imports Prelude
begin

text \<open>
  The parts of Go's \<^verbatim>\<open>time\<close> package and of its floating-point arithmetic that the expiry
  computations use. An instant is its distance from the Unix epoch in nanoseconds and a
  \<open>time.Duration\<close> is a number of nanoseconds (an int64, its range written out where the code
  can reach it).

  A \<open>float64\<close> is a sign-mantissa-exponent value \<open>m * 2 ^ e\<close>, an infinity or NaN. The code
  multiplies one by a duration and converts the product back to an integer; \<open>rne53\<close> rounds
  to 53 significant bits, ties to even, as the conversion from int64 and the product do. A
  product too small or too large for the exponent range is not treated apart: it truncates
  to zero, or is outside int64 either way. The result of converting a float64 outside the
  int64 range is implementation-defined in Go; it is the parameter \<open>oor\<close>.
\<close>

section \<open>Instants and durations\<close>

definition Nanosecond :: int where "Nanosecond = 1"
definition Millisecond :: int where "Millisecond = 1000000"
definition Second :: int where "Second = 1000000000"

definition UnixMilli :: "int \<Rightarrow> int" where
  "UnixMilli t = t div Millisecond"

definition Time_Add :: "int \<Rightarrow> int \<Rightarrow> int" where
  "Time_Add t d = t + d"

text \<open>
  \<open>time.Unix(sec, 0)\<close>: the seconds are stored as an int64 count from the year 1, so a very
  large argument wraps around.
\<close>

definition unixToInternal :: int where
  "unixToInternal = 62135596800"

definition Time_Unix :: "int \<Rightarrow> int" where
  "Time_Unix sec = (wrap64 (sec + unixToInternal) - unixToInternal) * Second"

text \<open>\<open>t.Sub(u)\<close> saturates at the ends of the duration range; \<open>time.Until(t)\<close> is \<open>t.Sub(now)\<close>.\<close>

definition Time_Sub :: "int \<Rightarrow> int \<Rightarrow> int" where
  "Time_Sub t u =
    (if in_int64 (t - u) then t - u else if t < u then - (2 ^ 63) else 2 ^ 63 - 1)"

definition Time_Until :: "int \<Rightarrow> int \<Rightarrow> int" where
  "Time_Until now t = Time_Sub t now"

section \<open>Floating point\<close>

datatype float64 = Finite int int | PosInf | NegInf | NaN

definition f64_positive :: "float64 \<Rightarrow> bool" where
  "f64_positive x = (case x of Finite m e \<Rightarrow> m > 0 | PosInf \<Rightarrow> True | _ \<Rightarrow> False)"

function bit_count :: "int \<Rightarrow> nat" where
  "bit_count z = (if z \<le> 0 then 0 else Suc (bit_count (z div 2)))"
  by auto

termination bit_count
  by (relation "measure nat") auto

declare bit_count.simps [simp del]

definition rne53 :: "int \<Rightarrow> int" where
  "rne53 z =
    (let a = \<bar>z\<bar>; s = bit_count a - 53; q = a div 2 ^ s; r = a mod 2 ^ s;
         up = s \<noteq> 0 \<and> (2 * r > 2 ^ s \<or> 2 * r = 2 ^ s \<and> odd q)
     in sgn z * ((if up then q + 1 else q) * 2 ^ s))"

definition f64_of_int :: "int \<Rightarrow> float64" where
  "f64_of_int z = Finite (rne53 z) 0"

text \<open>The product of a finite, non-zero float64 with any float64; the code has no other.\<close>

definition f64_mul :: "float64 \<Rightarrow> float64 \<Rightarrow> float64" where
  "f64_mul x y =
    (case (x, y) of
      (Finite m e, Finite m' e') \<Rightarrow> Finite (rne53 (m * m')) (e + e')
    | (NaN, _) \<Rightarrow> NaN
    | (_, NaN) \<Rightarrow> NaN
    | (Finite m _, i) \<Rightarrow> if m = 0 then NaN else if (0 < m) = f64_positive i then PosInf else NegInf
    | (i, Finite m _) \<Rightarrow> if m = 0 then NaN else if (0 < m) = f64_positive i then PosInf else NegInf
    | (i, j) \<Rightarrow> if f64_positive i = f64_positive j then PosInf else NegInf)"

definition trunc_pow2 :: "int \<Rightarrow> int \<Rightarrow> int" where
  "trunc_pow2 m e =
    (if e \<ge> 0 then m * 2 ^ nat e else sgn m * (\<bar>m\<bar> div 2 ^ nat (- e)))"

definition f64_to_int64 :: "int \<Rightarrow> float64 \<Rightarrow> int" where
  "f64_to_int64 oor x =
    (case x of Finite m e \<Rightarrow> if in_int64 (trunc_pow2 m e) then trunc_pow2 m e else oor | _ \<Rightarrow> oor)"

text \<open>
  \<open>float64(n) / float64(d)\<close> for \<open>0 \<le> n < d < 2 ^ 31\<close>: the quotient is cut to 91 fraction bits, with a
  last bit that says whether anything was cut off, and rounded once. \<open>Duration.Seconds\<close> adds the
  quotient of the nanoseconds to the whole seconds, with one more rounding.
\<close>

definition f64_fraction :: "int \<Rightarrow> int \<Rightarrow> int" where
  "f64_fraction n d =
    (let q = (n * 2 ^ 91) div d; r = (n * 2 ^ 91) mod d in rne53 (2 * q + (if r = 0 then 0 else 1)))"

definition Duration_Seconds :: "int \<Rightarrow> float64" where
  "Duration_Seconds d =
    (let sec = \<bar>d\<bar> div Second; nsec = \<bar>d\<bar> mod Second
     in Finite (sgn d * rne53 (sec * 2 ^ 92 + f64_fraction nsec Second)) (- 92))"

text \<open>\<open>time.Duration(float64(ttl) * staleMultiplier)\<close>.\<close>

definition scale_ttl :: "int \<Rightarrow> float64 \<Rightarrow> int \<Rightarrow> int" where
  "scale_ttl oor mult ttl = f64_to_int64 oor (f64_mul (f64_of_int ttl) mult)"

section \<open>Exactness on the durations the protocols produce\<close>

lemma bit_count_bound: "z < 2 ^ k \<Longrightarrow> bit_count z \<le> k"
proof (induction k arbitrary: z)
  case 0
  then show ?case by (simp add: bit_count.simps)
next
  case (Suc k)
  then have "z div 2 < 2 ^ k" by auto
  with Suc.IH show ?case by (subst bit_count.simps) simp
qed

lemma rne53_exact: "\<bar>z\<bar> < 2 ^ 53 \<Longrightarrow> rne53 z = z"
proof -
  assume "\<bar>z\<bar> < 2 ^ 53"
  then have "bit_count \<bar>z\<bar> - 53 = 0" using bit_count_bound by simp
  then show ?thesis by (simp add: rne53_def Let_def mult_sgn_abs)
qed

text \<open>With the default multiplier \<open>2.0\<close> the hard time to live is exactly twice the soft one.\<close>

definition two64 :: float64 where "two64 = Finite 1 1"

lemma f64_positive_two64: "f64_positive two64"
  by (simp add: f64_positive_def two64_def)

lemma scale_ttl_two: "\<bar>ttl\<bar> < 2 ^ 53 \<Longrightarrow> scale_ttl oor two64 ttl = 2 * ttl"
  by (auto simp: scale_ttl_def f64_of_int_def f64_mul_def two64_def rne53_exact f64_to_int64_def
      trunc_pow2_def in_int64_def)

lemma UnixMilli_mono: "s \<le> t \<Longrightarrow> UnixMilli s \<le> UnixMilli t"
  by (simp add: UnixMilli_def Millisecond_def zdiv_mono1)

end
