(* ===== verification/GoStrconv.thy ===== *)
theory GoStrconv
  imports Prelude
begin

text \<open>
  The functions of Go's \<^verbatim>\<open>strconv\<close> package that the server and the worker call, in base ten:
  \<open>ParseUint\<close>, \<open>ParseInt\<close>, \<open>Atoi\<close>, \<open>FormatUint\<close> and \<open>FormatInt\<close> (\<open>Itoa\<close>), with the package's
  two errors. The order of the checks is the package's: a bad character is a syntax error
  where it is met, and a value that leaves the range is a range error at that digit.
\<close>

datatype num_error = ErrSyntax | ErrRange

definition is_digit :: "char \<Rightarrow> bool" where
  "is_digit c \<longleftrightarrow> 48 \<le> (of_char c :: int) \<and> (of_char c :: int) \<le> 57"

definition digit_of :: "char \<Rightarrow> int" where
  "digit_of c = of_char c - 48"

definition digit_char :: "int \<Rightarrow> char" where
  "digit_char d = char_of (48 + d)"

fun parse_digits :: "int \<Rightarrow> int \<Rightarrow> string \<Rightarrow> num_error + int" where
  "parse_digits maxv n [] = Inr n"
| "parse_digits maxv n (c # cs) =
    (if \<not> is_digit c then Inl ErrSyntax
     else let n' = n * 10 + digit_of c
          in if n' > maxv then Inl ErrRange else parse_digits maxv n' cs)"

definition ParseUint :: "string \<Rightarrow> nat \<Rightarrow> num_error + int" where
  "ParseUint s bits = (if s = [] then Inl ErrSyntax else parse_digits (2 ^ bits - 1) 0 s)"

text \<open>
  \<open>ParseInt\<close> returns a value with its error: zero on a syntax error, the nearest bound on a
  range error. Some callers drop the error and use the value.
\<close>

definition ParseInt :: "string \<Rightarrow> int \<times> num_error option" where
  "ParseInt s =
    (case s of
      [] \<Rightarrow> (0, Some ErrSyntax)
    | c # cs \<Rightarrow>
        (let neg = (c = CHR ''-'');
             digits = (if c = CHR ''+'' \<or> neg then cs else s)
         in case ParseUint digits 64 of
              Inl ErrSyntax \<Rightarrow> (0, Some ErrSyntax)
            | Inl ErrRange \<Rightarrow> (if neg then - (2 ^ 63) else 2 ^ 63 - 1, Some ErrRange)
            | Inr un \<Rightarrow>
                if \<not> neg \<and> un \<ge> 2 ^ 63 then (2 ^ 63 - 1, Some ErrRange)
                else if neg \<and> un > 2 ^ 63 then (- (2 ^ 63), Some ErrRange)
                else (if neg then - un else un, None)))"

definition Atoi :: "string \<Rightarrow> int \<times> num_error option" where
  "Atoi s = ParseInt s"

text \<open>The argument is not negative.\<close>

function FormatUint :: "int \<Rightarrow> string" where
  "FormatUint n =
    (if n < 10 then [digit_char n] else FormatUint (n div 10) @ [digit_char (n mod 10)])"
  by auto

termination FormatUint
  by (relation "measure nat") auto

declare FormatUint.simps [simp del]

definition FormatInt :: "int \<Rightarrow> string" where
  "FormatInt z = (if z < 0 then CHR ''-'' # FormatUint (- z) else FormatUint z)"

section \<open>Round trip\<close>

lemma digit_char_props [simp]:
  assumes "0 \<le> d" and "d < 10"
  shows "is_digit (digit_char d)" "digit_of (digit_char d) = d"
  using assms by (simp_all add: is_digit_def digit_of_def digit_char_def)

lemma digit_of_range: "is_digit c \<Longrightarrow> 0 \<le> digit_of c \<and> digit_of c \<le> 9"
  by (simp add: is_digit_def digit_of_def)

lemma FormatUint_nonempty [simp]: "FormatUint n \<noteq> []"
  by (subst FormatUint.simps) simp

lemma FormatUint_digits: "0 \<le> n \<Longrightarrow> c \<in> set (FormatUint n) \<Longrightarrow> is_digit c"
proof (induction n rule: FormatUint.induct)
  case (1 n)
  then show ?case
    by (cases "n < 10") (auto simp: FormatUint.simps[of n])
qed

lemma parse_digits_append:
  "parse_digits maxv n (xs @ ys) =
    (case parse_digits maxv n xs of Inl e \<Rightarrow> Inl e | Inr m \<Rightarrow> parse_digits maxv m ys)"
  by (induction xs arbitrary: n) (auto simp: Let_def)

lemma parse_digits_FormatUint: "0 \<le> n \<Longrightarrow> n \<le> maxv \<Longrightarrow> parse_digits maxv 0 (FormatUint n) = Inr n"
proof (induction n rule: FormatUint.induct)
  case (1 n)
  show ?case
  proof (cases "n < 10")
    case True
    then show ?thesis using "1.prems" by (simp add: FormatUint.simps[of n])
  next
    case False
    then have "parse_digits maxv 0 (FormatUint (n div 10)) = Inr (n div 10)"
      using 1 by simp
    with False "1.prems" show ?thesis
      by (simp add: FormatUint.simps[of n] parse_digits_append Let_def)
  qed
qed

lemma ParseUint_FormatUint: "0 \<le> n \<Longrightarrow> n < 2 ^ bits \<Longrightarrow> ParseUint (FormatUint n) bits = Inr n"
  by (simp add: ParseUint_def parse_digits_FormatUint)

lemma parse_digits_range: "parse_digits maxv n s = Inr m \<Longrightarrow> 0 \<le> n \<Longrightarrow> n \<le> maxv \<Longrightarrow> 0 \<le> m \<and> m \<le> maxv"
  by (induction s arbitrary: n) (auto simp: Let_def digit_of_range split: if_splits)

lemma ParseUint_range: "ParseUint s bits = Inr n \<Longrightarrow> 0 \<le> n \<and> n < 2 ^ bits"
  using parse_digits_range[of "2 ^ bits - 1" 0 s n] by (auto simp: ParseUint_def split: if_splits)

lemma parse_digits_all_digits: "parse_digits maxv n s = Inr m \<Longrightarrow> \<forall>c \<in> set s. is_digit c"
  by (induction s arbitrary: n) (auto simp: Let_def split: if_splits)

lemma ParseInt_FormatInt:
  assumes "in_int64 z"
  shows "ParseInt (FormatInt z) = (z, None)"
proof (cases "z < 0")
  case True
  with assms show ?thesis
    by (simp add: FormatInt_def ParseInt_def ParseUint_FormatUint in_int64_def)
next
  case False
  then have n: "z < 2 ^ 63" using assms by (auto simp: in_int64_def)
  obtain c cs where f: "FormatUint z = c # cs" by (cases "FormatUint z") auto
  have "is_digit c" using FormatUint_digits[of z c] f False by simp
  then have "c \<noteq> CHR ''-''" "c \<noteq> CHR ''+''" by (auto simp: is_digit_def)
  with False n f ParseUint_FormatUint[of z 64] show ?thesis
    by (simp add: FormatInt_def ParseInt_def)
qed

end
