(* ===== verification/Request.thy ===== *)
theory Request
  imports GoTime GoStrconv
begin

text \<open>
  The messages between the cache front end and a worker, \<^verbatim>\<open>pkg/tqmemory/worker.go\<close>
  (\<open>OpType\<close>, \<open>Request\<close>, \<open>Response\<close>), the cache's errors from \<^verbatim>\<open>pkg/tqmemory/index.go\<close>, and the
  computation of the two expiry times that \<open>doSet\<close> and \<open>handleTouch\<close> share word for word. A
  request's \<open>RespChan\<close> is not a field: a handler returns its response.
\<close>

datatype OpType = OpGet | OpSet | OpAdd | OpReplace | OpDelete | OpTouch | OpCas | OpIncr
  | OpDecr | OpAppend | OpPrepend | OpFlushAll | OpStats | OpOther int

datatype cache_error = ErrKeyNotFound | ErrKeyTooLarge | ErrValueTooLarge | ErrKeyExists
  | ErrCasMismatch | ErrNotNumeric

text \<open>The error strings, \<open>err.Error()\<close>.\<close>

fun error_text :: "cache_error \<Rightarrow> string" where
  "error_text ErrKeyNotFound = ''key not found''"
| "error_text ErrKeyTooLarge = ''key too large''"
| "error_text ErrValueTooLarge = ''value too large''"
| "error_text ErrKeyExists = ''key already exists''"
| "error_text ErrCasMismatch = ''cas mismatch''"
| "error_text ErrNotNumeric = ''cannot increment or decrement non-numeric value''"

record Request =
  Op :: OpType
  reqKey :: string
  reqValue :: bytes
  TTL :: int
  reqCas :: uint64
  Delta :: uint64

record Response =
  respValue :: bytes
  respCas :: uint64
  Flags :: int
  Err :: "cache_error option"
  Stats :: "(string \<times> string) list"

definition ok_resp :: Response where
  "ok_resp = \<lparr>respValue = [], respCas = 0, Flags = 0, Err = None, Stats = []\<rparr>"

definition err_resp :: "cache_error \<Rightarrow> Response" where
  "err_resp e = ok_resp\<lparr>Err := Some e\<rparr>"

text \<open>
  What a handler reads from its environment: the clock (in nanoseconds) when it checks the
  entry's expiry, the clock when it computes a new one, and the platform's result for a
  float64 that does not fit int64.
\<close>

record env =
  check_now :: int
  store_now :: int
  oor_int :: int

text \<open>
  What the worker's \<open>select\<close> loop takes up next: a request, with the environment of its
  handling, or a tick of the background timer at some time. A log lists the requests served
  with their responses.
\<close>

datatype loop_event = Serve env Request | Tick int

type_synonym log = "(Request \<times> Response) list"

definition effective_ttl :: "int \<Rightarrow> int \<Rightarrow> int" where
  "effective_ttl dflt ttl = (if ttl = 0 \<and> dflt > 0 then dflt else ttl)"

text \<open>Soft and hard expiry in milliseconds for a time to live; zero means never.\<close>

definition expiry_times :: "env \<Rightarrow> float64 \<Rightarrow> int \<Rightarrow> int \<times> int" where
  "expiry_times en mult ttl =
    (if ttl > 0
     then let now = store_now en;
              soft = UnixMilli (Time_Add now ttl)
          in if f64_positive mult
             then (soft, UnixMilli (Time_Add now (scale_ttl (oor_int en) mult ttl)))
             else (soft, soft)
     else (0, 0))"

lemma resp_simps [simp]:
  "Err ok_resp = None" "Err (err_resp e) = Some e" "respValue ok_resp = []"
  "respCas ok_resp = 0" "Flags ok_resp = 0" "Stats ok_resp = []"
  "respValue (err_resp e) = []" "respCas (err_resp e) = 0" "Flags (err_resp e) = 0"
  "Stats (err_resp e) = []"
  by (simp_all add: ok_resp_def err_resp_def)

lemma expiry_times_two:
  "0 < ttl \<Longrightarrow> ttl < 2 ^ 53 \<Longrightarrow>
   expiry_times en two64 ttl = (UnixMilli (store_now en + ttl), UnixMilli (store_now en + 2 * ttl))"
  by (simp add: expiry_times_def Let_def Time_Add_def scale_ttl_two f64_positive_two64)

end
