(* ===== verification/Worker.thy ===== *)
theory Worker
  imports Index Request
begin

text \<open>
  One shard's worker, \<open>Worker\<close> of \<^verbatim>\<open>pkg/tqmemory/worker.go\<close>: its state, the eviction and
  expiry loops, one definition per request handler and the dispatcher \<open>handleRequest\<close>. A
  handler takes the worker's state and returns the new state with the response. The two
  loops are option-valued: \<open>None\<close> would be a loop that does not return; that this never
  happens in a well-formed state is proved in \<^theory_text>\<open>WorkerRefine\<close>. The loop of the worker's
  goroutine is \<open>run_loop\<close>, over the events it takes up; the channels between it and the
  clients are the step relation of \<^theory_text>\<open>Shards\<close>.
\<close>

section \<open>State\<close>

record Worker =
  index :: Index
  casCounter :: uint64
  DefaultTTL :: int
  staleMultiplier :: float64
  maxMemory :: int
  usedMemory :: int
  evictions :: uint64

text \<open>The clock reading that seeds the CAS counter is a parameter.\<close>

definition NewWorker :: "int \<Rightarrow> int \<Rightarrow> int \<Rightarrow> float64 \<Rightarrow> Worker" where
  "NewWorker now defaultTTL maxMem mult =
    \<lparr>index = NewIndex, casCounter = of_int now, DefaultTTL = defaultTTL, staleMultiplier = mult,
     maxMemory = maxMem, usedMemory = 0, evictions = 0\<rparr>"

definition entry_size :: "IndexEntry \<Rightarrow> int" where
  "entry_size e = int (length (Key e) + length (Value e))"

section \<open>Expiry and eviction\<close>

partial_function (option) expireKeys_loop :: "int \<Rightarrow> Worker \<Rightarrow> Worker option" where
  "expireKeys_loop now w =
    (case PeekMin (expiryHeap (index w)) of
      None \<Rightarrow> Some w
    | Some entry \<Rightarrow>
        if Expiry entry > now then Some w
        else (case Index_Delete (index w) (EKey entry) of
            (None, idx) \<Rightarrow> expireKeys_loop now (w\<lparr>index := idx\<rparr>)
          | (Some deleted, idx) \<Rightarrow>
              expireKeys_loop now
                (w\<lparr>index := idx, usedMemory := usedMemory w - entry_size (deref idx deleted)\<rparr>)))"

declare expireKeys_loop.simps [code]

definition expireKeys :: "int \<Rightarrow> Worker \<Rightarrow> Worker option" where
  "expireKeys now w = expireKeys_loop (UnixMilli now) w"

partial_function (option) evictLRU_loop :: "int \<Rightarrow> Worker \<Rightarrow> Worker option" where
  "evictLRU_loop needed w =
    (if usedMemory w + needed > maxMemory w
     then (case Index_GetOldest (index w) of
         None \<Rightarrow> Some w
       | Some r \<Rightarrow>
           (let oldest = deref (index w) r
            in evictLRU_loop needed
                 (w\<lparr>usedMemory := usedMemory w - entry_size oldest,
                    index := snd (Index_Delete (index w) (Key oldest)),
                    evictions := evictions w + 1\<rparr>)))
     else Some w)"

declare evictLRU_loop.simps [code]

definition evictLRU :: "int \<Rightarrow> Worker \<Rightarrow> Worker option" where
  "evictLRU needed w = (if maxMemory w = 0 then Some w else evictLRU_loop needed w)"

section \<open>Request handlers\<close>

text \<open>The test \<open>entry.HardExpiry > 0 && entry.HardExpiry <= time.Now().UnixMilli()\<close>.\<close>

definition entry_expired :: "env \<Rightarrow> IndexEntry \<Rightarrow> bool" where
  "entry_expired en e \<longleftrightarrow> HardExpiry e > 0 \<and> HardExpiry e \<le> UnixMilli (check_now en)"

definition handleGet :: "env \<Rightarrow> Request \<Rightarrow> Worker \<Rightarrow> Worker \<times> Response" where
  "handleGet en req w =
    (case Index_Get (index w) (reqKey req) of
      None \<Rightarrow> (w, err_resp ErrKeyNotFound)
    | Some r \<Rightarrow>
        (let entry = deref (index w) r; now = UnixMilli (check_now en)
         in if HardExpiry entry > 0 \<and> HardExpiry entry \<le> now
            then (w\<lparr>usedMemory := usedMemory w - entry_size entry,
                    index := snd (Index_Delete (index w) (reqKey req))\<rparr>,
                  err_resp ErrKeyNotFound)
            else (case
                   (if SoftExpiry entry > 0 \<and> SoftExpiry entry \<le> now
                    then if \<not> Refreshing entry
                         then (assign (index w) r (\<lambda>e. e\<lparr>Refreshing := True\<rparr>), 3)
                         else (index w, 1)
                    else (index w, 0))
                 of (idx, flags) \<Rightarrow>
                   (w\<lparr>index := Index_Touch idx (Key entry)\<rparr>,
                    ok_resp\<lparr>respValue := Value entry, respCas := Cas entry, Flags := flags\<rparr>))))"

definition doSet ::
  "env \<Rightarrow> string \<Rightarrow> bytes \<Rightarrow> int \<Rightarrow> uint64 \<Rightarrow> bool \<Rightarrow> Worker \<Rightarrow> (Worker \<times> Response) option" where
  "doSet en key val ttl existingCas checkCas w =
    (let ttl = effective_ttl (DefaultTTL w) ttl;
         (softExpiry, hardExpiry) = expiry_times en (staleMultiplier w) ttl;
         entrySize = int (length key + length val);
         oldSize = (case Index_Get (index w) key of
             None \<Rightarrow> 0
           | Some existing \<Rightarrow> entry_size (deref (index w) existing));
         additionalMemory = entrySize - oldSize
     in do {
       w \<leftarrow> (if additionalMemory > 0 \<and> maxMemory w > 0
             then evictLRU additionalMemory w else Some w);
       let w = w\<lparr>casCounter := casCounter w + 1\<rparr>;
       let cas = casCounter w;
       let (entry, idx) = alloc (index w)
         \<lparr>Key = key, Value = val, SoftExpiry = softExpiry, HardExpiry = hardExpiry, Cas = cas,
          Refreshing = False, lruElem = None\<rparr>;
       let w = w\<lparr>index := Index_Set idx entry\<rparr>;
       let w = w\<lparr>usedMemory := usedMemory w + additionalMemory\<rparr>;
       Some (w, ok_resp\<lparr>respCas := cas\<rparr>)
     })"

definition handleSet :: "env \<Rightarrow> Request \<Rightarrow> Worker \<Rightarrow> (Worker \<times> Response) option" where
  "handleSet en req w = doSet en (reqKey req) (reqValue req) (TTL req) 0 False w"

definition handleAdd :: "env \<Rightarrow> Request \<Rightarrow> Worker \<Rightarrow> (Worker \<times> Response) option" where
  "handleAdd en req w =
    (if (case Index_Get (index w) (reqKey req) of
           None \<Rightarrow> False
         | Some r \<Rightarrow> HardExpiry (deref (index w) r) = 0
             \<or> HardExpiry (deref (index w) r) > UnixMilli (check_now en))
     then Some (w, err_resp ErrKeyExists)
     else doSet en (reqKey req) (reqValue req) (TTL req) 0 False w)"

definition handleReplace :: "env \<Rightarrow> Request \<Rightarrow> Worker \<Rightarrow> (Worker \<times> Response) option" where
  "handleReplace en req w =
    (if (case Index_Get (index w) (reqKey req) of
           None \<Rightarrow> True | Some r \<Rightarrow> entry_expired en (deref (index w) r))
     then Some (w, err_resp ErrKeyNotFound)
     else doSet en (reqKey req) (reqValue req) (TTL req) 0 False w)"

definition handleCas :: "env \<Rightarrow> Request \<Rightarrow> Worker \<Rightarrow> (Worker \<times> Response) option" where
  "handleCas en req w =
    (case Index_Get (index w) (reqKey req) of
      None \<Rightarrow> Some (w, err_resp ErrKeyNotFound)
    | Some r \<Rightarrow>
        if entry_expired en (deref (index w) r) then Some (w, err_resp ErrKeyNotFound)
        else if Cas (deref (index w) r) \<noteq> reqCas req then Some (w, err_resp ErrCasMismatch)
        else doSet en (reqKey req) (reqValue req) (TTL req) (reqCas req) True w)"

definition handleDelete :: "Request \<Rightarrow> Worker \<Rightarrow> Worker \<times> Response" where
  "handleDelete req w =
    (case Index_Delete (index w) (reqKey req) of
      (None, idx) \<Rightarrow> (w\<lparr>index := idx\<rparr>, err_resp ErrKeyNotFound)
    | (Some r, idx) \<Rightarrow>
        (w\<lparr>index := idx, usedMemory := usedMemory w - entry_size (deref idx r)\<rparr>, ok_resp))"

definition handleTouch :: "env \<Rightarrow> Request \<Rightarrow> Worker \<Rightarrow> Worker \<times> Response" where
  "handleTouch en req w =
    (case Index_Get (index w) (reqKey req) of
      None \<Rightarrow> (w, err_resp ErrKeyNotFound)
    | Some r \<Rightarrow>
        if entry_expired en (deref (index w) r) then (w, err_resp ErrKeyNotFound)
        else
          (let ttl = effective_ttl (DefaultTTL w) (TTL req);
               (softExpiry, hardExpiry) = expiry_times en (staleMultiplier w) ttl;
               w = w\<lparr>casCounter := casCounter w + 1\<rparr>;
               idx = assign (index w) r
                 (\<lambda>e. e\<lparr>Cas := casCounter w, SoftExpiry := softExpiry, HardExpiry := hardExpiry\<rparr>);
               idx = Index_Set idx r;
               idx = Index_Touch idx (Key (deref idx r))
           in (w\<lparr>index := idx\<rparr>, ok_resp\<lparr>respCas := Cas (deref idx r)\<rparr>)))"

definition doIncrDecr ::
  "env \<Rightarrow> string \<Rightarrow> uint64 \<Rightarrow> bool \<Rightarrow> Worker \<Rightarrow> Worker \<times> Response" where
  "doIncrDecr en key delta incr w =
    (case Index_Get (index w) key of
      None \<Rightarrow> (w, err_resp ErrKeyNotFound)
    | Some r \<Rightarrow>
        if entry_expired en (deref (index w) r) then (w, err_resp ErrKeyNotFound)
        else (case ParseUint (Value (deref (index w) r)) 64 of
            Inl _ \<Rightarrow> (w, err_resp ErrNotNumeric)
          | Inr n \<Rightarrow>
              (let current = of_int n :: uint64;
                   newVal = (if incr then current + delta
                             else if delta > current then 0 else current - delta);
                   oldSize = int (length (Value (deref (index w) r)));
                   newValStr = FormatUint (uint newVal);
                   newSize = int (length newValStr);
                   w = w\<lparr>casCounter := casCounter w + 1\<rparr>;
                   idx = assign (index w) r (\<lambda>e. e\<lparr>Value := newValStr, Cas := casCounter w\<rparr>);
                   idx = Index_Set idx r;
                   idx = Index_Touch idx (Key (deref idx r))
               in (w\<lparr>index := idx, usedMemory := usedMemory w + (newSize - oldSize)\<rparr>,
                   ok_resp\<lparr>respValue := newValStr, respCas := Cas (deref idx r)\<rparr>))))"

definition handleIncr :: "env \<Rightarrow> Request \<Rightarrow> Worker \<Rightarrow> Worker \<times> Response" where
  "handleIncr en req w = doIncrDecr en (reqKey req) (Delta req) True w"

definition handleDecr :: "env \<Rightarrow> Request \<Rightarrow> Worker \<Rightarrow> Worker \<times> Response" where
  "handleDecr en req w = doIncrDecr en (reqKey req) (Delta req) False w"

text \<open>
  The entry pointer is taken before the eviction, which may evict that very entry; the code
  goes on with the pointer and stores the entry again.
\<close>

definition doAppendPrepend ::
  "env \<Rightarrow> string \<Rightarrow> bytes \<Rightarrow> bool \<Rightarrow> Worker \<Rightarrow> (Worker \<times> Response) option" where
  "doAppendPrepend en key val prepend w =
    (case Index_Get (index w) key of
      None \<Rightarrow> Some (w, err_resp ErrKeyNotFound)
    | Some r \<Rightarrow>
        if entry_expired en (deref (index w) r) then Some (w, err_resp ErrKeyNotFound)
        else
          (let additionalMemory = int (length val)
           in do {
             w \<leftarrow> (if maxMemory w > 0 \<and> additionalMemory > 0
                   then evictLRU additionalMemory w else Some w);
             let old = Value (deref (index w) r);
             let newValue = (if prepend then val @ old else old @ val);
             let w = w\<lparr>casCounter := casCounter w + 1\<rparr>;
             let idx = assign (index w) r (\<lambda>e. e\<lparr>Value := newValue, Cas := casCounter w\<rparr>);
             let idx = Index_Set idx r;
             let idx = Index_Touch idx (Key (deref idx r));
             let w = w\<lparr>index := idx, usedMemory := usedMemory w + additionalMemory\<rparr>;
             Some (w, ok_resp\<lparr>respCas := Cas (deref idx r)\<rparr>)
           }))"

definition handleAppend :: "env \<Rightarrow> Request \<Rightarrow> Worker \<Rightarrow> (Worker \<times> Response) option" where
  "handleAppend en req w = doAppendPrepend en (reqKey req) (reqValue req) False w"

definition handlePrepend :: "env \<Rightarrow> Request \<Rightarrow> Worker \<Rightarrow> (Worker \<times> Response) option" where
  "handlePrepend en req w = doAppendPrepend en (reqKey req) (reqValue req) True w"

definition handleFlushAll :: "Worker \<Rightarrow> Worker \<times> Response" where
  "handleFlushAll w = (w\<lparr>index := NewIndex, usedMemory := 0\<rparr>, ok_resp)"

definition handleStats :: "Worker \<Rightarrow> Worker \<times> Response" where
  "handleStats w =
    (w, ok_resp\<lparr>Stats := [(''curr_items'', FormatInt (int (Index_Count (index w)))),
                          (''bytes'', FormatInt (usedMemory w)),
                          (''evictions'', FormatUint (uint (evictions w)))]\<rparr>)"

definition handleRequest :: "env \<Rightarrow> Request \<Rightarrow> Worker \<Rightarrow> (Worker \<times> Response) option" where
  "handleRequest en req w =
    (case Op req of
      OpGet \<Rightarrow> Some (handleGet en req w)
    | OpSet \<Rightarrow> handleSet en req w
    | OpAdd \<Rightarrow> handleAdd en req w
    | OpReplace \<Rightarrow> handleReplace en req w
    | OpCas \<Rightarrow> handleCas en req w
    | OpDelete \<Rightarrow> Some (handleDelete req w)
    | OpTouch \<Rightarrow> Some (handleTouch en req w)
    | OpIncr \<Rightarrow> Some (handleIncr en req w)
    | OpDecr \<Rightarrow> Some (handleDecr en req w)
    | OpAppend \<Rightarrow> handleAppend en req w
    | OpPrepend \<Rightarrow> handlePrepend en req w
    | OpFlushAll \<Rightarrow> Some (handleFlushAll w)
    | OpStats \<Rightarrow> Some (handleStats w)
    | OpOther _ \<Rightarrow> Some (w, err_resp ErrKeyNotFound))"

section \<open>The worker's loop\<close>

text \<open>
  A run of the \<open>select\<close> loop of \<open>run\<close> up to some point: the events it took up, in order. The
  log pairs each request with the response sent on its channel.
\<close>

fun run_loop :: "loop_event list \<Rightarrow> Worker \<Rightarrow> (Worker \<times> log) option" where
  "run_loop [] w = Some (w, [])"
| "run_loop (Serve en req # evs) w = do {
     (w, resp) \<leftarrow> handleRequest en req w;
     (w, log) \<leftarrow> run_loop evs w;
     Some (w, (req, resp) # log)
   }"
| "run_loop (Tick now # evs) w = do { w \<leftarrow> expireKeys now w; run_loop evs w }"

end
