(* ===== verification/CacheSpec.thy ===== *)
theory CacheSpec
  imports ItemList Request
begin

text \<open>
  The abstract cache that one worker implements: the recency-ordered item list, the CAS
  counter, the byte account and the configuration, with a total step function. There are no
  pointers, no heap and no loops: eviction removes items from the front of the list while
  the account is over budget, and background expiry is a filter.
\<close>

record acache =
  aitems :: "item list"
  acas :: uint64
  aused :: int
  aevict :: uint64
  attl :: int
  astale :: float64
  amax :: int

definition a_live :: "int \<Rightarrow> string \<Rightarrow> acache \<Rightarrow> item option" where
  "a_live now k c =
    (case a_find k (aitems c) of
      None \<Rightarrow> None | Some i \<Rightarrow> if hard_expired now i then None else Some i)"

fun evict_list :: "int \<Rightarrow> int \<Rightarrow> uint64 \<Rightarrow> item list \<Rightarrow> int \<times> uint64 \<times> item list" where
  "evict_list budget used n [] = (used, n, [])"
| "evict_list budget used n (i # its) =
    (if used > budget then evict_list budget (used - isize i) (n + 1) its else (used, n, i # its))"

definition a_evict :: "int \<Rightarrow> acache \<Rightarrow> acache" where
  "a_evict needed c =
    (case evict_list (amax c - needed) (aused c) (aevict c) (aitems c) of
      (used, n, its) \<Rightarrow> c\<lparr>aused := used, aevict := n, aitems := its\<rparr>)"

definition a_make_room :: "int \<Rightarrow> acache \<Rightarrow> acache" where
  "a_make_room needed c = (if needed > 0 \<and> amax c > 0 then a_evict needed c else c)"

definition a_store :: "env \<Rightarrow> string \<Rightarrow> bytes \<Rightarrow> int \<Rightarrow> acache \<Rightarrow> acache \<times> Response" where
  "a_store en k v ttl c =
    (let (soft, hard) = expiry_times en (astale c) (effective_ttl (attl c) ttl);
         needed = int (length k + length v) - size_of_key k (aitems c);
         c = a_make_room needed c;
         cas = acas c + 1;
         i = \<lparr>ikey = k, ival = v, isoft = soft, ihard = hard, icas = cas, irefresh = False\<rparr>
     in (c\<lparr>aitems := a_set i (aitems c), acas := cas, aused := aused c + needed\<rparr>,
         ok_resp\<lparr>respCas := cas\<rparr>))"

definition a_get :: "env \<Rightarrow> string \<Rightarrow> acache \<Rightarrow> acache \<times> Response" where
  "a_get en k c =
    (let now = UnixMilli (check_now en)
     in case a_find k (aitems c) of
          None \<Rightarrow> (c, err_resp ErrKeyNotFound)
        | Some i \<Rightarrow>
            if hard_expired now i
            then (c\<lparr>aitems := a_delete k (aitems c), aused := aused c - isize i\<rparr>,
                  err_resp ErrKeyNotFound)
            else (let stale = isoft i > 0 \<and> isoft i \<le> now;
                      flags = (if stale then if irefresh i then 1 else 3 else 0);
                      i' = (if stale then i\<lparr>irefresh := True\<rparr> else i)
                  in (c\<lparr>aitems := a_set i' (aitems c)\<rparr>,
                      ok_resp\<lparr>respValue := ival i, respCas := icas i, Flags := flags\<rparr>)))"

definition a_remove :: "string \<Rightarrow> acache \<Rightarrow> acache \<times> Response" where
  "a_remove k c =
    (case a_find k (aitems c) of
      None \<Rightarrow> (c, err_resp ErrKeyNotFound)
    | Some i \<Rightarrow> (c\<lparr>aitems := a_delete k (aitems c), aused := aused c - isize i\<rparr>, ok_resp))"

definition a_retime :: "env \<Rightarrow> string \<Rightarrow> int \<Rightarrow> acache \<Rightarrow> acache \<times> Response" where
  "a_retime en k ttl c =
    (case a_live (UnixMilli (check_now en)) k c of
      None \<Rightarrow> (c, err_resp ErrKeyNotFound)
    | Some i \<Rightarrow>
        (let (soft, hard) = expiry_times en (astale c) (effective_ttl (attl c) ttl);
             cas = acas c + 1
         in (c\<lparr>aitems := a_set (i\<lparr>icas := cas, isoft := soft, ihard := hard\<rparr>) (aitems c),
               acas := cas\<rparr>, ok_resp\<lparr>respCas := cas\<rparr>)))"

definition counter_result :: "bool \<Rightarrow> uint64 \<Rightarrow> uint64 \<Rightarrow> uint64" where
  "counter_result incr current delta =
    (if incr then current + delta else if delta > current then 0 else current - delta)"

definition a_count :: "env \<Rightarrow> string \<Rightarrow> uint64 \<Rightarrow> bool \<Rightarrow> acache \<Rightarrow> acache \<times> Response" where
  "a_count en k delta incr c =
    (case a_live (UnixMilli (check_now en)) k c of
      None \<Rightarrow> (c, err_resp ErrKeyNotFound)
    | Some i \<Rightarrow>
        (case ParseUint (ival i) 64 of
          Inl _ \<Rightarrow> (c, err_resp ErrNotNumeric)
        | Inr n \<Rightarrow>
            (let v = FormatUint (uint (counter_result incr (of_int n) delta)); cas = acas c + 1
             in (c\<lparr>aitems := a_set (i\<lparr>ival := v, icas := cas\<rparr>) (aitems c), acas := cas,
                   aused := aused c + (int (length v) - int (length (ival i)))\<rparr>,
                 ok_resp\<lparr>respValue := v, respCas := cas\<rparr>))))"

definition a_extend :: "env \<Rightarrow> string \<Rightarrow> bytes \<Rightarrow> bool \<Rightarrow> acache \<Rightarrow> acache \<times> Response" where
  "a_extend en k v prepend c =
    (case a_live (UnixMilli (check_now en)) k c of
      None \<Rightarrow> (c, err_resp ErrKeyNotFound)
    | Some i \<Rightarrow>
        (let c = a_make_room (int (length v)) c;
             cas = acas c + 1;
             i' = i\<lparr>ival := if prepend then v @ ival i else ival i @ v, icas := cas\<rparr>
         in (c\<lparr>aitems := a_set i' (aitems c), acas := cas, aused := aused c + int (length v)\<rparr>,
             ok_resp\<lparr>respCas := cas\<rparr>)))"

definition a_expire :: "int \<Rightarrow> acache \<Rightarrow> acache" where
  "a_expire now c =
    c\<lparr>aitems := filter (\<lambda>i. \<not> hard_expired now i) (aitems c),
      aused := aused c - total_size (filter (hard_expired now) (aitems c))\<rparr>"

definition a_step :: "env \<Rightarrow> Request \<Rightarrow> acache \<Rightarrow> acache \<times> Response" where
  "a_step en req c =
    (let k = reqKey req; now = UnixMilli (check_now en)
     in case Op req of
          OpGet \<Rightarrow> a_get en k c
        | OpSet \<Rightarrow> a_store en k (reqValue req) (TTL req) c
        | OpAdd \<Rightarrow>
            (if (case a_find k (aitems c) of None \<Rightarrow> False | Some i \<Rightarrow> ihard i = 0 \<or> now < ihard i)
             then (c, err_resp ErrKeyExists) else a_store en k (reqValue req) (TTL req) c)
        | OpReplace \<Rightarrow>
            (case a_live now k c of
              None \<Rightarrow> (c, err_resp ErrKeyNotFound)
            | Some _ \<Rightarrow> a_store en k (reqValue req) (TTL req) c)
        | OpCas \<Rightarrow>
            (case a_live now k c of
              None \<Rightarrow> (c, err_resp ErrKeyNotFound)
            | Some i \<Rightarrow> if icas i \<noteq> reqCas req then (c, err_resp ErrCasMismatch)
                else a_store en k (reqValue req) (TTL req) c)
        | OpDelete \<Rightarrow> a_remove k c
        | OpTouch \<Rightarrow> a_retime en k (TTL req) c
        | OpIncr \<Rightarrow> a_count en k (Delta req) True c
        | OpDecr \<Rightarrow> a_count en k (Delta req) False c
        | OpAppend \<Rightarrow> a_extend en k (reqValue req) False c
        | OpPrepend \<Rightarrow> a_extend en k (reqValue req) True c
        | OpFlushAll \<Rightarrow> (c\<lparr>aitems := [], aused := 0\<rparr>, ok_resp)
        | OpStats \<Rightarrow> (c, ok_resp\<lparr>Stats := [(''curr_items'', FormatInt (int (length (aitems c)))),
            (''bytes'', FormatInt (aused c)), (''evictions'', FormatUint (uint (aevict c)))]\<rparr>)
        | OpOther _ \<Rightarrow> (c, err_resp ErrKeyNotFound))"

fun a_run :: "loop_event list \<Rightarrow> acache \<Rightarrow> acache \<times> log" where
  "a_run [] c = (c, [])"
| "a_run (Serve en req # evs) c =
    (case a_step en req c of (c, resp) \<Rightarrow> case a_run evs c of (c, log) \<Rightarrow> (c, (req, resp) # log))"
| "a_run (Tick now # evs) c = a_run evs (a_expire (UnixMilli now) c)"

section \<open>Eviction takes a prefix\<close>

lemma evict_list_split:
  "evict_list b u n its = (u', n', its') \<Longrightarrow>
   \<exists>gone. its = gone @ its' \<and> u' = u - total_size gone \<and> n' = n + of_nat (length gone)"
proof (induction its arbitrary: u n)
  case Nil
  then show ?case by simp
next
  case (Cons i its)
  show ?case
  proof (cases "u > b")
    case True
    with Cons obtain gone where "its = gone @ its'" "u' = u - isize i - total_size gone"
      "n' = n + 1 + of_nat (length gone)" by auto
    then show ?thesis by (intro exI[of _ "i # gone"]) (simp add: algebra_simps)
  next
    case False
    with Cons.prems show ?thesis by (intro exI[of _ "[]"]) simp
  qed
qed

lemma evict_list_budget:
  "evict_list b u n its = (u', n', its') \<Longrightarrow> u' \<le> b \<or> its' = []"
  by (induction its arbitrary: u n) (auto split: if_splits)

lemma evict_list_noop: "u \<le> b \<Longrightarrow> evict_list b u n its = (u, n, its)"
  by (cases its) auto

text \<open>Eviction stops as early as it can: one item fewer would leave the account over budget.\<close>

lemma evict_list_minimal:
  "evict_list b u n its = (u', n', its') \<Longrightarrow> its = gone @ i # rest @ its' \<Longrightarrow> u - total_size gone > b"
proof (induction gone arbitrary: its u n)
  case Nil
  then show ?case by (cases "u > b") auto
next
  case (Cons j gone)
  then have "u > b" by (cases "u > b") auto
  with Cons show ?case by (force simp: algebra_simps)
qed

end
