(* ===== verification/WorkerRefine.thy ===== *)
theory WorkerRefine
  imports Worker CacheSpec
begin

text \<open>
  The worker implements the abstract cache: in a well-formed state every request returns,
  keeps the state well-formed, answers as the abstract step does and reaches a state whose
  abstraction is the abstract result. Background expiry likewise.
\<close>

definition abs_worker :: "Worker \<Rightarrow> acache" where
  "abs_worker w = \<lparr>aitems = items (index w), acas = casCounter w, aused = usedMemory w,
     aevict = evictions w, attl = DefaultTTL w, astale = staleMultiplier w, amax = maxMemory w\<rparr>"

definition worker_inv :: "Worker \<Rightarrow> bool" where
  "worker_inv w \<longleftrightarrow> idx_inv (index w)"

lemma abs_worker_fields [simp]:
  "aitems (abs_worker w) = items (index w)" "acas (abs_worker w) = casCounter w"
  "aused (abs_worker w) = usedMemory w" "aevict (abs_worker w) = evictions w"
  "attl (abs_worker w) = DefaultTTL w" "astale (abs_worker w) = staleMultiplier w"
  "amax (abs_worker w) = maxMemory w"
  by (simp_all add: abs_worker_def)

lemma abs_worker_update [simp]:
  "abs_worker (w\<lparr>index := i\<rparr>) = (abs_worker w)\<lparr>aitems := items i\<rparr>"
  "abs_worker (w\<lparr>casCounter := c\<rparr>) = (abs_worker w)\<lparr>acas := c\<rparr>"
  "abs_worker (w\<lparr>usedMemory := u\<rparr>) = (abs_worker w)\<lparr>aused := u\<rparr>"
  "abs_worker (w\<lparr>evictions := n\<rparr>) = (abs_worker w)\<lparr>aevict := n\<rparr>"
  by (simp_all add: abs_worker_def)

lemma entry_size_abs: "entry_size e = isize (abs_item e)"
  by (simp add: entry_size_def isize_def)

section \<open>The loops return\<close>

text \<open>What eviction leaves alone: the entry objects that the handler still points to.\<close>

definition same_objs :: "Index \<Rightarrow> Index \<Rightarrow> bool" where
  "same_objs i j \<longleftrightarrow> length (objs j) = length (objs i) \<and>
     (\<forall>r. abs_item (deref j r) = abs_item (deref i r))"

lemma same_objs_refl [simp]: "same_objs i i"
  by (simp add: same_objs_def)

lemma same_objs_trans: "same_objs i j \<Longrightarrow> same_objs j k \<Longrightarrow> same_objs i k"
  by (simp add: same_objs_def)

lemma same_objs_Delete: "idx_inv i \<Longrightarrow> same_objs i (snd (Index_Delete i k))"
  by (simp add: same_objs_def idx_Delete deref_def)

lemma evictLRU_loop_refines:
  assumes "worker_inv w"
  shows "\<exists>w'. evictLRU_loop needed w = Some w' \<and> worker_inv w' \<and>
    abs_worker w' = a_evict needed (abs_worker w) \<and> same_objs (index w) (index w')"
  using assms
proof (induction "length (items (index w))" arbitrary: w rule: less_induct)
  case less
  then have inv: "idx_inv (index w)" by (simp add: worker_inv_def)
  show ?case
  proof (cases "usedMemory w + needed > maxMemory w")
    case False
    then have "a_evict needed (abs_worker w) = abs_worker w"
      by (simp add: a_evict_def evict_list_noop abs_worker_def)
    with False less.prems show ?thesis by (simp add: evictLRU_loop.simps)
  next
    case over: True
    show ?thesis
    proof (cases "Index_GetOldest (index w)")
      case None
      then have "items (index w) = []" using ix.evict_stop[OF inv] by simp
      then have "a_evict needed (abs_worker w) = abs_worker w"
        by (simp add: a_evict_def abs_worker_def)
      with None over less.prems show ?thesis by (simp add: evictLRU_loop.simps)
    next
      case (Some r)
      let ?e = "deref (index w) r"
      let ?w = "w\<lparr>usedMemory := usedMemory w - entry_size ?e,
        index := snd (Index_Delete (index w) (Key ?e)), evictions := evictions w + 1\<rparr>"
      have its: "items (index w) = abs_item ?e # items (index ?w)"
        using ix.evict_step[OF inv Some] by simp
      have "worker_inv ?w" using ix.del_inv[OF inv] by (simp add: worker_inv_def)
      then obtain w' where w': "evictLRU_loop needed ?w = Some w'" "worker_inv w'"
        "abs_worker w' = a_evict needed (abs_worker ?w)" "same_objs (index ?w) (index w')"
        using less.hyps[of ?w] its by auto
      have "a_evict needed (abs_worker ?w) = a_evict needed (abs_worker w)"
        using its over by (simp add: a_evict_def entry_size_abs abs_worker_def algebra_simps)
      moreover have "same_objs (index w) (index w')"
        using same_objs_trans[OF same_objs_Delete[OF inv] ] w'(4) by simp
      ultimately show ?thesis
        using w' Some over by (simp add: evictLRU_loop.simps[of needed w] Let_def)
    qed
  qed
qed

lemma make_room_refines:
  assumes "worker_inv w"
  shows "\<exists>w'. (if needed > 0 \<and> maxMemory w > 0 then evictLRU needed w else Some w) = Some w' \<and>
    worker_inv w' \<and> abs_worker w' = a_make_room needed (abs_worker w) \<and>
    same_objs (index w) (index w')"
  using evictLRU_loop_refines[OF assms, of needed] assms
  by (auto simp: a_make_room_def evictLRU_def)

lemma expireKeys_loop_refines:
  assumes "worker_inv w"
  shows "\<exists>w'. expireKeys_loop now w = Some w' \<and> worker_inv w' \<and>
    abs_worker w' = a_expire now (abs_worker w)"
  using assms
proof (induction "length (items (index w))" arbitrary: w rule: less_induct)
  case less
  then have inv: "idx_inv (index w)" by (simp add: worker_inv_def)
  note stop = ix.expire_stop[OF inv, of now]
  show ?case
  proof (cases "\<forall>i \<in> set (items (index w)). \<not> hard_expired now i")
    case True
    then have "filter (\<lambda>i. \<not> hard_expired now i) (items (index w)) = items (index w)"
      "filter (hard_expired now) (items (index w)) = []"
      by (auto simp: filter_id_conv filter_empty_conv)
    then have "a_expire now (abs_worker w) = abs_worker w"
      by (simp add: a_expire_def abs_worker_def)
    moreover have "expireKeys_loop now w = Some w"
      using True stop by (auto simp: expireKeys_loop.simps[of now w] split: option.splits)
    ultimately show ?thesis using less.prems by auto
  next
    case False
    with stop obtain h where h: "PeekMin (expiryHeap (index w)) = Some h" "\<not> now < Expiry h"
      by (auto split: option.splits)
    obtain r where r: "fst (Index_Delete (index w) (EKey h)) = Some r"
      "hard_expired now (abs_item (deref (index w) r))"
      "a_find (EKey h) (items (index w)) = Some (abs_item (deref (index w) r))"
      using ix.expire_step[OF inv, of "EKey h" "Expiry h" now] h by auto
    let ?i = "snd (Index_Delete (index w) (EKey h))"
    let ?w = "w\<lparr>index := ?i, usedMemory := usedMemory w - entry_size (deref ?i r)\<rparr>"
    have its: "items ?i = a_delete (EKey h) (items (index w))" by (rule ix.del_contents[OF inv])
    have sz: "entry_size (deref ?i r) = isize (abs_item (deref (index w) r))"
      by (simp add: entry_size_abs ix.del_ent[OF inv])
    note f = filter_a_delete[OF ix.distinct[OF inv] r(3), where P = "hard_expired now", OF r(2)]
    have "worker_inv ?w" using ix.del_inv[OF inv] by (simp add: worker_inv_def)
    then obtain w' where w': "expireKeys_loop now ?w = Some w'" "worker_inv w'"
      "abs_worker w' = a_expire now (abs_worker ?w)"
      using less.hyps[of ?w] its f(3) by auto
    have "a_expire now (abs_worker ?w) = a_expire now (abs_worker w)"
      using f its sz by (simp add: a_expire_def abs_worker_def)
    moreover have "expireKeys_loop now w = expireKeys_loop now ?w"
      using h r(1) by (cases "Index_Delete (index w) (EKey h)")
        (simp add: expireKeys_loop.simps[of now w])
    ultimately show ?thesis using w' by simp
  qed
qed

section \<open>The handlers\<close>

definition implements :: "Worker \<times> Response \<Rightarrow> acache \<times> Response \<Rightarrow> bool" where
  "implements wr cr \<longleftrightarrow> worker_inv (fst wr) \<and> abs_worker (fst wr) = fst cr \<and> snd wr = snd cr"

lemma implements_same [simp]: "worker_inv w \<Longrightarrow> implements (w, r) (abs_worker w, r)"
  by (simp add: implements_def)

lemma Get_None:
  "worker_inv w \<Longrightarrow> Index_Get (index w) k = None \<longleftrightarrow> a_find k (items (index w)) = None"
  by (simp add: ix.get_None worker_inv_def)

lemma Get_Some:
  "worker_inv w \<Longrightarrow> Index_Get (index w) k = Some r \<Longrightarrow>
   a_find k (items (index w)) = Some (abs_item (deref (index w) r))"
  by (simp add: ix.get_Some worker_inv_def)

lemma Get_Key:
  "worker_inv w \<Longrightarrow> Index_Get (index w) k = Some r \<Longrightarrow> Key (deref (index w) r) = k"
  using Get_Some[of w k r] a_find_ikey by fastforce

lemma entry_expired_abs:
  "entry_expired en e \<longleftrightarrow> hard_expired (UnixMilli (check_now en)) (abs_item e)"
  by (simp add: entry_expired_def hard_expired_def)

lemma a_live_Get:
  assumes "worker_inv w"
  shows "a_live (UnixMilli (check_now en)) k (abs_worker w) =
    (case Index_Get (index w) k of None \<Rightarrow> None
     | Some r \<Rightarrow> if entry_expired en (deref (index w) r) then None
         else Some (abs_item (deref (index w) r)))"
  using Get_None[OF assms, of k] Get_Some[OF assms, of k]
  by (auto simp: a_live_def entry_expired_abs split: option.splits)

lemma handleGet_refines:
  assumes w: "worker_inv w"
  shows "implements (handleGet en req w) (a_get en (reqKey req) (abs_worker w))"
proof (cases "Index_Get (index w) (reqKey req)")
  case None
  then show ?thesis using w Get_None[OF w, THEN iffD1, OF None] by (simp add: handleGet_def a_get_def)
next
  case (Some r)
  let ?e = "deref (index w) r" and ?k = "reqKey req" and ?now = "UnixMilli (check_now en)"
  note inv = w[unfolded worker_inv_def]
  note f = Get_Some[OF w Some] note k = Get_Key[OF w Some]
  have t: "idx_inv (Index_Touch (index w) ?k)"
    "items (Index_Touch (index w) ?k) = a_set (abs_item ?e) (items (index w))"
    using ix.touch_inv[OF inv] ix.touch_contents[OF inv] a_touch_Some[OF f] by auto
  have m: "idx_inv (Index_Touch (assign (index w) r (\<lambda>e. e\<lparr>Refreshing := True\<rparr>)) ?k)"
    "items (Index_Touch (assign (index w) r (\<lambda>e. e\<lparr>Refreshing := True\<rparr>)) ?k) =
      a_set ((abs_item ?e)\<lparr>irefresh := True\<rparr>) (items (index w))"
    using idx_assign_Touch[OF inv Some, of "\<lambda>e. e\<lparr>Refreshing := True\<rparr>"]
    by (simp_all add: abs_item_def deref_def)
  consider (gone) "hard_expired ?now (abs_item ?e)"
    | (fresh) "\<not> hard_expired ?now (abs_item ?e)" "\<not> (SoftExpiry ?e > 0 \<and> SoftExpiry ?e \<le> ?now)"
    | (first) "\<not> hard_expired ?now (abs_item ?e)" "SoftExpiry ?e > 0 \<and> SoftExpiry ?e \<le> ?now" "\<not> Refreshing ?e"
    | (again) "\<not> hard_expired ?now (abs_item ?e)" "SoftExpiry ?e > 0 \<and> SoftExpiry ?e \<le> ?now" "Refreshing ?e"
    by blast
  then show ?thesis
  proof cases
    case gone
    with Some f show ?thesis
      using ix.del_inv[OF inv] ix.del_contents[OF inv]
      by (simp add: handleGet_def a_get_def Let_def hard_expired_def entry_size_abs
          implements_def worker_inv_def)
  next
    case fresh
    with Some f k t show ?thesis
      by (auto simp: handleGet_def a_get_def Let_def hard_expired_def implements_def
          worker_inv_def)
  next
    case first
    with Some f k m show ?thesis
      by (auto simp: handleGet_def a_get_def Let_def hard_expired_def implements_def
          worker_inv_def)
  next
    case again
    have same: "(abs_item ?e)\<lparr>irefresh := True\<rparr> = abs_item ?e" using again by (simp add: abs_item_def)
    with again Some f k t show ?thesis
      by (auto simp: same handleGet_def a_get_def Let_def hard_expired_def implements_def
          worker_inv_def)
  qed
qed

lemma doSet_refines:
  assumes w: "worker_inv w"
  shows "\<exists>wr. doSet en k v ttl xcas chk w = Some wr \<and> implements wr (a_store en k v ttl (abs_worker w))"
proof -
  obtain soft hard where ex: "expiry_times en (staleMultiplier w) (effective_ttl (DefaultTTL w) ttl) = (soft, hard)"
    by fastforce
  define need where "need = int (length k + length v) - size_of_key k (items (index w))"
  have old: "(case Index_Get (index w) k of None \<Rightarrow> 0
      | Some existing \<Rightarrow> entry_size (deref (index w) existing)) = size_of_key k (items (index w))"
    using Get_None[OF w, of k] Get_Some[OF w, of k]
    by (auto simp: size_of_key_def entry_size_abs split: option.splits)
  obtain w' where w': "(if need > 0 \<and> maxMemory w > 0 then evictLRU need w else Some w) = Some w'"
    "worker_inv w'" "abs_worker w' = a_make_room need (abs_worker w)"
    using make_room_refines[OF w] by blast
  define e where "e = \<lparr>Key = k, Value = v, SoftExpiry = soft, HardExpiry = hard,
    Cas = casCounter w' + 1, Refreshing = False, lruElem = None\<rparr>"
  obtain r idx where al: "alloc (index w') e = (r, idx)" by fastforce
  have a: "idx_inv idx" "items idx = items (index w')" "r < length (objs idx)" "objs idx ! r = e"
    using idx_alloc[OF w'(2)[unfolded worker_inv_def], of e] al by simp_all
  have "heap_agrees idx {Key (objs idx ! r)}" "idx_struct idx"
    using a(1) by (simp_all add: idx_inv_def heap_agrees_def)
  note st = idx_Set[OF this(2) a(3) this(1)]
  have ae: "abs_item e = \<lparr>ikey = k, ival = v, isoft = soft, ihard = hard, icas = casCounter w' + 1, irefresh = False\<rparr>"
    by (simp add: e_def abs_item_def)
  let ?w = "w'\<lparr>casCounter := casCounter w' + 1, index := Index_Set idx r, usedMemory := usedMemory w' + need\<rparr>"
  have "doSet en k v ttl xcas chk w = Some (?w, ok_resp\<lparr>respCas := casCounter w' + 1\<rparr>)"
    unfolding doSet_def Let_def ex old need_def[symmetric] prod.case w'(1) bind.bind_lunit
    by (simp add: al[unfolded e_def])
  moreover have "a_store en k v ttl (abs_worker w) = (abs_worker ?w, ok_resp\<lparr>respCas := casCounter w' + 1\<rparr>)"
    unfolding a_store_def Let_def abs_worker_fields ex prod.case need_def[symmetric] w'(3)[symmetric]
    by (simp add: st(2) a ae)
  moreover have "worker_inv ?w" using st(1) by (simp add: worker_inv_def)
  ultimately show ?thesis by (simp add: implements_def)
qed

lemma handleAdd_refines:
  assumes w: "worker_inv w" and op: "Op req = OpAdd"
  shows "\<exists>wr. handleAdd en req w = Some wr \<and> implements wr (a_step en req (abs_worker w))"
proof -
  have "(case Index_Get (index w) (reqKey req) of None \<Rightarrow> False
      | Some r \<Rightarrow> HardExpiry (deref (index w) r) = 0
          \<or> HardExpiry (deref (index w) r) > UnixMilli (check_now en)) =
    (case a_find (reqKey req) (items (index w)) of None \<Rightarrow> False
      | Some i \<Rightarrow> ihard i = 0 \<or> UnixMilli (check_now en) < ihard i)"
    using Get_None[OF w, of "reqKey req"] Get_Some[OF w, of "reqKey req"]
    by (auto split: option.splits)
  then show ?thesis
    using doSet_refines[OF w] w by (simp add: handleAdd_def a_step_def op)
qed

lemma handleReplace_refines:
  assumes w: "worker_inv w" and op: "Op req = OpReplace"
  shows "\<exists>wr. handleReplace en req w = Some wr \<and> implements wr (a_step en req (abs_worker w))"
  using doSet_refines[OF w] w
  by (auto simp: handleReplace_def a_step_def op a_live_Get split: option.splits)

lemma handleCas_refines:
  assumes w: "worker_inv w" and op: "Op req = OpCas"
  shows "\<exists>wr. handleCas en req w = Some wr \<and> implements wr (a_step en req (abs_worker w))"
  using doSet_refines[OF w] w
  by (auto simp: handleCas_def a_step_def op a_live_Get split: option.splits)

lemma handleDelete_refines:
  assumes w: "worker_inv w"
  shows "implements (handleDelete req w) (a_remove (reqKey req) (abs_worker w))"
proof -
  note inv = w[unfolded worker_inv_def]
  obtain ro idx where d: "Index_Delete (index w) (reqKey req) = (ro, idx)" by fastforce
  have "ro = Index_Get (index w) (reqKey req)" "idx_inv idx"
    "items idx = a_delete (reqKey req) (items (index w))"
    "\<And>r. abs_item (deref idx r) = abs_item (deref (index w) r)"
    using ix.del_get[OF inv, of "reqKey req"] ix.del_inv[OF inv, of "reqKey req"]
      ix.del_contents[OF inv, of "reqKey req"] ix.del_ent[OF inv, of "reqKey req"] d by simp_all
  then show ?thesis
    using Get_None[OF w, of "reqKey req"] Get_Some[OF w, of "reqKey req"]
    by (cases ro)
      (auto simp: handleDelete_def a_remove_def d implements_def worker_inv_def
        entry_size_abs a_delete_absent)
qed

text \<open>
  Assigning to a live entry, storing it and touching it: the tail that \<open>handleTouch\<close>,
  \<open>doIncrDecr\<close> and \<open>doAppendPrepend\<close> share.
\<close>

lemma assign_Set_Touch:
  assumes inv: "idx_inv i" and r: "r < length (objs i)"
    and f: "\<And>e. Key (f e) = Key e" "\<And>e. lruElem (f e) = lruElem e"
  defines "j \<equiv> Index_Set (assign i r f) r"
  shows "idx_inv (Index_Touch j (Key (deref j r)))"
    and "items (Index_Touch j (Key (deref j r))) = a_set (abs_item (f (deref i r))) (items i)"
    and "Cas (deref (Index_Touch j (Key (deref j r))) r) = Cas (f (deref i r))"
proof -
  note st = idx_assign_Set[OF inv r, of f, OF f, folded j_def]
  have "ikey (abs_item (objs j ! r)) = ikey (abs_item (f (objs i ! r)))" "icas (abs_item (objs j ! r)) = icas (abs_item (f (objs i ! r)))"
    using st(3) by simp_all
  then have k: "Key (deref j r) = Key (f (objs i ! r))" and c: "Cas (deref j r) = Cas (f (objs i ! r))"
    by (simp_all add: deref_def)
  show "idx_inv (Index_Touch j (Key (deref j r)))" using st(1) by (rule ix.touch_inv)
  show "items (Index_Touch j (Key (deref j r))) = a_set (abs_item (f (deref i r))) (items i)"
    using a_touch_set_same[of "abs_item (f (objs i ! r))" "items i"] st(1,2)
    unfolding k by (simp add: ix.touch_contents deref_def)
  show "Cas (deref (Index_Touch j (Key (deref j r))) r) = Cas (f (deref i r))"
    using st(1) c by (simp add: deref_def idx_Touch(3) idx_inv_def)
qed

lemma handleTouch_refines:
  assumes w: "worker_inv w"
  shows "implements (handleTouch en req w) (a_retime en (reqKey req) (TTL req) (abs_worker w))"
proof (cases "Index_Get (index w) (reqKey req)")
  case None
  then show ?thesis using w by (simp add: handleTouch_def a_retime_def a_live_Get)
next
  case (Some r)
  note inv = w[unfolded worker_inv_def]
  note r = idx_Get_bound[OF inv Some]
  obtain soft hard where ex: "expiry_times en (staleMultiplier w)
    (effective_ttl (DefaultTTL w) (TTL req)) = (soft, hard)" by fastforce
  note t = assign_Set_Touch[OF inv r, of "\<lambda>e. e\<lparr>Cas := casCounter w + 1, SoftExpiry := soft, HardExpiry := hard\<rparr>"]
  have "abs_item ((deref (index w) r)\<lparr>Cas := casCounter w + 1, SoftExpiry := soft, HardExpiry := hard\<rparr>) =
    (abs_item (deref (index w) r))\<lparr>icas := casCounter w + 1, isoft := soft, ihard := hard\<rparr>"
    by (simp add: abs_item_def)
  with Some w t show ?thesis
    by (auto simp: handleTouch_def a_retime_def a_live_Get Let_def ex implements_def
        worker_inv_def)
qed

lemma doIncrDecr_refines:
  assumes w: "worker_inv w"
  shows "implements (doIncrDecr en k delta incr w) (a_count en k delta incr (abs_worker w))"
proof (cases "Index_Get (index w) k")
  case None
  then show ?thesis using w by (simp add: doIncrDecr_def a_count_def a_live_Get)
next
  case (Some r)
  note inv = w[unfolded worker_inv_def]
  note r = idx_Get_bound[OF inv Some]
  let ?e = "deref (index w) r"
  show ?thesis
  proof (cases "entry_expired en ?e \<or> (\<exists>x. ParseUint (Value ?e) 64 = Inl x)")
    case True
    with Some w show ?thesis by (auto simp: doIncrDecr_def a_count_def a_live_Get)
  next
    case False
    then obtain n where n: "ParseUint (Value ?e) 64 = Inr n" "\<not> entry_expired en ?e"
      by (cases "ParseUint (Value ?e) 64") auto
    let ?v = "FormatUint (uint (counter_result incr (of_int n) delta))"
    note t = assign_Set_Touch[OF inv r, of "\<lambda>e. e\<lparr>Value := ?v, Cas := casCounter w + 1\<rparr>"]
    have "abs_item (?e\<lparr>Value := ?v, Cas := casCounter w + 1\<rparr>) =
        (abs_item ?e)\<lparr>ival := ?v, icas := casCounter w + 1\<rparr>"
      by (simp add: abs_item_def)
    with Some w n t show ?thesis
      by (simp add: doIncrDecr_def a_count_def a_live_Get Let_def implements_def
          counter_result_def[symmetric] worker_inv_def)
  qed
qed

lemma doAppendPrepend_refines:
  assumes w: "worker_inv w"
  shows "\<exists>wr. doAppendPrepend en k v prepend w = Some wr \<and>
    implements wr (a_extend en k v prepend (abs_worker w))"
proof (cases "a_live (UnixMilli (check_now en)) k (abs_worker w)")
  case None
  with w show ?thesis
    by (auto simp: doAppendPrepend_def a_extend_def a_live_Get split: option.splits)
next
  case (Some i)
  then obtain r where r: "Index_Get (index w) k = Some r" "\<not> entry_expired en (deref (index w) r)"
    "i = abs_item (deref (index w) r)"
    by (auto simp: a_live_Get[OF w] split: option.splits if_splits)
  let ?n = "int (length v)"
  obtain w' where w': "(if ?n > 0 \<and> maxMemory w > 0 then evictLRU ?n w else Some w) = Some w'"
    "worker_inv w'" "abs_worker w' = a_make_room ?n (abs_worker w)" "same_objs (index w) (index w')"
    using make_room_refines[OF w] by blast
  have so: "abs_item (deref (index w') r) = i" and rl: "r < length (objs (index w'))"
    using w'(4) idx_Get_bound[OF w[unfolded worker_inv_def] r(1)] r(3) by (auto simp: same_objs_def)
  then have val: "Value (deref (index w') r) = ival i" by auto
  let ?v = "if prepend then v @ ival i else ival i @ v"
  note t = assign_Set_Touch[OF w'(2)[unfolded worker_inv_def] rl,
      of "\<lambda>e. e\<lparr>Value := ?v, Cas := casCounter w' + 1\<rparr>"]
  have ae: "abs_item ((deref (index w') r)\<lparr>Value := ?v, Cas := casCounter w' + 1\<rparr>) =
      i\<lparr>ival := ?v, icas := casCounter w' + 1\<rparr>"
    using so by (auto simp: abs_item_def)
  have "(if maxMemory w > 0 \<and> ?n > 0 then evictLRU ?n w else Some w) = Some w'"
    using w'(1) by (simp only: conj_commute)
  moreover have vv: "(if prepend then v @ Value (deref (index w') r) else Value (deref (index w') r) @ v) = ?v"
    by (simp add: val)
  ultimately have "doAppendPrepend en k v prepend w = Some (w'\<lparr>casCounter := casCounter w' + 1,
      index := Index_Touch (Index_Set (assign (index w') r (\<lambda>e. e\<lparr>Value := ?v, Cas := casCounter w' + 1\<rparr>)) r)
        (Key (deref (Index_Set (assign (index w') r (\<lambda>e. e\<lparr>Value := ?v, Cas := casCounter w' + 1\<rparr>)) r) r)),
      usedMemory := usedMemory w' + ?n\<rparr>, ok_resp\<lparr>respCas := casCounter w' + 1\<rparr>)"
    using t(3) r(1,2) unfolding doAppendPrepend_def Let_def
    by (simp add: vv del: if_split) 
  then show ?thesis
    using t(1) Some w'(3)[symmetric] unfolding a_extend_def Let_def implements_def worker_inv_def
    by (simp add: t(2) ae del: if_split)
qed

section \<open>The dispatcher\<close>

theorem handleRequest_refines:
  assumes w: "worker_inv w"
  shows "\<exists>wr. handleRequest en req w = Some wr \<and> implements wr (a_step en req (abs_worker w))"
proof (cases "Op req")
  case OpSet
  then show ?thesis using doSet_refines[OF w] by (simp add: handleRequest_def handleSet_def a_step_def)
next
  case OpAdd
  then show ?thesis using handleAdd_refines[OF w] by (simp add: handleRequest_def)
next
  case OpReplace
  then show ?thesis using handleReplace_refines[OF w] by (simp add: handleRequest_def)
next
  case OpCas
  then show ?thesis using handleCas_refines[OF w] by (simp add: handleRequest_def)
next
  case OpAppend
  then show ?thesis
    using doAppendPrepend_refines[OF w] by (simp add: handleRequest_def handleAppend_def a_step_def)
next
  case OpPrepend
  then show ?thesis
    using doAppendPrepend_refines[OF w] by (simp add: handleRequest_def handlePrepend_def a_step_def)
next
  case OpFlushAll
  then show ?thesis
    by (simp add: handleRequest_def handleFlushAll_def a_step_def implements_def worker_inv_def
        idx_inv_New items_New)
next
  case OpStats
  then show ?thesis
    using w ix.count_contents[of "index w"]
    by (simp add: handleRequest_def handleStats_def a_step_def implements_def worker_inv_def)
qed (use w in \<open>simp_all add: handleRequest_def a_step_def handleGet_refines handleDelete_refines
    handleTouch_refines handleIncr_def handleDecr_def doIncrDecr_refines\<close>)

lemma expireKeys_refines:
  "worker_inv w \<Longrightarrow> \<exists>w'. expireKeys now w = Some w' \<and> worker_inv w' \<and>
     abs_worker w' = a_expire (UnixMilli now) (abs_worker w)"
  by (simp add: expireKeys_def expireKeys_loop_refines)

lemma worker_inv_New [simp]: "worker_inv (NewWorker now ttl mx mult)"
  by (simp add: worker_inv_def NewWorker_def idx_inv_New)

lemma abs_worker_New: "abs_worker (NewWorker now ttl mx mult) =
  \<lparr>aitems = [], acas = of_int now, aused = 0, aevict = 0, attl = ttl, astale = mult, amax = mx\<rparr>"
  by (simp add: abs_worker_def NewWorker_def items_New)

lemma handleRequest_SomeD:
  assumes "worker_inv w" and "handleRequest en req w = Some (w', r)"
  shows "worker_inv w'" and "a_step en req (abs_worker w) = (abs_worker w', r)"
  using handleRequest_refines[OF assms(1), of en req] assms(2)
  by (auto simp: implements_def prod_eq_iff)

lemma expireKeys_SomeD:
  assumes "worker_inv w" and "expireKeys now w = Some w'"
  shows "worker_inv w'" and "abs_worker w' = a_expire (UnixMilli now) (abs_worker w)"
  using expireKeys_refines[OF assms(1), of now] assms(2) by auto

lemma run_loop_refines:
  "worker_inv w \<Longrightarrow> \<exists>w' log. run_loop evs w = Some (w', log) \<and> worker_inv w' \<and>
     a_run evs (abs_worker w) = (abs_worker w', log)"
proof (induction evs w rule: run_loop.induct)
  case (2 en req evs w)
  obtain w1 r where s: "handleRequest en req w = Some (w1, r)"
    using handleRequest_refines[OF 2(2), of en req] by auto
  note d = handleRequest_SomeD[OF 2(2) s]
  from 2(1)[OF s _ d(1)] show ?case using s d(2) by auto
next
  case (3 now evs w)
  obtain w1 where s: "expireKeys now w = Some w1"
    using expireKeys_refines[OF 3(2), of now] by auto
  note d = expireKeys_SomeD[OF 3(2) s]
  from 3(1)[OF s d(1)] show ?case using s d(2) by auto
qed simp

end
