(* ===== verification/CacheLaws.thy ===== *)
theory CacheLaws
  imports CacheSpec
begin

text \<open>
  Laws of the abstract cache, each proved once for every request: what a step does to the
  CAS counter, to the items of other keys, to the configuration and to the byte account, and
  their consequences for runs of the worker's loop.
\<close>

section \<open>Eviction\<close>

lemma a_evict_fields [simp]:
  "acas (a_evict n c) = acas c" "attl (a_evict n c) = attl c" "astale (a_evict n c) = astale c"
  "amax (a_evict n c) = amax c"
  by (simp_all add: a_evict_def split: prod.split)

lemma a_make_room_fields [simp]:
  "acas (a_make_room n c) = acas c" "attl (a_make_room n c) = attl c"
  "astale (a_make_room n c) = astale c" "amax (a_make_room n c) = amax c"
  by (simp_all add: a_make_room_def)

lemma a_make_room_split:
  obtains gone where "aitems c = gone @ aitems (a_make_room n c)"
    "aused (a_make_room n c) = aused c - total_size gone"
    "aevict (a_make_room n c) = aevict c + of_nat (length gone)"
proof -
  have "\<exists>gone. aitems c = gone @ aitems (a_make_room n c) \<and>
    aused (a_make_room n c) = aused c - total_size gone \<and>
    aevict (a_make_room n c) = aevict c + of_nat (length gone)"
    by (auto simp: a_make_room_def a_evict_def split: prod.split dest!: evict_list_split
        intro: exI[of _ "[]"])
  then show thesis using that by blast
qed

lemma a_make_room_unlimited: "amax c \<le> 0 \<Longrightarrow> a_make_room n c = c"
  by (simp add: a_make_room_def)

lemma a_make_room_budget:
  "0 < n \<Longrightarrow> 0 < amax c \<Longrightarrow>
   aused (a_make_room n c) + n \<le> amax c \<or> aitems (a_make_room n c) = []"
  by (auto simp: a_make_room_def a_evict_def split: prod.split dest!: evict_list_budget)

lemma keys_distinct_suffix: "keys_distinct (xs @ ys) \<Longrightarrow> keys_distinct ys"
  by (simp add: keys_distinct_def)

lemma a_find_suffix:
  "keys_distinct (xs @ ys) \<Longrightarrow> a_find k ys = Some i \<Longrightarrow> a_find k (xs @ ys) = Some i"
  by (induction xs) (auto simp: keys_distinct_Cons split: option.splits)

lemma a_find_make_room:
  assumes "keys_distinct (aitems c)"
  shows "a_find k (aitems (a_make_room n c)) = a_find k (aitems c) \<or>
    a_find k (aitems (a_make_room n c)) = None"
proof -
  obtain gone where "aitems c = gone @ aitems (a_make_room n c)" by (rule a_make_room_split)
  then show ?thesis
    using a_find_suffix[of gone "aitems (a_make_room n c)" k] assms
    by (cases "a_find k (aitems (a_make_room n c))") auto
qed

lemma a_find_make_roomD:
  "keys_distinct (aitems c) \<Longrightarrow> a_find k (aitems (a_make_room n c)) = Some i \<Longrightarrow>
   a_find k (aitems c) = Some i"
  using a_find_make_room[of c k n] by auto

lemma a_make_room_distinct [simp]:
  "keys_distinct (aitems c) \<Longrightarrow> keys_distinct (aitems (a_make_room n c))"
  using keys_distinct_suffix by (metis a_make_room_split)

section \<open>Steps\<close>

text \<open>The steps that store, with their two parts named.\<close>

lemma a_store_parts:
  "a_store en k v ttl c =
    (let need = int (length k + length v) - size_of_key k (aitems c); c1 = a_make_room need c
     in (c1\<lparr>aitems := a_set \<lparr>ikey = k, ival = v,
           isoft = fst (expiry_times en (astale c) (effective_ttl (attl c) ttl)),
           ihard = snd (expiry_times en (astale c) (effective_ttl (attl c) ttl)),
           icas = acas c + 1, irefresh = False\<rparr> (aitems c1),
         acas := acas c + 1, aused := aused c1 + need\<rparr>, ok_resp\<lparr>respCas := acas c + 1\<rparr>))"
  by (simp add: a_store_def Let_def split: prod.split)

lemma a_live_find:
  "a_live now k c = Some i \<longleftrightarrow> a_find k (aitems c) = Some i \<and> \<not> hard_expired now i"
  by (auto simp: a_live_def split: option.splits)

lemma a_live_ikey: "a_live now k c = Some i \<Longrightarrow> ikey i = k"
  by (auto simp: a_live_find dest: a_find_ikey)

lemmas a_op_defs = a_store_parts a_get_def a_remove_def a_retime_def a_count_def a_extend_def

text \<open>A response that carries a fresh CAS token.\<close>

definition issues_token :: "Request \<Rightarrow> Response \<Rightarrow> bool" where
  "issues_token req r \<longleftrightarrow> Err r = None \<and>
     Op req \<in> {OpSet, OpAdd, OpReplace, OpCas, OpTouch, OpIncr, OpDecr, OpAppend, OpPrepend}"

lemma a_step_cas:
  assumes "a_step en req c = (c', r)"
  shows "acas c' = (if issues_token req r then acas c + 1 else acas c)"
    and "issues_token req r \<Longrightarrow> respCas r = acas c'"
  using assms
  by (cases "Op req";
      auto simp: a_step_def a_op_defs issues_token_def Let_def split: option.splits if_splits
        sum.splits prod.splits)+

lemma a_step_config:
  assumes "a_step en req c = (c', r)"
  shows "attl c' = attl c" and "astale c' = astale c" and "amax c' = amax c"
  using assms
  by (cases "Op req";
      auto simp: a_step_def a_op_defs Let_def split: option.splits if_splits sum.splits prod.splits)+

lemma a_step_distinct:
  assumes "a_step en req c = (c', r)" and "keys_distinct (aitems c)"
  shows "keys_distinct (aitems c')"
  using assms
  by (cases "Op req";
      auto simp: a_step_def a_op_defs Let_def split: option.splits if_splits sum.splits prod.splits)

text \<open>What a request can do to the item of another key: nothing, or evict it.\<close>

lemma a_step_other:
  assumes st: "a_step en req c = (c', r)" and d: "keys_distinct (aitems c)" and k: "k \<noteq> reqKey req"
  shows "a_find k (aitems c') = a_find k (aitems c) \<or> a_find k (aitems c') = None"
    and "Op req \<in> {OpGet, OpDelete, OpTouch, OpIncr, OpDecr, OpStats} \<Longrightarrow>
      a_find k (aitems c') = a_find k (aitems c)"
proof -
  note mr = a_find_make_roomD[OF d, of k]
  show "a_find k (aitems c') = a_find k (aitems c) \<or> a_find k (aitems c') = None"
    using st k
    by (cases "Op req"; auto simp: a_step_def a_op_defs Let_def a_live_ikey mr
        split: option.splits if_splits sum.splits prod.splits dest!: a_live_ikey dest: a_find_ikey mr)
  show "Op req \<in> {OpGet, OpDelete, OpTouch, OpIncr, OpDecr, OpStats} \<Longrightarrow>
      a_find k (aitems c') = a_find k (aitems c)"
    using st k
    by (cases "Op req"; auto simp: a_step_def a_op_defs Let_def a_live_ikey
        split: option.splits if_splits sum.splits prod.splits dest!: a_live_ikey dest: a_find_ikey)
qed

lemma a_step_own:
  assumes st: "a_step en req c = (c', r)" and d: "keys_distinct (aitems c)"
    and f: "a_find (reqKey req) (aitems c') = Some i'"
  shows "issues_token req r \<and> icas i' = acas c' \<or>
    (\<exists>i. a_find (reqKey req) (aitems c) = Some i \<and> i' \<in> {i, i\<lparr>irefresh := True\<rparr>})"
  using st f
  by (cases "Op req"; auto simp: a_step_def a_op_defs Let_def issues_token_def
      split: option.splits if_splits sum.splits prod.splits dest: a_find_ikey dest!: a_live_ikey)

text \<open>Only the four storage commands clear the mark that a refresh is under way.\<close>

lemma a_step_refresh:
  assumes st: "a_step en req c = (c', r)" and d: "keys_distinct (aitems c)"
    and "\<not> (Op req \<in> {OpSet, OpAdd, OpReplace, OpCas} \<and> reqKey req = k)"
    and f: "a_find k (aitems c') = Some i'"
  obtains i where "a_find k (aitems c) = Some i" "irefresh i \<Longrightarrow> irefresh i'"
proof (cases "k = reqKey req")
  case False
  with a_step_other(1)[OF st d] f that show thesis by force
next
  case True
  have "\<exists>i. a_find k (aitems c) = Some i \<and> (irefresh i \<longrightarrow> irefresh i')"
    using st f assms(3) True
    by (cases "Op req"; auto simp: a_step_def a_op_defs Let_def a_live_find
        split: option.splits if_splits sum.splits prod.splits dest: a_find_ikey)
  with that show thesis by blast
qed

lemma a_get_refresh:
  assumes "a_step en req c = (c', r)" and "Op req = OpGet" and "Flags r = 3"
  obtains i i' where "a_find (reqKey req) (aitems c) = Some i" "\<not> irefresh i"
    "a_find (reqKey req) (aitems c') = Some i'" "irefresh i'"
  using assms by (auto simp: a_step_def a_get_def Let_def split: option.splits if_splits dest: a_find_ikey)

section \<open>The byte account\<close>

text \<open>How far the account \<open>usedMemory\<close> is below the bytes really stored.\<close>

definition drift :: "acache \<Rightarrow> int" where
  "drift c = total_size (aitems c) - aused c"

lemma drift_make_room [simp]: "drift (a_make_room n c) = drift c"
proof -
  obtain gone where "aitems c = gone @ aitems (a_make_room n c)"
    "aused (a_make_room n c) = aused c - total_size gone" by (rule a_make_room_split)
  then show ?thesis by (simp add: drift_def)
qed

lemma size_of_key_make_room:
  assumes "keys_distinct (aitems c)"
  shows "size_of_key k (aitems (a_make_room n c)) \<le> size_of_key k (aitems c)"
  using a_find_make_room[OF assms, of k n]
  by (auto simp: size_of_key_def split: option.splits)

text \<open>
  An overwrite accounts for the difference to the old entry; when making room has evicted
  that very entry, its size is subtracted twice.
\<close>

lemma a_store_drift:
  assumes "keys_distinct (aitems c)"
  shows "drift (fst (a_store en k v ttl c)) = drift c + size_of_key k (aitems c)
    - size_of_key k (aitems (a_make_room (int (length k + length v) - size_of_key k (aitems c)) c))"
  using assms drift_make_room[of "int (length k + length v) - size_of_key k (aitems c)" c]
  by (simp add: a_store_parts Let_def drift_def total_size_set isize_def)

lemma a_extend_drift:
  assumes "keys_distinct (aitems c)" and "a_live (UnixMilli (check_now en)) k c = Some i"
  shows "drift (fst (a_extend en k v pre c)) = drift c + size_of_key k (aitems c)
    - size_of_key k (aitems (a_make_room (int (length v)) c))"
proof -
  have "ikey i = k" "size_of_key k (aitems c) = isize i"
    using assms(2) by (auto simp: a_live_find size_of_key_def dest: a_find_ikey)
  then show ?thesis
    using assms drift_make_room[of "int (length v)" c]
    by (simp add: a_extend_def Let_def drift_def total_size_set isize_def)
qed

text \<open>Every other step keeps the account exact as it was.\<close>

lemma a_other_drift:
  assumes "keys_distinct (aitems c)"
  shows "drift (fst (a_get en k c)) = drift c \<and> drift (fst (a_remove k c)) = drift c \<and>
    drift (fst (a_retime en k ttl c)) = drift c \<and> drift (fst (a_count en k d up c)) = drift c"
proof (cases "a_find k (aitems c)")
  case None
  then show ?thesis
    by (simp add: a_get_def a_remove_def a_retime_def a_count_def a_live_def)
next
  case (Some i)
  then have "ikey i = k" "size_of_key k (aitems c) = isize i"
    by (auto simp: size_of_key_def dest: a_find_ikey)
  with Some assms show ?thesis
    by (auto simp: a_get_def a_remove_def a_retime_def a_count_def Let_def drift_def total_size_set
        total_size_delete isize_def a_live_def split: sum.splits prod.splits)
qed

lemma a_step_drift:
  assumes st: "a_step en req c = (c', r)" and d: "keys_distinct (aitems c)"
  shows "Op req \<noteq> OpFlushAll \<Longrightarrow> drift c \<le> drift c'"
    and "Op req = OpFlushAll \<Longrightarrow> drift c' = 0"
    and "Op req \<noteq> OpFlushAll \<Longrightarrow> amax c \<le> 0 \<or> a_find (reqKey req) (aitems c) = None \<Longrightarrow>
      drift c' = drift c"
proof -
  note dd = a_store_drift[OF d] a_extend_drift[OF d] a_other_drift[OF d]
  have store: "drift c \<le> drift (fst (a_store en k v ttl c))" for k v ttl
    using size_of_key_make_room[OF d] by (simp add: dd)
  have extend: "drift c \<le> drift (fst (a_extend en k v pre c))" for k v pre
    using size_of_key_make_room[OF d, of k]
    by (cases "a_live (UnixMilli (check_now en)) k c") (simp add: a_extend_def, simp add: dd)
  have step: "drift c' = drift (fst (a_step en req c))" using st by simp
  show "drift c \<le> drift c'" if "Op req \<noteq> OpFlushAll"
    using store extend dd that unfolding step
    by (cases "Op req"; auto simp: a_step_def Let_def split: option.splits)
  show "drift c' = 0" if "Op req = OpFlushAll"
    using st that by (auto simp: a_step_def drift_def)
  assume a: "amax c \<le> 0 \<or> a_find (reqKey req) (aitems c) = None"
  have store': "drift (fst (a_store en (reqKey req) v ttl c)) = drift c" for v ttl
    using a size_of_key_make_room[OF d, of "reqKey req"] a_find_make_room[OF d, of "reqKey req"]
    by (auto simp: dd a_make_room_unlimited size_of_key_def split: option.splits)
  have extend': "drift (fst (a_extend en (reqKey req) v pre c)) = drift c" for v pre
    using a
    by (cases "a_live (UnixMilli (check_now en)) (reqKey req) c")
      (simp add: a_extend_def, auto simp: dd a_make_room_unlimited a_live_find)
  show "drift c' = drift c" if "Op req \<noteq> OpFlushAll"
    using store' extend' dd that unfolding step
    by (cases "Op req"; auto simp: a_step_def Let_def split: option.splits)
qed

lemma a_step_drift_nonneg:
  "a_step en req c = (c', r) \<Longrightarrow> keys_distinct (aitems c) \<Longrightarrow> 0 \<le> drift c \<Longrightarrow> 0 \<le> drift c'"
  using a_step_drift(1,2)[of en req c c' r] by (cases "Op req = OpFlushAll") auto

lemma a_step_drift_zero:
  "a_step en req c = (c', r) \<Longrightarrow> keys_distinct (aitems c) \<Longrightarrow> amax c \<le> 0 \<Longrightarrow> drift c = 0 \<Longrightarrow>
   drift c' = 0"
  using a_step_drift(2,3)[of en req c c' r] by (cases "Op req = OpFlushAll") auto

section \<open>Background expiry\<close>

lemma a_find_filter:
  "keys_distinct its \<Longrightarrow> a_find k (filter P its) =
    (case a_find k its of None \<Rightarrow> None | Some i \<Rightarrow> if P i then Some i else None)"
  by (induction its)
    (auto simp: keys_distinct_Cons split: option.splits)

lemma total_size_filter:
  "total_size (filter P its) + total_size (filter (\<lambda>i. \<not> P i) its) = total_size its"
  by (induction its) auto

lemma a_expire_fields [simp]:
  "acas (a_expire now c) = acas c" "attl (a_expire now c) = attl c"
  "astale (a_expire now c) = astale c" "amax (a_expire now c) = amax c"
  "aevict (a_expire now c) = aevict c" "drift (a_expire now c) = drift c"
  using total_size_filter[of "hard_expired now" "aitems c"]
  by (simp_all add: a_expire_def drift_def)

lemma a_expire_distinct [simp]:
  "keys_distinct (aitems c) \<Longrightarrow> keys_distinct (aitems (a_expire now c))"
  by (simp add: a_expire_def keys_distinct_def distinct_map_filter)

lemma a_expire_find:
  "keys_distinct (aitems c) \<Longrightarrow> a_find k (aitems (a_expire now c)) = a_live now k c"
  by (simp add: a_expire_def a_find_filter a_live_def)
    (auto split: option.splits)

section \<open>Runs\<close>

lemma a_run_invariant:
  assumes "a_run evs c = (c', log)" and "P c"
    and "\<And>en req c c' r. P c \<Longrightarrow> a_step en req c = (c', r) \<Longrightarrow> P c'"
    and "\<And>now c. P c \<Longrightarrow> P (a_expire now c)"
  shows "P c'"
  using assms(1,2)
  by (induction evs c arbitrary: c' log rule: a_run.induct) (auto split: prod.splits intro: assms(3,4))

text \<open>The account never exceeds the bytes stored; without a limit it is exact.\<close>

lemma a_run_drift:
  assumes "a_run evs c = (c', log)" and "keys_distinct (aitems c)" and "drift c = 0"
  shows "0 \<le> drift c'" and "amax c \<le> 0 \<Longrightarrow> drift c' = 0"
proof -
  have "keys_distinct (aitems c') \<and> 0 \<le> drift c'"
    by (rule a_run_invariant[OF assms(1), where P = "\<lambda>x. keys_distinct (aitems x) \<and> 0 \<le> drift x"])
      (use assms in \<open>auto intro: a_step_distinct a_step_drift_nonneg\<close>)
  then show "0 \<le> drift c'" by simp
  have "keys_distinct (aitems c') \<and> amax c' = amax c \<and> drift c' = 0" if "amax c \<le> 0"
    by (rule a_run_invariant[OF assms(1), where P = "\<lambda>x. keys_distinct (aitems x) \<and> amax x = amax c \<and> drift x = 0"])
      (use assms that in \<open>auto intro: a_step_distinct a_step_drift_zero simp: a_step_config\<close>)
  then show "amax c \<le> 0 \<Longrightarrow> drift c' = 0" by simp
qed

text \<open>The tokens issued in a run are the values of the counter, one after the other.\<close>

definition tokens :: "log \<Rightarrow> uint64 list" where
  "tokens log = map (respCas \<circ> snd) (filter (\<lambda>(req, r). issues_token req r) log)"

lemma tokens_simps [simp]:
  "tokens [] = []"
  "tokens ((req, r) # log) = (if issues_token req r then respCas r # tokens log else tokens log)"
  "tokens (l1 @ l2) = tokens l1 @ tokens l2"
  by (simp_all add: tokens_def)

lemma a_run_tokens:
  assumes "a_run evs c = (c', log)"
  shows "tokens log = map (\<lambda>j. acas c + of_nat (Suc j)) [0..<length (tokens log)] \<and>
    acas c' = acas c + of_nat (length (tokens log)) \<and> length (tokens log) \<le> length evs"
  using assms
proof (induction evs c arbitrary: c' log rule: a_run.induct)
  case (2 en req evs c)
  obtain c1 r where st: "a_step en req c = (c1, r)" by fastforce
  obtain log1 where run: "a_run evs c1 = (c', log1)" "log = (req, r) # log1"
    using 2(2) st by (auto split: prod.splits)
  note IH = 2(1)[OF st[symmetric] run(1)]
  note cas = a_step_cas[OF st]
  show ?case
  proof (cases "issues_token req r")
    case True
    then have "tokens log1 = map (\<lambda>j. acas c + 1 + of_nat (Suc j)) [0..<length (tokens log1)]"
      "acas c' = acas c + 1 + of_nat (length (tokens log1))" "length (tokens log1) \<le> length evs"
      using IH cas by auto
    moreover have "map (\<lambda>j. acas c + of_nat (Suc j)) [0..<Suc n] =
        (acas c + 1) # map (\<lambda>j. acas c + 1 + of_nat (Suc j)) [0..<n]" for n
      by (simp only: map_upt_Suc) (simp add: add.assoc)
    ultimately show ?thesis using True cas run(2) by (simp add: add.assoc) 
  qed (use IH cas run(2) in auto)
qed auto

lemma tokens_distinct:
  assumes "a_run evs c = (c', log)" and "length evs < 2 ^ 64"
  shows "distinct (tokens log)"
proof -
  have "tokens log = map (\<lambda>j. acas c + of_nat (Suc j)) [0..<length (tokens log)]"
    and len: "length (tokens log) < 2 ^ 64"
    using a_run_tokens[OF assms(1)] assms(2) by auto
  moreover have "inj_on (\<lambda>j. acas c + of_nat (Suc j)) {0..<length (tokens log)}"
    using len by (intro inj_onI) (auto simp: word_of_nat_eq_iff take_bit_nat_eq_self)
  ultimately show ?thesis by (metis distinct_map distinct_upt set_upt)
qed

section \<open>One refresh per stored value\<close>

definition refreshes :: "string \<Rightarrow> log \<Rightarrow> nat" where
  "refreshes k log = length (filter (\<lambda>(req, r). Op req = OpGet \<and> reqKey req = k \<and> Flags r = 3) log)"

fun stores_key :: "string \<Rightarrow> loop_event \<Rightarrow> bool" where
  "stores_key k (Serve en req) \<longleftrightarrow> Op req \<in> {OpSet, OpAdd, OpReplace, OpCas} \<and> reqKey req = k"
| "stores_key k (Tick now) \<longleftrightarrow> False"

definition may_refresh :: "string \<Rightarrow> acache \<Rightarrow> nat" where
  "may_refresh k c =
    (case a_find k (aitems c) of None \<Rightarrow> 0 | Some i \<Rightarrow> if irefresh i then 0 else 1)"

lemma may_refresh_step:
  assumes "a_step en req c = (c', r)" and "keys_distinct (aitems c)" and "\<not> stores_key k (Serve en req)"
  shows "may_refresh k c' \<le> may_refresh k c"
proof (cases "a_find k (aitems c')")
  case (Some i')
  with a_step_refresh[OF assms(1,2) _ Some] assms(3) obtain i
    where "a_find k (aitems c) = Some i" "irefresh i \<Longrightarrow> irefresh i'" by auto
  with Some show ?thesis by (auto simp: may_refresh_def)
qed (simp add: may_refresh_def)

lemma may_refresh_Get:
  assumes "a_step en req c = (c', r)" and "Op req = OpGet" and "Flags r = 3"
  shows "may_refresh (reqKey req) c = 1" and "may_refresh (reqKey req) c' = 0"
  by (rule a_get_refresh[OF assms]; simp add: may_refresh_def)+

lemma a_run_refreshes:
  assumes "a_run evs c = (c', log)" and "keys_distinct (aitems c)" and "\<forall>ev \<in> set evs. \<not> stores_key k ev"
  shows "refreshes k log \<le> may_refresh k c"
  using assms
proof (induction evs c arbitrary: c' log rule: a_run.induct)
  case (2 en req evs c)
  obtain c1 r where st: "a_step en req c = (c1, r)" by fastforce
  obtain log1 where run: "a_run evs c1 = (c', log1)" "log = (req, r) # log1"
    using 2(2) st by (auto split: prod.splits)
  have IH: "refreshes k log1 \<le> may_refresh k c1"
    using 2(1)[OF st[symmetric] run(1)] a_step_distinct[OF st 2(3)] 2(4) by simp
  have "may_refresh k c1 \<le> may_refresh k c" using may_refresh_step[OF st 2(3)] 2(4) by simp
  with IH show ?case
    using may_refresh_Get[OF st] run(2) by (auto simp: refreshes_def)
next
  case (3 now evs c)
  have "may_refresh k (a_expire (UnixMilli now) c) \<le> may_refresh k c"
    using 3(3) by (auto simp: may_refresh_def a_expire_find a_live_def split: option.splits)
  moreover have "refreshes k log \<le> may_refresh k (a_expire (UnixMilli now) c)"
    using 3 by simp
  ultimately show ?case by simp
qed (simp add: refreshes_def)

section \<open>A token identifies what was stored\<close>

text \<open>Every stored item carries a token issued since the counter started at \<open>c0\<close>.\<close>

definition token_inv :: "uint64 \<Rightarrow> nat \<Rightarrow> acache \<Rightarrow> bool" where
  "token_inv c0 m c \<longleftrightarrow> acas c = c0 + of_nat m \<and>
    (\<forall>k i. a_find k (aitems c) = Some i \<longrightarrow> (\<exists>j \<le> m. icas i = c0 + of_nat j))"

lemma token_inv_step:
  assumes st: "a_step en req c = (c', r)" and d: "keys_distinct (aitems c)" and t: "token_inv c0 m c"
  shows "\<exists>m' \<in> {m, Suc m}. token_inv c0 m' c'"
proof -
  define m' where "m' = (if issues_token req r then Suc m else m)"
  have acas: "acas c' = c0 + of_nat m'"
    using t a_step_cas[OF st] by (simp add: token_inv_def m'_def)
  have "\<exists>j \<le> m'. icas i' = c0 + of_nat j" if f: "a_find k (aitems c') = Some i'" for k i'
  proof -
    have "icas i' = acas c' \<or> (\<exists>i. a_find k (aitems c) = Some i \<and> icas i' = icas i)"
    proof (cases "k = reqKey req")
      case True
      with a_step_own[OF st d, of i'] f show ?thesis by auto
    next
      case False
      with a_step_other(1)[OF st d False] f show ?thesis by (metis option.distinct(1))
    qed
    then show ?thesis
    proof
      assume "icas i' = acas c'"
      with acas show ?thesis by auto
    next
      assume "\<exists>i. a_find k (aitems c) = Some i \<and> icas i' = icas i"
      then obtain j where "j \<le> m" "icas i' = c0 + of_nat j" using t by (fastforce simp: token_inv_def)
      then show ?thesis by (intro exI[of _ j]) (simp add: m'_def)
    qed
  qed
  with acas show ?thesis unfolding token_inv_def m'_def by (auto split: if_splits)
qed

lemma token_inv_expire:
  "keys_distinct (aitems c) \<Longrightarrow> token_inv c0 m c \<Longrightarrow> token_inv c0 m (a_expire now c)"
  by (auto simp: token_inv_def a_expire_find a_live_def split: option.splits if_splits)

lemma token_inv_run:
  assumes "a_run evs c = (c', log)" and "keys_distinct (aitems c)" and "token_inv c0 m c"
  shows "\<exists>m' \<le> m + length evs. token_inv c0 m' c'"
  using assms
proof (induction evs c arbitrary: c' log m rule: a_run.induct)
  case (2 en req evs c)
  obtain c1 r where st: "a_step en req c = (c1, r)" by fastforce
  obtain log1 where run: "a_run evs c1 = (c', log1)" using 2(2) st by (auto split: prod.splits)
  obtain m1 where "m1 \<in> {m, Suc m}" and t1: "token_inv c0 m1 c1"
    using token_inv_step[OF st 2(3,4)] by (elim bexE)
  then have "m1 \<le> Suc m" by auto
  note m1 = this t1
  obtain m' where "m' \<le> m1 + length evs" "token_inv c0 m' c'"
    using 2(1)[OF st[symmetric] run a_step_distinct[OF st 2(3)] t1] by blast
  with m1 show ?case by (intro exI[of _ m']) simp
next
  case (3 now evs c)
  have "a_run evs (a_expire (UnixMilli now) c) = (c', log)" using 3(2) by simp
  from 3(1)[OF this a_expire_distinct[OF 3(3)] token_inv_expire[OF 3(3,4)]]
  obtain m' where "m' \<le> m + length evs" "token_inv c0 m' c'" by blast
  then show ?case by (intro exI[of _ m']) simp
qed auto

lemma of_nat_word_inj:
  "(c0 :: uint64) + of_nat j = c0 + of_nat j' \<Longrightarrow> j < 2 ^ 64 \<Longrightarrow> j' < 2 ^ 64 \<Longrightarrow> j = j'"
  by (simp add: word_of_nat_eq_iff take_bit_nat_eq_self)

text \<open>An item that carries an old token is the item that carried it then.\<close>

lemma a_run_same_token:
  assumes "a_run evs c = (c', log)" and "keys_distinct (aitems c)" and "token_inv c0 m c"
    and "m + length evs < 2 ^ 64" and "a_find k (aitems c') = Some i'"
    and "icas i' = c0 + of_nat j" and "j \<le> m"
  shows "\<exists>i. a_find k (aitems c) = Some i \<and> i' \<in> {i, i\<lparr>irefresh := True\<rparr>}"
  using assms
proof (induction evs c arbitrary: c' log m rule: a_run.induct)
  case (2 en req evs c)
  obtain c1 r where st: "a_step en req c = (c1, r)" by fastforce
  obtain log1 where run: "a_run evs c1 = (c', log1)" using 2(2) st by (auto split: prod.splits)
  obtain m1 where m1: "m1 \<in> {m, Suc m}" "token_inv c0 m1 c1" using token_inv_step[OF st 2(3,4)] by auto
  then have "m1 + length evs < 2 ^ 64" "j \<le> m1" using 2(5,8) by auto
  with 2(1)[OF st[symmetric] run a_step_distinct[OF st 2(3)] m1(2) _ 2(6,7)]
  obtain i1 where i1: "a_find k (aitems c1) = Some i1" "i' \<in> {i1, i1\<lparr>irefresh := True\<rparr>}" by auto
  then have tok: "icas i1 = c0 + of_nat j" using 2(7) by auto
  show ?case
  proof (cases "k = reqKey req")
    case False
    then have "a_find k (aitems c) = Some i1"
      using a_step_other(1)[OF st 2(3) False] i1(1) by (metis option.distinct(1))
    with i1 show ?thesis by blast
  next
    case True
    have "\<not> (issues_token req r \<and> icas i1 = acas c1)"
    proof
      assume a: "issues_token req r \<and> icas i1 = acas c1"
      then have "c0 + of_nat j = c0 + of_nat (Suc m)"
        using tok a_step_cas(1)[OF st] 2(4) by (simp add: token_inv_def)
      then have "j = Suc m" by (rule of_nat_word_inj) (use 2(5,8) in auto)
      with 2(8) show False by simp
    qed
    then obtain i where "a_find k (aitems c) = Some i" "i1 \<in> {i, i\<lparr>irefresh := True\<rparr>}"
      using a_step_own[OF st 2(3), of i1] i1(1) True by blast
    with i1(2) show ?thesis by auto
  qed
next
  case (3 now evs c)
  have "token_inv c0 m (a_expire (UnixMilli now) c)" using token_inv_expire 3(3,4) by blast
  moreover have "a_run evs (a_expire (UnixMilli now) c) = (c', log)" "m + length evs < 2 ^ 64"
    using 3(2,5) by simp_all
  ultimately obtain i where i: "a_find k (aitems (a_expire (UnixMilli now) c)) = Some i"
    "i' \<in> {i, i\<lparr>irefresh := True\<rparr>}"
    using 3(1)[OF _ a_expire_distinct[OF 3(3)] _ _ 3(6,7,8)] by blast
  then have "a_find k (aitems c) = Some i" using 3(3) by (simp add: a_expire_find a_live_find)
  with i(2) show ?case by blast
qed auto

lemma token_inv_get:
  assumes st: "a_step en req c = (c', r)" and d: "keys_distinct (aitems c)" and t: "token_inv c0 m c"
    and op: "Op req = OpGet"
  shows "token_inv c0 m c'"
proof -
  have "\<exists>i. a_find k (aitems c) = Some i \<and> icas i' = icas i" if "a_find k (aitems c') = Some i'" for k i'
  proof (cases "k = reqKey req")
    case True
    with a_step_own[OF st d, of i'] that op show ?thesis by (auto simp: issues_token_def)
  next
    case False
    with a_step_other(2)[OF st d False] that op have "a_find k (aitems c) = Some i'" by simp
    then show ?thesis by blast
  qed
  then show ?thesis
    using t a_step_cas(1)[OF st] op by (fastforce simp: token_inv_def issues_token_def)
qed

text \<open>What a successful get or CAS tells about the item.\<close>

lemma a_get_read:
  assumes "a_step en req c = (c', r)" and "Op req = OpGet" and "Err r = None"
  shows "\<exists>i. a_find (reqKey req) (aitems c) = Some i \<and> ival i = respValue r \<and> icas i = respCas r"
  using assms by (auto simp: a_step_def a_get_def Let_def split: option.splits if_splits)

lemma a_cas_read:
  assumes "a_step en req c = (c', r)" and "Op req = OpCas" and "Err r = None"
  shows "\<exists>i. a_find (reqKey req) (aitems c) = Some i \<and> icas i = reqCas req"
  using assms by (auto simp: a_step_def a_live_find Let_def split: option.splits if_splits)

lemma a_step_hit:
  assumes st: "a_step en req c = (c', r)" and op: "Op req \<in> {OpGet, OpTouch, OpIncr, OpDecr}"
    and ok: "Err r = None"
  shows "\<exists>i. aitems c' = a_delete (reqKey req) (aitems c) @ [i] \<and> ikey i = reqKey req"
proof (cases "a_find (reqKey req) (aitems c)")
  case None
  with st op ok show ?thesis by (auto simp: a_step_def a_get_def a_retime_def a_count_def a_live_def Let_def)
next
  case (Some i)
  then have k: "ikey i = reqKey req" by (rule a_find_ikey)
  consider "Op req = OpGet" | "Op req = OpTouch" | "Op req = OpIncr" | "Op req = OpDecr" using op by auto
  then show ?thesis
    by cases (use st ok Some k in \<open>auto simp: a_step_def a_get_def a_retime_def a_count_def a_live_def Let_def
      a_set_def split: if_splits sum.splits prod.splits\<close>)
qed

end
