(* ===== verification/WorkerProps.thy ===== *)
theory WorkerProps
  imports WorkerRefine CacheLaws
begin

text \<open>
  What the refinement gives for the worker itself: the properties of the request handlers,
  of background expiry and of whole runs of the worker's loop, stated over the worker's own
  state. The vocabulary of the statements is small: the item stored under a key, the bytes
  stored, and the worker after a run from \<open>NewWorker\<close>.
\<close>

definition stored :: "Worker \<Rightarrow> string \<Rightarrow> item option" where
  "stored w k = map_option (\<lambda>r. abs_item (deref (index w) r)) (Index_Get (index w) k)"

definition live_item :: "env \<Rightarrow> Worker \<Rightarrow> string \<Rightarrow> item option" where
  "live_item en w k =
    (case stored w k of
      None \<Rightarrow> None
    | Some i \<Rightarrow> if hard_expired (UnixMilli (check_now en)) i then None else Some i)"

definition bytes_stored :: "Worker \<Rightarrow> int" where
  "bytes_stored w = total_size (items (index w))"

text \<open>The worker after a run of its loop, and the log of that run.\<close>

definition after :: "loop_event list \<Rightarrow> Worker \<Rightarrow> Worker" where
  "after evs w = fst (the (run_loop evs w))"

definition log_of :: "loop_event list \<Rightarrow> Worker \<Rightarrow> log" where
  "log_of evs w = snd (the (run_loop evs w))"

lemma stored_find: "worker_inv w \<Longrightarrow> stored w k = a_find k (items (index w))"
  by (simp add: stored_def ix.get_contents worker_inv_def)

lemma live_item_find:
  "worker_inv w \<Longrightarrow> live_item en w k = a_live (UnixMilli (check_now en)) k (abs_worker w)"
  by (simp add: live_item_def stored_find a_live_def)

lemma worker_distinct: "worker_inv w \<Longrightarrow> keys_distinct (items (index w))"
  by (simp add: worker_inv_def ix.distinct)

lemma drift_worker: "drift (abs_worker w) = bytes_stored w - usedMemory w"
  by (simp add: drift_def bytes_stored_def)

lemma run_after:
  assumes "worker_inv w"
  shows "run_loop evs w = Some (after evs w, log_of evs w)" and "worker_inv (after evs w)"
    and "a_run evs (abs_worker w) = (abs_worker (after evs w), log_of evs w)"
  using run_loop_refines[OF assms, of evs] by (auto simp: after_def log_of_def)

declare run_after(2) [simp]

text \<open>The worker after one request, and its answer.\<close>

definition next_worker :: "env \<Rightarrow> Request \<Rightarrow> Worker \<Rightarrow> Worker" where
  "next_worker en req w = fst (the (handleRequest en req w))"

definition answer :: "env \<Rightarrow> Request \<Rightarrow> Worker \<Rightarrow> Response" where
  "answer en req w = snd (the (handleRequest en req w))"

lemma serve:
  assumes "worker_inv w"
  shows "handleRequest en req w = Some (next_worker en req w, answer en req w)"
    and "worker_inv (next_worker en req w)"
    and "a_step en req (abs_worker w) = (abs_worker (next_worker en req w), answer en req w)"
  using handleRequest_refines[OF assms, of en req]
  by (auto simp: next_worker_def answer_def implements_def prod_eq_iff)

declare serve(2) [simp]

lemma next_abs: "worker_inv w \<Longrightarrow> abs_worker (next_worker en req w) = fst (a_step en req (abs_worker w))"
  by (simp add: serve(3))

lemma answer_abs: "worker_inv w \<Longrightarrow> answer en req w = snd (a_step en req (abs_worker w))"
  by (simp add: serve(3))

lemma next_fields:
  assumes "worker_inv w"
  shows "items (index (next_worker en req w)) = aitems (fst (a_step en req (abs_worker w)))"
    "usedMemory (next_worker en req w) = aused (fst (a_step en req (abs_worker w)))"
    "evictions (next_worker en req w) = aevict (fst (a_step en req (abs_worker w)))"
    "casCounter (next_worker en req w) = acas (fst (a_step en req (abs_worker w)))"
  using serve(3)[OF assms, of en req] by simp_all

text \<open>Requests and times for the concrete instances.\<close>

definition at_time :: "int \<Rightarrow> env" where
  "at_time t = \<lparr>check_now = t, store_now = t, oor_int = 0\<rparr>"

definition mk_req :: "OpType \<Rightarrow> string \<Rightarrow> bytes \<Rightarrow> int \<Rightarrow> Request" where
  "mk_req oper k v ttl = \<lparr>Op = oper, reqKey = k, reqValue = v, TTL = ttl, reqCas = 0, Delta = 0\<rparr>"

section \<open>Runs of the worker's loop\<close>

text \<open>
  C1. From a new worker, every sequence of requests and timer ticks is served to the end:
  no eviction, expiry or heap loop fails to return. The responses and the final state are
  those of the abstract cache, a list of items in order of recency, and the index, its expiry
  heap and its recency list stay consistent.
\<close>

theorem worker_runs_implement_cache:
  "\<exists>w log. run_loop evs (NewWorker now ttl mx mult) = Some (w, log) \<and> worker_inv w \<and>
     a_run evs \<lparr>aitems = [], acas = of_int now, aused = 0, aevict = 0, attl = ttl,
       astale = mult, amax = mx\<rparr> = (abs_worker w, log)"
  using run_loop_refines[OF worker_inv_New, of evs now ttl mx mult] by (simp add: abs_worker_New)

text \<open>
  C31. CAS tokens are never reused: in a run of fewer than \<open>2 ^ 64\<close> events, the tokens that
  successful storage, touch and arithmetic requests return are pairwise distinct, and they are
  the successive values of the counter.
\<close>

theorem cas_tokens_unique:
  assumes "worker_inv w" and "length evs < 2 ^ 64"
  shows "distinct (tokens (log_of evs w)) \<and>
    tokens (log_of evs w) = map (\<lambda>j. casCounter w + of_nat (Suc j)) [0..<length (tokens (log_of evs w))]"
  using tokens_distinct[OF run_after(3)[OF assms(1)] assms(2)]
    a_run_tokens[OF run_after(3)[OF assms(1)], of evs] by simp

definition two_sets :: "loop_event list" where
  "two_sets = [Serve (at_time 0) (mk_req OpSet ''a'' ''1'' 0), Tick 0,
    Serve (at_time 5) (mk_req OpSet ''a'' ''23'' 1000000000)]"

theorem cas_tokens_unique_witness:
  "distinct (tokens (log_of two_sets (NewWorker 7 0 0 two64))) \<and>
   tokens (log_of two_sets (NewWorker 7 0 0 two64)) = [8, 9]"
proof -
  have "length two_sets < 2 ^ 64" by (simp add: two_sets_def)
  from cas_tokens_unique[OF worker_inv_New this, of 7 0 0 two64]
  have "distinct (tokens (log_of two_sets (NewWorker 7 0 0 two64)))" by blast
  moreover have "tokens (log_of two_sets (NewWorker 7 0 0 two64)) = [8, 9]" by code_simp
  ultimately show ?thesis by blast
qed

text \<open>
  C4. A compare-and-swap that succeeds replaces exactly what its client read: if a get returned
  a value with token \<open>c\<close> and a later CAS with \<open>c\<close> succeeds, the item it overwrites still has that
  value, its expiry times and its token, whatever requests came in between. The total number
  of events must be below \<open>2 ^ 64\<close>.
\<close>

theorem cas_detects_change:
  assumes w1: "w1 = after evs1 (NewWorker now ttl mx mult)"
    and w3: "w3 = after evs2 (next_worker en1 req1 w1)"
    and few: "length evs1 + length evs2 < 2 ^ 64"
    and get: "Op req1 = OpGet" "Err (answer en1 req1 w1) = None"
    and cas: "Op req2 = OpCas" "Err (answer en2 req2 w3) = None"
    and same: "reqKey req2 = reqKey req1" "reqCas req2 = respCas (answer en1 req1 w1)"
  shows "\<exists>i j. stored w1 (reqKey req1) = Some i \<and> ival i = respValue (answer en1 req1 w1) \<and>
    stored w3 (reqKey req2) = Some j \<and> j \<in> {i, i\<lparr>irefresh := True\<rparr>}"
proof -
  let ?k = "reqKey req1" and ?c0 = "of_int now :: uint64" and ?w2 = "next_worker en1 req1 w1"
  have i1: "worker_inv w1" by (simp add: w1)
  then have i2: "worker_inv ?w2" by simp
  then have i3: "worker_inv w3" by (simp add: w3)
  note d1 = worker_distinct[OF i1] note d2 = worker_distinct[OF i2]
  have d1': "keys_distinct (aitems (abs_worker w1))" using d1 by simp
  note st = serve(3)[OF i1, of en1 req1] note st2 = serve(3)[OF i3, of en2 req2]
  have "token_inv ?c0 0 (abs_worker (NewWorker now ttl mx mult))"
    by (simp add: abs_worker_New token_inv_def)
  from token_inv_run[OF run_after(3)[OF worker_inv_New] _ this]
  obtain m where m: "m \<le> length evs1" "token_inv ?c0 m (abs_worker w1)"
    unfolding w1 by (auto simp: abs_worker_New)
  obtain i where i: "a_find ?k (items (index w1)) = Some i" "ival i = respValue (answer en1 req1 w1)"
    "icas i = reqCas req2"
    using a_get_read[OF st get] same by auto
  then obtain j where j: "j \<le> m" "reqCas req2 = ?c0 + of_nat j"
    using m(2) by (fastforce simp: token_inv_def)
  have "token_inv ?c0 m (abs_worker ?w2)"
    using token_inv_get[OF st d1' m(2) get(1)] .
  moreover obtain i3 where i3': "a_find ?k (items (index w3)) = Some i3" "icas i3 = reqCas req2"
    using a_cas_read[OF st2 cas] same by auto
  ultimately obtain i2 where i2: "a_find ?k (items (index ?w2)) = Some i2" "i3 \<in> {i2, i2\<lparr>irefresh := True\<rparr>}"
    using a_run_same_token[OF run_after(3)[OF i2, of evs2] _ _ _ _ _ j(1)] d2 few m(1) j(2)
    unfolding w3 by fastforce
  then have "i2 \<in> {i, i\<lparr>irefresh := True\<rparr>}"
    using a_step_own[OF st] d1 i(1) get(1) by (fastforce simp: issues_token_def)
  with i i2 i3' show ?thesis
    using stored_find[OF i1, of ?k] stored_find[OF i3, of ?k] same by auto
qed

theorem cas_detects_change_witness:
  "\<exists>i j. stored (after two_sets (NewWorker 7 0 0 two64)) ''a'' = Some i \<and> ival i = ''23'' \<and>
    stored (after [Tick 6] (next_worker (at_time 6) (mk_req OpGet ''a'' [] 0)
      (after two_sets (NewWorker 7 0 0 two64)))) ''a'' = Some j \<and> j \<in> {i, i\<lparr>irefresh := True\<rparr>}"
proof -
  let ?w1 = "after two_sets (NewWorker 7 0 0 two64)" and ?get = "mk_req OpGet ''a'' [] 0"
  let ?w3 = "after [Tick 6] (next_worker (at_time 6) ?get ?w1)"
  let ?cas = "(mk_req OpCas ''a'' ''x'' 0)\<lparr>reqCas := 9\<rparr>"
  have few: "length two_sets + length [Tick 6] < 2 ^ 64" by (simp add: two_sets_def)
  have "Op ?get = OpGet" "Op ?cas = OpCas" "reqKey ?cas = reqKey ?get" by (simp_all add: mk_req_def)
  moreover have "Err (answer (at_time 6) ?get ?w1) = None" by code_simp
  moreover have "reqCas ?cas = respCas (answer (at_time 6) ?get ?w1)" by code_simp
  moreover have "Err (answer (at_time 8) ?cas ?w3) = None" by code_simp
  ultimately have "\<exists>i j. stored ?w1 (reqKey ?get) = Some i \<and> ival i = respValue (answer (at_time 6) ?get ?w1) \<and>
      stored ?w3 (reqKey ?cas) = Some j \<and> j \<in> {i, i\<lparr>irefresh := True\<rparr>}"
    using cas_detects_change[OF refl refl few, where ?en1.0 = "at_time 6" and ?req1.0 = ?get and
        now = 7 and ttl = 0 and mx = 0 and mult = two64 and ?req2.0 = ?cas and ?en2.0 = "at_time 8"] by blast
  moreover have "respValue (answer (at_time 6) ?get ?w1) = ''23''" by code_simp
  ultimately show ?thesis by (simp add: mk_req_def)
qed

text \<open>
  C9. The stale-data protocol tells at most one client to refresh: in any run of the worker, as
  long as no storage command is sent for the key, at most one get of that key is answered with
  flag 3, whatever else happens to the key (touches, arithmetic, expiry, eviction).
\<close>

theorem refresh_at_most_once:
  assumes "worker_inv w" and "\<forall>ev \<in> set evs. \<not> stores_key k ev"
  shows "refreshes k (log_of evs w) \<le> 1"
proof -
  have "refreshes k (log_of evs w) \<le> may_refresh k (abs_worker w)"
    using a_run_refreshes[OF run_after(3)[OF assms(1)] _ assms(2)] worker_distinct[OF assms(1)] by simp
  also have "\<dots> \<le> 1" by (simp add: may_refresh_def split: option.split)
  finally show ?thesis .
qed

definition stale_gets :: "loop_event list" where
  "stale_gets = [Serve (at_time 1000000000) (mk_req OpGet ''a'' [] 0),
     Serve (at_time 1000000007) (mk_req OpTouch ''b'' [] 0),
     Serve (at_time 1500000000) (mk_req OpGet ''a'' [] 0)]"

definition short_lived :: Worker where
  "short_lived = after [Serve (at_time 5) (mk_req OpSet ''a'' ''1'' 1000000000)] (NewWorker 7 0 0 two64)"

theorem refresh_at_most_once_witness:
  "refreshes ''a'' (log_of stale_gets short_lived) \<le> 1 \<and>
   map (Flags \<circ> snd) (log_of stale_gets short_lived) = [3, 0, 1]"
proof -
  have "worker_inv short_lived" by (simp add: short_lived_def)
  moreover have "\<forall>ev \<in> set stale_gets. \<not> stores_key ''a'' ev" by code_simp
  ultimately have "refreshes ''a'' (log_of stale_gets short_lived) \<le> 1" by (rule refresh_at_most_once)
  moreover have "map (Flags \<circ> snd) (log_of stale_gets short_lived) = [3, 0, 1]" by code_simp
  ultimately show ?thesis by blast
qed

text \<open>
  C18. The byte account over whole runs: from a new worker, \<open>usedMemory\<close> never exceeds the bytes
  really stored, and it equals them when there is no memory limit.
\<close>

theorem account_never_overcounts:
  "usedMemory (after evs (NewWorker now ttl mx mult)) \<le> bytes_stored (after evs (NewWorker now ttl mx mult)) \<and>
   (mx \<le> 0 \<longrightarrow> usedMemory (after evs (NewWorker now ttl mx mult)) = bytes_stored (after evs (NewWorker now ttl mx mult)))"
  using a_run_drift[OF run_after(3)[OF worker_inv_New[of now ttl mx mult], of evs]]
  by (simp add: drift_worker abs_worker_New) (simp add: drift_def)

theorem account_never_overcounts_witness:
  "usedMemory (after two_sets (NewWorker 7 0 0 two64)) = bytes_stored (after two_sets (NewWorker 7 0 0 two64)) \<and>
   usedMemory (after two_sets (NewWorker 7 0 0 two64)) = 3"
proof -
  have "usedMemory (after two_sets (NewWorker 7 0 0 two64)) = bytes_stored (after two_sets (NewWorker 7 0 0 two64))"
    using account_never_overcounts[of two_sets 7 0 0 two64] by simp
  moreover have "usedMemory (after two_sets (NewWorker 7 0 0 two64)) = 3" by code_simp
  ultimately show ?thesis by blast
qed

text \<open>What a set does to items and account; the properties below read it in different ways.\<close>

lemma set_effect:
  assumes inv: "worker_inv w" and op: "Op req = OpSet" and lim: "0 < maxMemory w"
    and need: "need = int (length (reqKey req) + length (reqValue req)) - size_of_key (reqKey req) (items (index w))"
    and w': "w' = next_worker en req w"
  shows "\<exists>gone kept i. items (index w) = gone @ kept \<and>
    items (index w') = a_delete (reqKey req) kept @ [i] \<and>
    ikey i = reqKey req \<and> ival i = reqValue req \<and> icas i = casCounter w + 1 \<and> \<not> irefresh i \<and>
    (need \<le> 0 \<longrightarrow> gone = []) \<and>
    (\<forall>pre j post. gone = pre @ j # post \<longrightarrow> usedMemory w - total_size pre + need > maxMemory w) \<and>
    (need \<le> 0 \<or> kept = [] \<or> usedMemory w - total_size gone + need \<le> maxMemory w) \<and>
    evictions w' = evictions w + of_nat (length gone) \<and>
    usedMemory w' = usedMemory w - total_size gone + need \<and>
    bytes_stored w' = bytes_stored w - total_size gone + need
      + (size_of_key (reqKey req) (items (index w)) - size_of_key (reqKey req) kept)"
proof -
  let ?k = "reqKey req" and ?c = "abs_worker w"
  let ?c1 = "a_make_room need ?c"
  obtain gone where g: "items (index w) = gone @ aitems ?c1"
    "aused ?c1 = usedMemory w - total_size gone" "aevict ?c1 = evictions w + of_nat (length gone)"
    by (rule a_make_room_split[of ?c need]) simp
  have d: "keys_distinct (aitems ?c1)" using worker_distinct[OF inv] by simp
  have min: "usedMemory w - total_size pre + need > maxMemory w" if "gone = pre @ j # post" for pre j post
  proof -
    have "0 < need" using g(1) that lim by (auto simp: a_make_room_def split: if_splits)
    then obtain u n where "evict_list (maxMemory w - need) (usedMemory w) (evictions w) (items (index w)) = (u, n, aitems ?c1)"
      using lim by (cases "evict_list (maxMemory w - need) (usedMemory w) (evictions w) (items (index w))")
        (auto simp: a_make_room_def a_evict_def)
    from evict_list_minimal[OF this, where gone = pre and i = j and rest = post] g(1) that show ?thesis by simp
  qed
  have bud: "need \<le> 0 \<or> aitems ?c1 = [] \<or> usedMemory w - total_size gone + need \<le> maxMemory w"
    using a_make_room_budget[of need ?c] lim g(2) by auto
  have st: "a_step en req ?c = a_store en ?k (reqValue req) (TTL req) ?c" by (simp add: a_step_def op Let_def)
  have n: "int (length ?k) + int (length (reqValue req)) - size_of_key ?k (items (index w)) = need"
    by (simp add: need)
  obtain i where i: "items (index w') = a_delete ?k (aitems ?c1) @ [i]" "ikey i = ?k"
    "ival i = reqValue req" "icas i = casCounter w + 1" "\<not> irefresh i"
    by (simp add: w' next_fields[OF inv] st a_store_parts Let_def n a_set_def)
  have u: "usedMemory w' = usedMemory w - total_size gone + need" "evictions w' = evictions w + of_nat (length gone)"
    using g(2,3) by (simp_all add: w' next_fields[OF inv] st a_store_parts Let_def n)
  have "isize i = need + size_of_key ?k (items (index w))" using i need by (simp add: isize_def)
  then have b: "bytes_stored w' = bytes_stored w - total_size gone + need
      + (size_of_key ?k (items (index w)) - size_of_key ?k (aitems ?c1))"
    using g(1) i d by (simp add: bytes_stored_def total_size_delete)
  have "need \<le> 0 \<longrightarrow> gone = []" using g(1) by (auto simp: a_make_room_def)
  then show ?thesis
    using g(1) i min bud u b by (intro exI[of _ gone] exI[of _ "aitems ?c1"] exI[of _ i]) blast
qed

text \<open>
  C17. A set, exactly: the items stored before are cut into a least recently used prefix that is
  evicted and a rest that is kept in order, and the new item becomes the most recently used.
  Nothing is evicted without need, eviction stops as soon as the account allows the new entry,
  and every evicted item is counted. The account itself is off by the size of the old entry
  when the eviction has hit the very key that is being overwritten.
\<close>

theorem set_evicts_lru_prefix:
  assumes inv: "worker_inv w" and op: "Op req = OpSet" and lim: "0 < maxMemory w"
    and need: "need = int (length (reqKey req) + length (reqValue req)) - size_of_key (reqKey req) (items (index w))"
    and w': "w' = next_worker en req w"
  shows "\<exists>gone kept i. items (index w) = gone @ kept \<and>
    items (index w') = a_delete (reqKey req) kept @ [i] \<and>
    ikey i = reqKey req \<and> ival i = reqValue req \<and> icas i = casCounter w + 1 \<and> \<not> irefresh i \<and>
    (need \<le> 0 \<longrightarrow> gone = []) \<and>
    (\<forall>pre j post. gone = pre @ j # post \<longrightarrow> usedMemory w - total_size pre + need > maxMemory w) \<and>
    (need \<le> 0 \<or> kept = [] \<or> usedMemory w - total_size gone + need \<le> maxMemory w) \<and>
    evictions w' = evictions w + of_nat (length gone) \<and>
    usedMemory w' = usedMemory w - total_size gone + need \<and>
    bytes_stored w' = bytes_stored w - total_size gone + need
      + (size_of_key (reqKey req) (items (index w)) - size_of_key (reqKey req) kept)"
  using assms by (rule set_effect)

definition small_worker :: Worker where
  "small_worker = after [Serve (at_time 0) (mk_req OpSet ''a'' ''1234'' 0),
     Serve (at_time 0) (mk_req OpSet ''b'' ''1234'' 0)] (NewWorker 0 0 10 two64)"

lemma worker_inv_small [simp]: "worker_inv small_worker"
  by (simp add: small_worker_def)

theorem set_evicts_lru_prefix_witness:
  "\<exists>gone kept. items (index small_worker) = gone @ kept \<and>
     evictions (next_worker (at_time 0) (mk_req OpSet ''c'' ''x'' 0) small_worker) =
       evictions small_worker + of_nat (length gone) \<and>
     evictions (next_worker (at_time 0) (mk_req OpSet ''c'' ''x'' 0) small_worker) = 1"
proof -
  let ?r = "mk_req OpSet ''c'' ''x'' 0"
  have "Op ?r = OpSet" by (simp add: mk_req_def)
  moreover have "0 < maxMemory small_worker" by code_simp
  moreover have "evictions (next_worker (at_time 0) ?r small_worker) = 1" by code_simp
  ultimately show ?thesis
    using set_evicts_lru_prefix[OF worker_inv_small _ _ refl refl, of ?r "at_time 0"] by blast
qed

text \<open>
  With an exact account, storing a new key respects the memory limit: afterwards the bytes
  stored are within \<open>maxMemory\<close>, or the new item is alone in the cache. The account stays exact.
\<close>

theorem set_new_key_within_limit:
  assumes inv: "worker_inv w" and op: "Op req = OpSet" and lim: "0 < maxMemory w"
    and exact: "usedMemory w = bytes_stored w" and new: "stored w (reqKey req) = None"
    and nonempty: "reqKey req \<noteq> []" and w': "w' = next_worker en req w"
  shows "usedMemory w' = bytes_stored w' \<and>
    (bytes_stored w' \<le> maxMemory w \<or> length (items (index w')) = 1)"
proof -
  let ?k = "reqKey req" and ?c = "abs_worker w"
  let ?need = "int (length ?k + length (reqValue req))"
  let ?c1 = "a_make_room ?need ?c"
  have f: "a_find ?k (items (index w)) = None" using new stored_find[OF inv] by simp
  then have f1: "a_find ?k (aitems ?c1) = None"
    using a_find_make_room[of ?c ?k] worker_distinct[OF inv] by simp
  have st: "a_step en req ?c = a_store en ?k (reqValue req) (TTL req) ?c" by (simp add: a_step_def op Let_def)
  have pos: "0 < ?need" using nonempty by (cases "reqKey req") auto
  have sz: "size_of_key ?k (items (index w)) = 0" by (simp add: size_of_key_def f)
  have "drift (fst (a_step en req ?c)) = 0"
    using exact a_step_drift(3)[of en req ?c] f op worker_distinct[OF inv]
    by (cases "a_step en req ?c") (simp add: drift_worker)
  then have ex: "usedMemory w' = bytes_stored w'"
    using drift_worker[of w'] by (simp add: w' next_abs[OF inv])
  have "usedMemory w' = aused ?c1 + ?need"
    by (simp add: w' next_fields[OF inv] st a_store_parts Let_def sz)
  moreover have "length (items (index w')) = Suc (length (aitems ?c1))"
    using f1 by (simp add: w' next_fields[OF inv] st a_store_parts Let_def sz a_set_def a_delete_absent)
  ultimately show ?thesis
    using a_make_room_budget[OF pos, of ?c] lim ex by auto
qed

theorem set_new_key_within_limit_witness:
  "usedMemory (next_worker (at_time 0) (mk_req OpSet ''c'' ''x'' 0) small_worker) =
     bytes_stored (next_worker (at_time 0) (mk_req OpSet ''c'' ''x'' 0) small_worker) \<and>
   bytes_stored (next_worker (at_time 0) (mk_req OpSet ''c'' ''x'' 0) small_worker) = 7"
proof -
  let ?r = "mk_req OpSet ''c'' ''x'' 0"
  have "Op ?r = OpSet" "reqKey ?r \<noteq> []" by (simp_all add: mk_req_def)
  moreover have "0 < maxMemory small_worker" "usedMemory small_worker = bytes_stored small_worker"
    "stored small_worker (reqKey ?r) = None" by code_simp+
  ultimately have "usedMemory (next_worker (at_time 0) ?r small_worker) =
      bytes_stored (next_worker (at_time 0) ?r small_worker)"
    using set_new_key_within_limit[OF worker_inv_small _ _ _ _ _ refl, of ?r "at_time 0"] by blast
  moreover have "bytes_stored (next_worker (at_time 0) ?r small_worker) = 7" by code_simp
  ultimately show ?thesis by blast
qed

text \<open>
  Everything up to the old entry of the key is evicted, or the old entry is still there when the
  eviction stops: which of the two depends on whether the account has room once the items
  less recently used than the old entry are gone.
\<close>

lemma evicted_prefix_cases:
  assumes its: "gone @ kept = pre @ i # post" and nn: "usedMemory w \<le> maxMemory w"
    and min: "\<forall>pre j post. gone = pre @ j # post \<longrightarrow> usedMemory w - total_size pre + need > maxMemory w"
    and stop: "need \<le> 0 \<or> kept = [] \<or> usedMemory w - total_size gone + need \<le> maxMemory w"
  shows "usedMemory w - total_size pre + need \<le> maxMemory w \<Longrightarrow> \<exists>mid. kept = mid @ i # post"
    and "usedMemory w - total_size pre + need > maxMemory w \<Longrightarrow> \<exists>mid. gone = pre @ i # mid \<and> post = mid @ kept"
proof -
  have "(\<exists>mid. pre = gone @ mid \<and> kept = mid @ i # post) \<or> (\<exists>mid. gone = pre @ i # mid \<and> post = mid @ kept)"
    using its by (force simp: append_eq_append_conv2 Cons_eq_append_conv append_eq_Cons_conv)
  then consider (short) mid where "pre = gone @ mid" "kept = mid @ i # post"
    | (long) mid where "gone = pre @ i # mid" "post = mid @ kept" by blast
  note c = this
  show "\<exists>mid. kept = mid @ i # post" if "usedMemory w - total_size pre + need \<le> maxMemory w"
    using c min that by (metis linorder_not_le)
  show "\<exists>mid. gone = pre @ i # mid \<and> post = mid @ kept" if "usedMemory w - total_size pre + need > maxMemory w"
    using c
  proof cases
    case (short mid)
    then have "total_size pre = total_size gone + total_size mid" by simp
    then show ?thesis using short(2) stop that nn total_size_nonneg[of pre] total_size_nonneg[of mid] by auto
  qed auto
qed

text \<open>
  C36. When an overwrite keeps the memory limit, and when it does not. Let a worker with an exact
  account within its limit store a new value under a key that has an entry. If the items less
  recently used than that entry make enough room, the account stays exact and the bytes stored
  stay within the limit. Otherwise the eviction reaches the old entry, whose size is then
  subtracted twice: the account falls short of the bytes stored by exactly that size. If the eviction
  stops there, because the account then allows the new value, the bytes stored exceed the limit
  although the account is within it, and everything more recently used is still stored.
\<close>

theorem overwrite_exceeds_limit:
  assumes inv: "worker_inv w" and op: "Op req = OpSet" and lim: "0 < maxMemory w"
    and exact: "usedMemory w = bytes_stored w" and within: "usedMemory w \<le> maxMemory w"
    and its: "items (index w) = pre @ i # post" and key: "ikey i = reqKey req"
    and need: "need = int (length (reqKey req) + length (reqValue req)) - isize i"
    and w': "w' = next_worker en req w"
  shows "(usedMemory w - total_size pre + need \<le> maxMemory w \<longrightarrow>
      usedMemory w' = bytes_stored w' \<and> bytes_stored w' \<le> maxMemory w) \<and>
    (usedMemory w - total_size pre + need > maxMemory w \<longrightarrow>
      usedMemory w' = bytes_stored w' - isize i \<and>
      (usedMemory w - total_size (pre @ [i]) + need \<le> maxMemory w \<longrightarrow>
        bytes_stored w' > maxMemory w \<and> usedMemory w' \<le> maxMemory w \<and>
        (\<exists>j. items (index w') = post @ [j] \<and> ikey j = reqKey req \<and> ival j = reqValue req)))"
proof -
  have d: "keys_distinct (items (index w))" by (rule worker_distinct[OF inv])
  have old: "size_of_key (reqKey req) (items (index w)) = isize i"
    using size_of_key_in[OF d, of i] by (simp add: its key)
  have need': "need = int (length (reqKey req) + length (reqValue req)) - size_of_key (reqKey req) (items (index w))"
    by (simp add: need old)
  obtain gone kept j where g: "items (index w) = gone @ kept" "items (index w') = a_delete (reqKey req) kept @ [j]"
    "ikey j = reqKey req" "ival j = reqValue req" and none: "need \<le> 0 \<longrightarrow> gone = []"
    and min: "\<forall>pre j post. gone = pre @ j # post \<longrightarrow> usedMemory w - total_size pre + need > maxMemory w"
    and stop: "need \<le> 0 \<or> kept = [] \<or> usedMemory w - total_size gone + need \<le> maxMemory w"
    and u: "usedMemory w' = usedMemory w - total_size gone + need"
    and b: "bytes_stored w' = bytes_stored w - total_size gone + need + (isize i - size_of_key (reqKey req) kept)"
    using set_effect[OF inv op lim need' w'] unfolding old by blast
  note cases = evicted_prefix_cases[OF _ within min stop, of pre i post]
  show ?thesis
  proof (intro conjI impI)
    assume "usedMemory w - total_size pre + need \<le> maxMemory w"
    then obtain mid where k: "kept = mid @ i # post" using cases(1) g(1) its by auto
    then have "size_of_key (reqKey req) kept = isize i"
      using size_of_key_in[of kept i] d g(1) by (simp add: key keys_distinct_def)
    then show ex: "usedMemory w' = bytes_stored w'" using u b exact by simp
    show "bytes_stored w' \<le> maxMemory w" using ex u stop none k within by auto
  next
    assume over: "usedMemory w - total_size pre + need > maxMemory w"
    then obtain mid where m: "gone = pre @ i # mid" "post = mid @ kept" using cases(2) g(1) its by auto
    then have abs: "reqKey req \<notin> ikey ` set kept" using d key[symmetric] its by (auto simp: keys_distinct_def)
    then show short: "usedMemory w' = bytes_stored w' - isize i" using u b exact by (simp add: size_of_key_absent)
    assume room: "usedMemory w - total_size (pre @ [i]) + need \<le> maxMemory w"
    then have "mid = []" using min[rule_format, of "pre @ [i]"] m(1) by (cases mid) auto
    then show "bytes_stored w' > maxMemory w" "usedMemory w' \<le> maxMemory w"
      "\<exists>j. items (index w') = post @ [j] \<and> ikey j = reqKey req \<and> ival j = reqValue req"
      using over room short u m g abs by (auto simp: a_delete_absent a_find_None_iff)
  qed
qed

lemma small_worker_items:
  "map (\<lambda>i. (ikey i, ival i)) (items (index small_worker)) = [(''a'', ''1234''), (''b'', ''1234'')]"
  by code_simp

theorem overwrite_exceeds_limit_witness:
  "bytes_stored (next_worker (at_time 0) (mk_req OpSet ''a'' ''12345678'' 0) small_worker) > maxMemory small_worker \<and>
   usedMemory (next_worker (at_time 0) (mk_req OpSet ''a'' ''12345678'' 0) small_worker) = 9"
proof -
  let ?r = "mk_req OpSet ''a'' ''12345678'' 0"
  obtain i j where its: "items (index small_worker) = [] @ i # [j]" and i: "ikey i = ''a''" "ival i = ''1234''"
    using small_worker_items by (auto simp: Cons_eq_map_conv)
  have m: "maxMemory small_worker = 10" "usedMemory small_worker = 10" "bytes_stored small_worker = 10" by code_simp+
  have r: "Op ?r = OpSet" "reqKey ?r = ''a''" "reqValue ?r = ''12345678''" by (simp_all add: mk_req_def)
  have s: "isize i = 5" using i by (simp add: isize_def)
  have "bytes_stored (next_worker (at_time 0) ?r small_worker) > 10" "usedMemory (next_worker (at_time 0) ?r small_worker) \<le> 10"
    using overwrite_exceeds_limit[OF worker_inv_small r(1) _ _ _ its _ refl refl, of "at_time 0"] by (simp_all add: m r i s)
  moreover have "usedMemory (next_worker (at_time 0) ?r small_worker) = 9" by code_simp
  ultimately show ?thesis by (simp add: m)
qed

text \<open>
  A refused request changes nothing: except for a get, which removes an entry it finds
  expired, an error response comes with the worker exactly as it was.
\<close>

theorem refused_request_changes_nothing:
  assumes "handleRequest en req w = Some (w', r)" and "Err r \<noteq> None" and "Op req \<noteq> OpGet"
  shows "w' = w"
  using assms
  by (cases "Op req")
    (auto simp: handleRequest_def handleSet_def handleAdd_def handleReplace_def handleCas_def doSet_def
      handleDelete_def handleTouch_def handleIncr_def handleDecr_def doIncrDecr_def handleAppend_def
      handlePrepend_def doAppendPrepend_def handleFlushAll_def handleStats_def Index_Delete_def Let_def
      split: option.splits if_splits sum.splits prod.splits bind_splits)

theorem refused_request_changes_nothing_witness:
  "handleRequest (at_time 0) (mk_req OpAdd ''a'' ''x'' 0) small_worker =
     Some (small_worker, err_resp ErrKeyExists)"
proof -
  let ?r = "mk_req OpAdd ''a'' ''x'' 0"
  have h: "handleRequest (at_time 0) ?r small_worker =
      Some (next_worker (at_time 0) ?r small_worker, answer (at_time 0) ?r small_worker)"
    by (rule serve(1)) simp
  have a: "answer (at_time 0) ?r small_worker = err_resp ErrKeyExists" by code_simp
  then have "Err (answer (at_time 0) ?r small_worker) \<noteq> None" "Op ?r \<noteq> OpGet" by (simp_all add: mk_req_def)
  with refused_request_changes_nothing[OF h] h a show ?thesis by simp
qed

text \<open>
  C30. Which requests are refused, and with which error: a total description in terms of the item
  under the key and whether it is still live at the time of the request. Storage never fails
  for lack of memory.
\<close>

definition expected_error :: "env \<Rightarrow> Request \<Rightarrow> Worker \<Rightarrow> cache_error option" where
  "expected_error en req w =
    (let live = live_item en w (reqKey req); missing = (if live = None then Some ErrKeyNotFound else None)
     in case Op req of
          OpSet \<Rightarrow> None | OpFlushAll \<Rightarrow> None | OpStats \<Rightarrow> None
        | OpAdd \<Rightarrow> if live = None then None else Some ErrKeyExists
        | OpCas \<Rightarrow> (case live of None \<Rightarrow> Some ErrKeyNotFound
            | Some i \<Rightarrow> if icas i = reqCas req then None else Some ErrCasMismatch)
        | OpIncr \<Rightarrow> (case live of None \<Rightarrow> Some ErrKeyNotFound
            | Some i \<Rightarrow> if isl (ParseUint (ival i) 64) then Some ErrNotNumeric else None)
        | OpDecr \<Rightarrow> (case live of None \<Rightarrow> Some ErrKeyNotFound
            | Some i \<Rightarrow> if isl (ParseUint (ival i) 64) then Some ErrNotNumeric else None)
        | OpDelete \<Rightarrow> if stored w (reqKey req) = None then Some ErrKeyNotFound else None
        | OpOther _ \<Rightarrow> Some ErrKeyNotFound
        | _ \<Rightarrow> missing)"

theorem error_responses:
  assumes inv: "worker_inv w"
    and pos: "case stored w (reqKey req) of None \<Rightarrow> True | Some i \<Rightarrow> 0 \<le> ihard i"
  shows "Err (answer en req w) = expected_error en req w"
  using pos
  by (cases "Op req")
    (auto simp: answer_abs[OF inv] expected_error_def live_item_find[OF inv] stored_find[OF inv]
      a_step_def a_op_defs Let_def a_live_def hard_expired_def
      split: option.splits sum.splits if_splits prod.splits)

theorem error_responses_witness:
  "Err (answer (at_time 0) (mk_req OpAdd ''a'' ''x'' 0) small_worker) = Some ErrKeyExists \<and>
   Err (answer (at_time 0) (mk_req OpIncr ''b'' ''x'' 0) small_worker) = None"
proof -
  have "case stored small_worker (reqKey (mk_req OpAdd ''a'' ''x'' 0)) of None \<Rightarrow> True | Some i \<Rightarrow> 0 \<le> ihard i"
    "case stored small_worker (reqKey (mk_req OpIncr ''b'' ''x'' 0)) of None \<Rightarrow> True | Some i \<Rightarrow> 0 \<le> ihard i"
    by code_simp+
  from this[THEN error_responses[OF worker_inv_small], of "at_time 0"] show ?thesis by code_simp
qed

text \<open>
  C19. Read your writes: after a set, a get of the same key at any later time answers with
  the value stored and its token, fresh before the soft expiry, to be refreshed after
  it, and not found from the hard expiry on. The entry just stored is never the victim of its
  own eviction.
\<close>

theorem get_after_set:
  assumes inv: "worker_inv w" and "Op req = OpSet" and "Op get = OpGet" and "reqKey get = reqKey req"
    and times: "expiry_times en (staleMultiplier w) (effective_ttl (DefaultTTL w) (TTL req)) = (soft, hard)"
    and now: "now = UnixMilli (check_now en')"
  shows "answer en' get (next_worker en req w) =
    (if 0 < hard \<and> hard \<le> now then err_resp ErrKeyNotFound
     else ok_resp\<lparr>respValue := reqValue req, respCas := casCounter w + 1,
       Flags := if 0 < soft \<and> soft \<le> now then 3 else 0\<rparr>)"
  using assms
  by (simp add: answer_abs next_abs a_step_def a_get_def a_store_parts Let_def hard_expired_def)

theorem get_after_set_witness:
  "answer (at_time 1200000000) (mk_req OpGet ''a'' [] 0) (next_worker (at_time 0) (mk_req OpSet ''a'' ''v'' 1000000000) small_worker) =
     ok_resp\<lparr>respValue := ''v'', respCas := 3, Flags := 3\<rparr>"
proof -
  let ?s = "mk_req OpSet ''a'' ''v'' 1000000000" and ?g = "mk_req OpGet ''a'' [] 0"
  have "Op ?s = OpSet" "Op ?g = OpGet" "reqKey ?g = reqKey ?s" by (simp_all add: mk_req_def)
  moreover have "expiry_times (at_time 0) (staleMultiplier small_worker)
      (effective_ttl (DefaultTTL small_worker) (TTL ?s)) = (1000, 2000)" by code_simp
  ultimately have "answer (at_time 1200000000) ?g (next_worker (at_time 0) ?s small_worker) =
      (if 0 < (2000::int) \<and> 2000 \<le> UnixMilli (check_now (at_time 1200000000)) then err_resp ErrKeyNotFound
       else ok_resp\<lparr>respValue := reqValue ?s, respCas := casCounter small_worker + 1,
         Flags := if 0 < (1000::int) \<and> 1000 \<le> UnixMilli (check_now (at_time 1200000000)) then 3 else 0\<rparr>)"
    by (rule get_after_set[OF worker_inv_small]) (rule refl)
  moreover have "casCounter small_worker = 2" by code_simp
  ultimately show ?thesis by (simp add: mk_req_def at_time_def UnixMilli_def Millisecond_def)
qed

text \<open>
  C29. With the default stale multiplier \<open>2.0\<close> and a time to live below \<open>2 ^ 53\<close> nanoseconds, a
  value is fresh for its time to live, stale for as long again, and gone after that; the
  floating-point product is exact.
\<close>

theorem stale_window:
  assumes inv: "worker_inv w" and "Op req = OpSet" and "Op get = OpGet" and "reqKey get = reqKey req"
    and "staleMultiplier w = two64" and "0 < TTL req" and "TTL req < 2 ^ 53"
    and "0 < UnixMilli (store_now en + TTL req)"
    and t: "t = UnixMilli (check_now en')"
  shows "let r = answer en' get (next_worker en req w)
    in if t < UnixMilli (store_now en + TTL req) then Err r = None \<and> Flags r = 0 \<and> respValue r = reqValue req
       else if t < UnixMilli (store_now en + 2 * TTL req) then Err r = None \<and> Flags r = 3 \<and> respValue r = reqValue req
       else r = err_resp ErrKeyNotFound"
proof -
  have eff: "effective_ttl (DefaultTTL w) (TTL req) = TTL req" using assms(6) by (simp add: effective_ttl_def)
  have "UnixMilli (store_now en + TTL req) \<le> UnixMilli (store_now en + 2 * TTL req)"
    using assms(6) by (intro UnixMilli_mono) simp
  with assms eff show ?thesis
    by (simp add: answer_abs next_abs a_step_def a_get_def a_store_parts Let_def hard_expired_def
        expiry_times_two)
qed

theorem stale_window_witness:
  "Flags (answer (at_time 999999999) (mk_req OpGet ''a'' [] 0)
     (next_worker (at_time 0) (mk_req OpSet ''a'' ''v'' 1000000000) small_worker)) = 0"
proof -
  let ?s = "mk_req OpSet ''a'' ''v'' 1000000000" and ?g = "mk_req OpGet ''a'' [] 0"
  have "Op ?s = OpSet" "Op ?g = OpGet" "reqKey ?g = reqKey ?s" "0 < TTL ?s" "TTL ?s < 2 ^ 53"
    "0 < UnixMilli (store_now (at_time 0) + TTL ?s)"
    by (simp_all add: mk_req_def at_time_def UnixMilli_def Millisecond_def)
  moreover have "staleMultiplier small_worker = two64" by code_simp
  ultimately show ?thesis
    using stale_window[OF worker_inv_small, of ?s ?g "at_time 0" _ "at_time 999999999"]
    by (simp add: Let_def mk_req_def at_time_def UnixMilli_def Millisecond_def)
qed

text \<open>
  Increment and decrement: on a live numeric item the answer is the decimal text of the sum
  modulo \<open>2 ^ 64\<close>, or of the difference cut off at zero; that text is what is stored, with a
  fresh token and the old expiry, and the account follows the change in length.
\<close>

definition counted :: "OpType \<Rightarrow> int \<Rightarrow> int \<Rightarrow> int" where
  "counted oper n d = (if oper = OpIncr then (n + d) mod 2 ^ 64 else max 0 (n - d))"

lemma counter_result_value:
  assumes "0 \<le> n" and "n < 2 ^ 64"
  shows "uint (counter_result True (of_int n) d) = counted OpIncr n (uint d)"
    and "uint (counter_result False (of_int n) d) = counted OpDecr n (uint d)"
proof -
  have n: "uint (of_int n :: uint64) = n" using assms by (simp add: uint_word_of_int take_bit_int_eq_self)
  show "uint (counter_result True (of_int n) d) = counted OpIncr n (uint d)"
    by (simp add: counter_result_def counted_def uint_word_ariths n)
  show "uint (counter_result False (of_int n) d) = counted OpDecr n (uint d)"
    using n uint_sub_lem[of d "of_int n"] by (auto simp: counter_result_def counted_def word_less_def)
qed

theorem incr_decr_value:
  assumes inv: "worker_inv w" and op: "Op req \<in> {OpIncr, OpDecr}"
    and live: "live_item en w (reqKey req) = Some i" and num: "ParseUint (ival i) 64 = Inr n"
    and w': "w' = next_worker en req w" and r: "r = answer en req w"
  shows "Err r = None \<and> ParseUint (respValue r) 64 = Inr (counted (Op req) n (uint (Delta req))) \<and>
    stored w' (reqKey req) = Some (i\<lparr>ival := respValue r, icas := respCas r\<rparr>) \<and>
    respCas r = casCounter w + 1 \<and>
    usedMemory w' - usedMemory w = bytes_stored w' - bytes_stored w"
proof -
  have i': "worker_inv w'" using inv w' by simp
  let ?c = "abs_worker w" and ?up = "Op req = OpIncr"
  have st: "a_step en req ?c = a_count en (reqKey req) (Delta req) ?up ?c"
    using op by (auto simp: a_step_def Let_def)
  have l: "a_live (UnixMilli (check_now en)) (reqKey req) ?c = Some i" using live live_item_find[OF inv] by simp
  let ?x = "counter_result ?up (of_int n) (Delta req)"
  have x: "uint ?x = counted (Op req) n (uint (Delta req))"
    using counter_result_value[of n "Delta req"] ParseUint_range[OF num] op by auto
  have p: "ParseUint (FormatUint (uint ?x)) 64 = Inr (uint ?x)"
    using uint_lt2p[of ?x] by (intro ParseUint_FormatUint) auto
  have "drift (fst (a_step en req ?c)) = drift ?c"
    using worker_distinct[OF inv] by (simp add: st a_other_drift)
  then have "drift (abs_worker w') = drift ?c" by (simp add: w' next_abs[OF inv])
  then show ?thesis
    using stored_find[OF i'] l p x num a_live_ikey[OF l]
    by (simp add: r w' next_fields[OF inv] answer_abs[OF inv] st a_count_def Let_def drift_worker)
qed

definition counter_worker :: Worker where
  "counter_worker = after [Serve (at_time 0) (mk_req OpSet ''n'' ''18446744073709551615'' 0)] (NewWorker 0 0 0 two64)"

theorem incr_decr_value_witness:
  "ParseUint (respValue (answer (at_time 0) ((mk_req OpIncr ''n'' [] 0)\<lparr>Delta := 3\<rparr>) counter_worker)) 64 = Inr 2"
proof -
  let ?r = "(mk_req OpIncr ''n'' [] 0)\<lparr>Delta := 3\<rparr>"
  obtain i where i: "live_item (at_time 0) counter_worker (reqKey ?r) = Some i"
    "ParseUint (ival i) 64 = Inr 18446744073709551615"
  proof -
    have "map_option (\<lambda>i. ParseUint (ival i) 64) (live_item (at_time 0) counter_worker (reqKey ?r)) =
        Some (Inr 18446744073709551615)" by code_simp
    then show thesis using that by auto
  qed
  have "worker_inv counter_worker" "Op ?r \<in> {OpIncr, OpDecr}"
    by (simp_all add: counter_worker_def mk_req_def)
  from incr_decr_value[OF this i refl refl] show ?thesis
    by (simp add: mk_req_def counted_def)
qed

text \<open>
  Append and prepend join the given bytes to the value of a live item, keep its expiry
  times and refresh mark, and give it a fresh token and the most recent place. This holds
  even when making room for the bytes evicts the item being extended.
\<close>

theorem append_prepend_value:
  assumes inv: "worker_inv w" and op: "Op req \<in> {OpAppend, OpPrepend}"
    and live: "live_item en w (reqKey req) = Some i"
    and w': "w' = next_worker en req w" and r: "r = answer en req w"
  shows "Err r = None \<and> respCas r = casCounter w + 1 \<and>
    stored w' (reqKey req) = Some (i\<lparr>ival := if Op req = OpPrepend then reqValue req @ ival i
      else ival i @ reqValue req, icas := respCas r\<rparr>) \<and>
    ikey (last (items (index w'))) = reqKey req"
proof -
  have i': "worker_inv w'" using inv w' by simp
  let ?c = "abs_worker w"
  have st: "a_step en req ?c = a_extend en (reqKey req) (reqValue req) (Op req = OpPrepend) ?c"
    using op by (auto simp: a_step_def Let_def)
  have l: "a_live (UnixMilli (check_now en)) (reqKey req) ?c = Some i" using live live_item_find[OF inv] by simp
  show ?thesis
    using stored_find[OF i'] l a_live_ikey[OF l]
    by (simp add: r w' next_fields[OF inv] answer_abs[OF inv] st a_extend_def Let_def a_set_def
        split: option.split)
qed

theorem append_prepend_value_witness:
  "\<exists>i. stored (next_worker (at_time 0) (mk_req OpAppend ''a'' ''5678'' 0) small_worker) ''a'' = Some i \<and>
    ival i = ''12345678''"
proof -
  let ?r = "mk_req OpAppend ''a'' ''5678'' 0"
  obtain i where i: "live_item (at_time 0) small_worker (reqKey ?r) = Some i" "ival i = ''1234''"
  proof -
    have "map_option ival (live_item (at_time 0) small_worker (reqKey ?r)) = Some ''1234''" by code_simp
    then show thesis using that by auto
  qed
  have "Op ?r \<in> {OpAppend, OpPrepend}" by (simp add: mk_req_def)
  from append_prepend_value[OF worker_inv_small this i(1) refl refl] i(2) show ?thesis
    by (simp add: mk_req_def)
qed

text \<open>
  A touch gives a live item new expiry times and a fresh token, and keeps the rest. The
  mark that a refresh is under way is kept too: once it is set, no get after the touch is
  answered with flag 3, so a touched item goes through its next stale period unrefreshed.
\<close>

theorem touch_retimes_and_keeps_mark:
  assumes inv: "worker_inv w" and op: "Op req = OpTouch" and live: "live_item en w (reqKey req) = Some i"
    and w': "w' = next_worker en req w" and get: "Op get = OpGet" "reqKey get = reqKey req"
    and times: "expiry_times en (staleMultiplier w) (effective_ttl (DefaultTTL w) (TTL req)) = (soft, hard)"
  shows "stored w' (reqKey req) = Some (i\<lparr>icas := casCounter w + 1, isoft := soft, ihard := hard\<rparr>) \<and>
    bytes_stored w' = bytes_stored w \<and> usedMemory w' = usedMemory w \<and>
    (irefresh i \<longrightarrow> Flags (answer en' get w') \<noteq> 3)"
proof -
  have i': "worker_inv w'" using inv w' by simp
  let ?c = "abs_worker w"
  have st: "a_step en req ?c = a_retime en (reqKey req) (TTL req) ?c" using op by (simp add: a_step_def Let_def)
  have l: "a_live (UnixMilli (check_now en)) (reqKey req) ?c = Some i" using live live_item_find[OF inv] by simp
  have s: "stored w' (reqKey req) = Some (i\<lparr>icas := casCounter w + 1, isoft := soft, ihard := hard\<rparr>)"
    using stored_find[OF i'] l a_live_ikey[OF l]
    by (simp add: w' next_fields[OF inv] st a_retime_def Let_def times)
  have u: "usedMemory w' = usedMemory w"
    using l by (simp add: w' next_fields[OF inv] st a_retime_def Let_def times)
  have "drift (fst (a_step en req ?c)) = drift ?c"
    using worker_distinct[OF inv] by (simp add: st a_other_drift)
  then have "drift (abs_worker w') = drift ?c" by (simp add: w' next_abs[OF inv])
  moreover have "Flags (answer en' get w') \<noteq> 3" if "irefresh i"
    using s that stored_find[OF i', of "reqKey req"] get
    by (auto simp: answer_abs[OF i'] a_step_def a_get_def Let_def)
  ultimately show ?thesis using s u by (simp add: drift_worker)
qed

definition marked_worker :: Worker where
  "marked_worker = next_worker (at_time 1500000000) (mk_req OpGet ''a'' [] 0) short_lived"

theorem touch_retimes_and_keeps_mark_witness:
  "Flags (answer (at_time 1500000000) (mk_req OpGet ''a'' [] 0) short_lived) = 3 \<and>
   Flags (answer (at_time 3000000000) (mk_req OpGet ''a'' [] 0)
     (next_worker (at_time 1600000000) (mk_req OpTouch ''a'' [] 1000000000) marked_worker)) \<noteq> 3"
proof -
  let ?r = "mk_req OpTouch ''a'' [] 1000000000" and ?g = "mk_req OpGet ''a'' [] 0"
  obtain i where i: "live_item (at_time 1600000000) marked_worker (reqKey ?r) = Some i" "irefresh i"
  proof -
    have "map_option irefresh (live_item (at_time 1600000000) marked_worker (reqKey ?r)) = Some True" by code_simp
    then show thesis using that by auto
  qed
  have inv: "worker_inv marked_worker" by (simp add: marked_worker_def short_lived_def)
  have times: "expiry_times (at_time 1600000000) (staleMultiplier marked_worker)
      (effective_ttl (DefaultTTL marked_worker) (TTL ?r)) = (2600, 3600)" by code_simp
  have "Op ?r = OpTouch" "Op ?g = OpGet" "reqKey ?g = reqKey ?r" by (simp_all add: mk_req_def)
  from touch_retimes_and_keeps_mark[OF inv this(1) i(1) refl this(2,3) times, of "at_time 3000000000"] i(2)
  have "Flags (answer (at_time 3000000000) ?g (next_worker (at_time 1600000000) ?r marked_worker)) \<noteq> 3" by simp
  moreover have "Flags (answer (at_time 1500000000) ?g short_lived) = 3" by code_simp
  ultimately show ?thesis by blast
qed

text \<open>
  Requests do not interfere: a request for one key leaves the item of any other key exactly
  as it is, or the other item is gone, and it can be gone only after a flush or a request
  that stores bytes and so may evict.
\<close>

theorem other_keys_untouched:
  assumes inv: "worker_inv w" and k: "k \<noteq> reqKey req" and w': "w' = next_worker en req w"
  shows "(stored w' k = stored w k \<or> stored w' k = None) \<and>
    (Op req \<in> {OpGet, OpDelete, OpTouch, OpIncr, OpDecr, OpStats} \<longrightarrow> stored w' k = stored w k)"
proof -
  have i': "worker_inv w'" using inv w' by simp
  have st: "a_step en req (abs_worker w) = (abs_worker w', answer en req w)"
    using serve(3)[OF inv] w' by simp
  note other = a_step_other[OF st _ k]
  show ?thesis
    using other worker_distinct[OF inv] by (simp add: stored_find[OF inv] stored_find[OF i'])
qed

theorem other_keys_untouched_witness:
  "stored (next_worker (at_time 0) (mk_req OpDelete ''a'' [] 0) small_worker) ''b'' = stored small_worker ''b'' \<and>
   map_option ival (stored small_worker ''b'') = Some ''1234''"
proof -
  let ?r = "mk_req OpDelete ''a'' [] 0"
  have "''b'' \<noteq> reqKey ?r" "Op ?r = OpDelete" by (simp_all add: mk_req_def)
  with other_keys_untouched[OF worker_inv_small this(1) refl, of "at_time 0"]
  have "stored (next_worker (at_time 0) ?r small_worker) ''b'' = stored small_worker ''b''" by simp
  moreover have "map_option ival (stored small_worker ''b'') = Some ''1234''" by code_simp
  ultimately show ?thesis by blast
qed

text \<open>
  Recency: a successful get, touch, increment or decrement moves its item, and only it, to
  the most recently used end; all others keep their order.
\<close>

theorem hit_becomes_most_recent:
  assumes inv: "worker_inv w" and op: "Op req \<in> {OpGet, OpTouch, OpIncr, OpDecr}"
    and ok: "Err (answer en req w) = None"
  shows "\<exists>i. items (index (next_worker en req w)) = a_delete (reqKey req) (items (index w)) @ [i] \<and>
    ikey i = reqKey req"
  using a_step_hit[OF serve(3)[OF inv] op ok] by simp

theorem hit_becomes_most_recent_witness:
  "\<exists>i. items (index (next_worker (at_time 0) (mk_req OpGet ''a'' [] 0) small_worker)) =
     a_delete ''a'' (items (index small_worker)) @ [i] \<and> ikey i = ''a''"
proof -
  let ?r = "mk_req OpGet ''a'' [] 0"
  have "Op ?r \<in> {OpGet, OpTouch, OpIncr, OpDecr}" by (simp add: mk_req_def)
  moreover have "Err (answer (at_time 0) ?r small_worker) = None" by code_simp
  ultimately have "\<exists>i. items (index (next_worker (at_time 0) ?r small_worker)) =
      a_delete (reqKey ?r) (items (index small_worker)) @ [i] \<and> ikey i = reqKey ?r"
    by (rule hit_becomes_most_recent[OF worker_inv_small])
  then show ?thesis by (simp add: mk_req_def)
qed

text \<open>
  Delete removes the item, whether or not it has expired, with exactly its bytes, and a
  second delete finds nothing.
\<close>

theorem delete_removes:
  assumes inv: "worker_inv w" and op: "Op req = OpDelete" and found: "stored w (reqKey req) = Some i"
    and w': "w' = next_worker en req w"
  shows "Err (answer en req w) = None \<and> stored w' (reqKey req) = None \<and>
    items (index w') = filter (\<lambda>j. j \<noteq> i) (items (index w)) \<and>
    usedMemory w' = usedMemory w - isize i \<and> Err (answer en2 req w') = Some ErrKeyNotFound"
proof -
  have i': "worker_inv w'" using inv w' by simp
  let ?k = "reqKey req"
  have f: "a_find ?k (items (index w)) = Some i" using found stored_find[OF inv] by simp
  have st: "a_step en req (abs_worker w) = a_remove ?k (abs_worker w)" by (simp add: a_step_def op Let_def)
  have its: "items (index w') = a_delete ?k (items (index w))"
    by (simp add: w' next_fields[OF inv] st a_remove_def f)
  have "a_delete ?k (items (index w)) = filter (\<lambda>j. j \<noteq> i) (items (index w))"
    using f a_find_Some_iff[OF worker_distinct[OF inv], of ?k] unfolding a_delete_def
    by (intro filter_cong) (auto, metis option.inject)
  moreover have n: "stored w' ?k = None" using its stored_find[OF i', of ?k] by simp
  moreover have "usedMemory w' = usedMemory w - isize i" "Err (answer en req w) = None"
    by (simp_all add: answer_abs[OF inv] w' next_fields[OF inv] st a_remove_def f)
  moreover have "Err (answer en2 req w') = Some ErrKeyNotFound"
    using n stored_find[OF i', of ?k] by (simp add: answer_abs[OF i'] a_step_def op a_remove_def Let_def)
  ultimately show ?thesis using its by simp
qed

theorem delete_removes_witness:
  "Err (answer (at_time 1) (mk_req OpDelete ''a'' [] 0)
     (next_worker (at_time 0) (mk_req OpDelete ''a'' [] 0) small_worker)) = Some ErrKeyNotFound"
proof -
  let ?r = "mk_req OpDelete ''a'' [] 0"
  obtain i where "stored small_worker (reqKey ?r) = Some i"
  proof -
    have "map_option ival (stored small_worker (reqKey ?r)) = Some ''1234''" by code_simp
    then show thesis using that by auto
  qed
  moreover have "Op ?r = OpDelete" by (simp add: mk_req_def)
  ultimately show ?thesis using delete_removes[OF worker_inv_small _ _ refl] by blast
qed

section \<open>Background expiry\<close>

text \<open>
  C32. Background expiry always returns, and it removes exactly the items whose hard expiry
  has passed: the others keep their order and all their fields, the bytes removed are taken
  off the account, and the earliest expiry left in the heap is in the future.
\<close>

theorem expireKeys_removes_expired:
  assumes inv: "worker_inv w"
  shows "\<exists>w'. expireKeys now w = Some w' \<and> worker_inv w' \<and>
    items (index w') = filter (\<lambda>i. \<not> hard_expired (UnixMilli now) i) (items (index w)) \<and>
    usedMemory w - usedMemory w' = bytes_stored w - bytes_stored w' \<and>
    casCounter w' = casCounter w \<and> evictions w' = evictions w \<and>
    (case PeekMin (expiryHeap (index w')) of None \<Rightarrow> True | Some e \<Rightarrow> UnixMilli now < Expiry e)"
proof -
  obtain w' where w': "expireKeys now w = Some w'" "worker_inv w'"
    "abs_worker w' = a_expire (UnixMilli now) (abs_worker w)"
    using expireKeys_refines[OF inv] by blast
  have its: "items (index w') = filter (\<lambda>i. \<not> hard_expired (UnixMilli now) i) (items (index w))"
    using arg_cong[OF w'(3), of aitems] by (simp add: a_expire_def)
  have "bytes_stored w' - usedMemory w' = bytes_stored w - usedMemory w" "casCounter w' = casCounter w" "evictions w' = evictions w"
    using arg_cong[OF w'(3), of drift] arg_cong[OF w'(3), of acas] arg_cong[OF w'(3), of aevict]
    by (simp_all add: drift_worker)
  moreover have "case PeekMin (expiryHeap (index w')) of None \<Rightarrow> True | Some e \<Rightarrow> UnixMilli now < Expiry e"
    using ix.expire_stop[of "index w'" "UnixMilli now"] w'(2) its
    by (auto simp: worker_inv_def split: option.splits)
  ultimately show ?thesis using w'(1,2) its by auto
qed

theorem expireKeys_removes_expired_witness:
  "\<exists>w'. expireKeys 2000000000 short_lived = Some w' \<and> items (index w') = [] \<and> bytes_stored short_lived = 2"
proof -
  have "worker_inv short_lived" by (simp add: short_lived_def)
  from expireKeys_removes_expired[OF this, of 2000000000]
  obtain w' where "expireKeys 2000000000 short_lived = Some w'"
    "items (index w') = filter (\<lambda>i. \<not> hard_expired (UnixMilli 2000000000) i) (items (index short_lived))"
    by blast
  moreover have "filter (\<lambda>i. \<not> hard_expired (UnixMilli 2000000000) i) (items (index short_lived)) = []"
    by code_simp
  moreover have "bytes_stored short_lived = 2" by code_simp
  ultimately show ?thesis by simp
qed

end
