(* ===== verification/Sharded.thy ===== *)
theory Sharded
  imports WorkerProps
begin

text \<open>
  The cache front end, \<open>ShardedCache\<close> of \<^verbatim>\<open>pkg/tqmemory/sharded.go\<close>, with its configuration from
  \<^verbatim>\<open>pkg/tqmemory/config.go\<close>: a list of workers, a key's worker chosen by an FNV-1a hash, and one
  operation per method of \<open>CacheInterface\<close> (\<^verbatim>\<open>pkg/tqmemory/interface.go\<close>). Here an operation
  runs from the request to its response without interruption; theory \<open>Shards\<close> interleaves
  clients and workers over the channels. \<open>None\<close> would be a call that does not return.
\<close>

section \<open>Configuration\<close>

definition DefaultThreadCount :: int where "DefaultThreadCount = 4"
definition DefaultMaxMemory :: int where "DefaultMaxMemory = 64 * 1024 * 1024"
definition DefaultMaxKeySize :: int where "DefaultMaxKeySize = 250"
definition DefaultMaxValueSize :: int where "DefaultMaxValueSize = 1 * 1024 * 1024"
definition DefaultChannelCapacity :: int where "DefaultChannelCapacity = 1000"

record Config =
  cfgDefaultTTL :: int
  MaxKeySize :: int
  MaxValueSize :: int
  MaxMemory :: int
  ChannelCapacity :: int
  StaleMultiplier :: float64

definition DefaultConfig :: Config where
  "DefaultConfig = \<lparr>cfgDefaultTTL = 0, MaxKeySize = DefaultMaxKeySize,
     MaxValueSize = DefaultMaxValueSize, MaxMemory = DefaultMaxMemory,
     ChannelCapacity = DefaultChannelCapacity, StaleMultiplier = two64\<rparr>"

section \<open>Construction and hashing\<close>

record ShardedCache =
  workers :: "Worker list"
  config :: Config
  StartTime :: int

text \<open>Go's integer division truncates; the divisor is positive here.\<close>

definition go_div :: "int \<Rightarrow> int \<Rightarrow> int" where
  "go_div a b = (if a < 0 then - ((- a) div b) else a div b)"

text \<open>
  The constructor reads the clock once for the start time and once per worker (\<open>clock i\<close>). Its
  call of \<open>runtime.GOMAXPROCS\<close> has no effect on the results.
\<close>

definition effectiveWorkerCount :: "int \<Rightarrow> int" where
  "effectiveWorkerCount workerCount = (if workerCount \<le> 0 then DefaultThreadCount else workerCount)"

definition NewSharded :: "(nat \<Rightarrow> int) \<Rightarrow> int \<Rightarrow> Config \<Rightarrow> int \<Rightarrow> ShardedCache" where
  "NewSharded clock start cfg workerCount =
    (let workerCount = effectiveWorkerCount workerCount;
         maxMemoryPerWorker = go_div (MaxMemory cfg) workerCount
     in \<lparr>workers = map (\<lambda>i. NewWorker (clock i) (cfgDefaultTTL cfg) maxMemoryPerWorker (StaleMultiplier cfg))
           [0..<nat workerCount],
         config = cfg, StartTime = start\<rparr>)"

definition fnv_step :: "uint32 \<Rightarrow> char \<Rightarrow> uint32" where
  "fnv_step hash c = (hash XOR of_char c) * 16777619"

definition fnv1a :: "string \<Rightarrow> uint32" where
  "fnv1a key = foldl fnv_step 2166136261 key"

definition workerFor :: "ShardedCache \<Rightarrow> string \<Rightarrow> nat" where
  "workerFor sc key = nat (uint (fnv1a key) mod int (length (workers sc)))"

section \<open>Operations\<close>

definition sendRequest ::
  "env \<Rightarrow> nat \<Rightarrow> Request \<Rightarrow> ShardedCache \<Rightarrow> (ShardedCache \<times> Response) option" where
  "sendRequest en workerIdx req sc = do {
     (w, resp) \<leftarrow> handleRequest en req (workers sc ! workerIdx);
     Some (sc\<lparr>workers := (workers sc)[workerIdx := w]\<rparr>, resp)
   }"

definition key_req :: "OpType \<Rightarrow> string \<Rightarrow> Request" where
  "key_req oper key = \<lparr>Op = oper, reqKey = key, reqValue = [], TTL = 0, reqCas = 0, Delta = 0\<rparr>"

type_synonym 'a result = "(ShardedCache \<times> 'a) option"

definition cas_err :: "(ShardedCache \<times> Response) option \<Rightarrow> (uint64 \<times> cache_error option) result" where
  "cas_err m = map_option (\<lambda>(sc, resp). (sc, respCas resp, Err resp)) m"

definition Get :: "env \<Rightarrow> string \<Rightarrow> ShardedCache \<Rightarrow> (bytes \<times> uint64 \<times> int \<times> cache_error option) result" where
  "Get en key sc = map_option (\<lambda>(sc, resp). (sc, respValue resp, respCas resp, Flags resp, Err resp))
     (sendRequest en (workerFor sc key) (key_req OpGet key) sc)"

definition Set :: "env \<Rightarrow> string \<Rightarrow> bytes \<Rightarrow> int \<Rightarrow> ShardedCache \<Rightarrow> (uint64 \<times> cache_error option) result" where
  "Set en key val ttl sc =
    cas_err (sendRequest en (workerFor sc key) ((key_req OpSet key)\<lparr>reqValue := val, TTL := ttl\<rparr>) sc)"

definition Add :: "env \<Rightarrow> string \<Rightarrow> bytes \<Rightarrow> int \<Rightarrow> ShardedCache \<Rightarrow> (uint64 \<times> cache_error option) result" where
  "Add en key val ttl sc =
    cas_err (sendRequest en (workerFor sc key) ((key_req OpAdd key)\<lparr>reqValue := val, TTL := ttl\<rparr>) sc)"

definition Replace :: "env \<Rightarrow> string \<Rightarrow> bytes \<Rightarrow> int \<Rightarrow> ShardedCache \<Rightarrow> (uint64 \<times> cache_error option) result" where
  "Replace en key val ttl sc =
    cas_err (sendRequest en (workerFor sc key) ((key_req OpReplace key)\<lparr>reqValue := val, TTL := ttl\<rparr>) sc)"

definition CompareAndSwap ::
  "env \<Rightarrow> string \<Rightarrow> bytes \<Rightarrow> int \<Rightarrow> uint64 \<Rightarrow> ShardedCache \<Rightarrow> (uint64 \<times> cache_error option) result" where
  "CompareAndSwap en key val ttl cas sc =
    cas_err (sendRequest en (workerFor sc key)
      ((key_req OpCas key)\<lparr>reqValue := val, TTL := ttl, reqCas := cas\<rparr>) sc)"

definition Delete :: "env \<Rightarrow> string \<Rightarrow> ShardedCache \<Rightarrow> cache_error option result" where
  "Delete en key sc = map_option (\<lambda>(sc, resp). (sc, Err resp))
     (sendRequest en (workerFor sc key) (key_req OpDelete key) sc)"

definition Touch :: "env \<Rightarrow> string \<Rightarrow> int \<Rightarrow> ShardedCache \<Rightarrow> (uint64 \<times> cache_error option) result" where
  "Touch en key ttl sc =
    cas_err (sendRequest en (workerFor sc key) ((key_req OpTouch key)\<lparr>TTL := ttl\<rparr>) sc)"

text \<open>The loop that reads the number back from the response's text.\<close>

fun parse_counter :: "uint64 \<Rightarrow> bytes \<Rightarrow> uint64" where
  "parse_counter val [] = val"
| "parse_counter val (b # bs) =
    parse_counter (if is_digit b then val * 10 + of_int (digit_of b) else val) bs"

definition count_result ::
  "(ShardedCache \<times> Response) option \<Rightarrow> (uint64 \<times> uint64 \<times> cache_error option) result" where
  "count_result m = map_option (\<lambda>(sc, resp). (sc, parse_counter 0 (respValue resp), respCas resp, Err resp)) m"

definition Increment :: "env \<Rightarrow> string \<Rightarrow> uint64 \<Rightarrow> ShardedCache \<Rightarrow> (uint64 \<times> uint64 \<times> cache_error option) result" where
  "Increment en key d sc =
    count_result (sendRequest en (workerFor sc key) ((key_req OpIncr key)\<lparr>Delta := d\<rparr>) sc)"

definition Decrement :: "env \<Rightarrow> string \<Rightarrow> uint64 \<Rightarrow> ShardedCache \<Rightarrow> (uint64 \<times> uint64 \<times> cache_error option) result" where
  "Decrement en key d sc =
    count_result (sendRequest en (workerFor sc key) ((key_req OpDecr key)\<lparr>Delta := d\<rparr>) sc)"

definition Append :: "env \<Rightarrow> string \<Rightarrow> bytes \<Rightarrow> ShardedCache \<Rightarrow> (uint64 \<times> cache_error option) result" where
  "Append en key val sc =
    cas_err (sendRequest en (workerFor sc key) ((key_req OpAppend key)\<lparr>reqValue := val\<rparr>) sc)"

definition Prepend :: "env \<Rightarrow> string \<Rightarrow> bytes \<Rightarrow> ShardedCache \<Rightarrow> (uint64 \<times> cache_error option) result" where
  "Prepend en key val sc =
    cas_err (sendRequest en (workerFor sc key) ((key_req OpPrepend key)\<lparr>reqValue := val\<rparr>) sc)"

fun flush_workers :: "env \<Rightarrow> nat list \<Rightarrow> ShardedCache \<Rightarrow> ShardedCache option" where
  "flush_workers en [] sc = Some sc"
| "flush_workers en (i # is) sc = do {
     (sc, _) \<leftarrow> sendRequest en i (key_req OpFlushAll []) sc;
     flush_workers en is sc
   }"

definition FlushAll :: "env \<Rightarrow> ShardedCache \<Rightarrow> ShardedCache option" where
  "FlushAll en sc = flush_workers en [0..<length (workers sc)] sc"

text \<open>
  The statistics read each worker's index directly, not through its channel. This is the result when
  nothing happens in between; theory \<open>Connection\<close> has the reads one by one.
\<close>

definition CacheStats :: "ShardedCache \<Rightarrow> (string \<times> string) list" where
  "CacheStats sc =
    [(''curr_items'', FormatInt (sum_list (map (\<lambda>w. int (Index_Count (index w))) (workers sc))))]"

definition GetStartTime :: "ShardedCache \<Rightarrow> int" where
  "GetStartTime sc = StartTime sc"

text \<open>A call of one of the keyed methods, for statements about all of them.\<close>

definition keyed :: "Request \<Rightarrow> bool" where
  "keyed req \<longleftrightarrow> Op req \<notin> {OpFlushAll, OpStats}"

definition cache_call :: "env \<Rightarrow> Request \<Rightarrow> ShardedCache \<Rightarrow> (ShardedCache \<times> Response) option" where
  "cache_call en req sc = sendRequest en (workerFor sc (reqKey req)) req sc"

end
