(* ===== verification/ShardedProps.thy ===== *)
theory ShardedProps
  imports Sharded
begin

text \<open>
  The properties of the sharded cache: the routing of keys, the invariant that every key lives
  in the shard its hash names, the independence of the shards, and what the methods of the
  interface return.
\<close>

section \<open>Routing\<close>

text \<open>The published definition of 32-bit FNV-1a, over natural numbers.\<close>

definition fnv1a_spec :: "nat list \<Rightarrow> nat" where
  "fnv1a_spec octets = foldl (\<lambda>h b. ((h XOR b) * 16777619) mod 2 ^ 32) 2166136261 octets"

lemma fnv_fold:
  "unat (foldl fnv_step h key) =
    foldl (\<lambda>h b. ((h XOR b) * 16777619) mod 2 ^ 32) (unat h) (map of_char key)"
proof (induction key arbitrary: h)
  case (Cons c key)
  have "(of_char c :: nat) < 2 ^ 32" by (rule less_trans[OF nat_of_char_less_256]) simp
  then have "unat (of_nat (of_char c) :: uint32) = of_char c"
    by (simp add: unsigned_of_nat take_bit_nat_eq_self)
  then have "unat (of_char c :: uint32) = of_char c" by (simp only: of_nat_of_char)
  then have "unat (fnv_step h c) = ((unat h XOR of_char c) * 16777619) mod 2 ^ 32"
    by (simp add: fnv_step_def unat_word_ariths unsigned_xor_eq)
  with Cons show ?case by simp
qed simp

lemma workerFor_unat: "workerFor sc key = unat (fnv1a key) mod length (workers sc)"
proof -
  have "uint (fnv1a key) = int (unat (fnv1a key))" by (rule uint_nat)
  then show ?thesis by (simp only: workerFor_def zmod_int[symmetric] nat_int)
qed

text \<open>
  A key's worker exists whenever the cache has one, and it is the 32-bit FNV-1a hash of the
  key's bytes, as published, modulo the number of workers.
\<close>

theorem workerFor_is_fnv1a:
  "workerFor sc key = fnv1a_spec (map of_char key) mod length (workers sc) \<and>
   (workers sc = [] \<or> workerFor sc key < length (workers sc))"
  by (cases "workers sc") (simp_all add: workerFor_unat fnv1a_def fnv_fold fnv1a_spec_def)

section \<open>The invariant of the sharded cache\<close>

definition lookup :: "ShardedCache \<Rightarrow> string \<Rightarrow> item option" where
  "lookup sc k = stored (workers sc ! workerFor sc k) k"

definition sharded_inv :: "ShardedCache \<Rightarrow> bool" where
  "sharded_inv sc \<longleftrightarrow> workers sc \<noteq> [] \<and>
    (\<forall>i < length (workers sc). worker_inv (workers sc ! i) \<and>
      (\<forall>k. stored (workers sc ! i) k \<noteq> None \<longrightarrow> workerFor sc k = i))"

lemma workerFor_less: "workers sc \<noteq> [] \<Longrightarrow> workerFor sc k < length (workers sc)"
  by (simp add: workerFor_unat)

lemma workerFor_update [simp]: "workerFor (sc\<lparr>workers := (workers sc)[i := w]\<rparr>) k = workerFor sc k"
  by (simp add: workerFor_def)

lemma sharded_invD:
  assumes "sharded_inv sc"
  shows "workers sc \<noteq> []" and "worker_inv (workers sc ! workerFor sc k)"
    and "workerFor sc k < length (workers sc)"
    and "i < length (workers sc) \<Longrightarrow> worker_inv (workers sc ! i)"
    and "i < length (workers sc) \<Longrightarrow> stored (workers sc ! i) k \<noteq> None \<Longrightarrow> workerFor sc k = i"
  using assms by (auto simp: sharded_inv_def workerFor_less)

lemma stored_next_other:
  assumes "worker_inv w" and "k \<noteq> reqKey req" and "stored (next_worker en req w) k = Some i"
  shows "stored w k = Some i"
proof -
  have "a_find k (items (index (next_worker en req w))) = Some i"
    using assms by (simp add: stored_find)
  then show ?thesis
    using a_step_other(1)[OF serve(3)[OF assms(1), of en req], of k] assms(2) worker_distinct[OF assms(1)]
    by (auto simp: stored_find[OF assms(1)])
qed

text \<open>Every keyed method is a call of this form, on the worker of its key.\<close>

lemma cache_call_Some:
  fixes req :: Request
  assumes "sharded_inv sc"
  defines "i \<equiv> workerFor sc (reqKey req)"
  shows "cache_call en req sc =
      Some (sc\<lparr>workers := (workers sc)[i := next_worker en req (workers sc ! i)]\<rparr>,
        answer en req (workers sc ! i))"
  using serve(1)[OF sharded_invD(2)[OF assms(1), of "reqKey req"]]
  by (simp add: cache_call_def sendRequest_def i_def)

lemma sharded_inv_set:
  assumes inv: "sharded_inv sc" and i: "i < length (workers sc)" and w: "worker_inv w"
    and k: "\<And>k. stored w k \<noteq> None \<Longrightarrow> workerFor sc k = i"
  shows "sharded_inv (sc\<lparr>workers := (workers sc)[i := w]\<rparr>)"
proof -
  have "worker_inv ((workers sc)[i := w] ! j) \<and>
      (\<forall>k. stored ((workers sc)[i := w] ! j) k \<noteq> None \<longrightarrow> workerFor sc k = j)"
    if "j < length (workers sc)" for j
    using sharded_invD(4,5)[OF inv that] w k that by (cases "j = i") simp_all
  with sharded_invD(1)[OF inv] show ?thesis unfolding sharded_inv_def by simp
qed

lemma sharded_inv_next:
  fixes req :: Request
  assumes inv: "sharded_inv sc"
  defines "i \<equiv> workerFor sc (reqKey req)"
  shows "sharded_inv (sc\<lparr>workers := (workers sc)[i := next_worker en req (workers sc ! i)]\<rparr>)"
proof -
  note wi = sharded_invD(2)[OF inv, of "reqKey req", folded i_def]
  have "workerFor sc k = i" if "stored (next_worker en req (workers sc ! i)) k \<noteq> None" for k
  proof (cases "k = reqKey req")
    case False
    with that have "stored (workers sc ! i) k \<noteq> None" using stored_next_other[OF wi False] by fastforce
    then show ?thesis using sharded_invD(5)[OF inv, of i k] sharded_invD(3)[OF inv] i_def by simp
  qed (simp add: i_def)
  then show ?thesis
    by (intro sharded_inv_set[OF inv]) (use wi sharded_invD(3)[OF inv] in \<open>simp_all add: i_def\<close>)
qed

lemma sharded_inv_New: "sharded_inv (NewSharded clock start cfg n)"
proof -
  have pos: "0 < effectiveWorkerCount n" by (simp add: effectiveWorkerCount_def DefaultThreadCount_def)
  have "stored (NewWorker c t m s) k = None" for c t m s k
    by (simp add: stored_def NewWorker_def Index_Get_def NewIndex_def)
  with pos show ?thesis by (auto simp: sharded_inv_def NewSharded_def Let_def)
qed

section \<open>Construction\<close>

text \<open>
  The constructor always gives at least one worker, every one of them empty and well-formed,
  and divides the memory: the limits of the workers add up to at most the configured memory,
  short of it by less than one byte per worker.
\<close>

lemma NewSharded_memory:
  assumes "0 \<le> MaxMemory cfg" and sc_def: "sc = NewSharded clock start cfg n"
  shows "sharded_inv sc \<and> (\<forall>k. lookup sc k = None) \<and>
    int (length (workers sc)) = (if n \<le> 0 then 4 else n) \<and>
    sum_list (map maxMemory (workers sc)) \<le> MaxMemory cfg \<and>
    MaxMemory cfg < sum_list (map maxMemory (workers sc)) + int (length (workers sc))"
proof -
  define m where "m = effectiveWorkerCount n"
  have m: "0 < m" by (simp add: m_def effectiveWorkerCount_def DefaultThreadCount_def)
  have "map maxMemory (workers sc) = replicate (nat m) (MaxMemory cfg div m)"
    using assms(1) by (simp add: sc_def NewSharded_def Let_def NewWorker_def go_div_def m_def
        map_replicate_const comp_def)
  then have sum: "sum_list (map maxMemory (workers sc)) = m * (MaxMemory cfg div m)"
    using m by (simp add: sum_list_replicate)
  have len: "int (length (workers sc)) = m" using m by (simp add: sc_def NewSharded_def Let_def m_def)
  have "stored (NewWorker c t x s) k = None" for c t x s k
    by (simp add: stored_def NewWorker_def Index_Get_def NewIndex_def)
  moreover have "workerFor sc k < length (workers sc)" for k
    using sharded_invD(3)[OF sharded_inv_New] by (simp add: sc_def)
  ultimately have "lookup sc k = None" for k
    using nth_map by (simp add: lookup_def sc_def NewSharded_def Let_def)
  moreover have "m * (MaxMemory cfg div m) \<le> MaxMemory cfg" "MaxMemory cfg < m * (MaxMemory cfg div m) + m"
    using m minus_mod_eq_mult_div[of "MaxMemory cfg" m] pos_mod_bound[OF m, of "MaxMemory cfg"]
      pos_mod_sign[OF m, of "MaxMemory cfg"] by linarith+
  ultimately show ?thesis
    using sharded_inv_New len sum by (simp add: sc_def m_def effectiveWorkerCount_def DefaultThreadCount_def)
qed

section \<open>Sequences of calls\<close>

fun run_calls :: "(env \<times> Request) list \<Rightarrow> ShardedCache \<Rightarrow> (ShardedCache \<times> Response list) option" where
  "run_calls [] sc = Some (sc, [])"
| "run_calls ((en, req) # cs) sc = do {
     (sc, r) \<leftarrow> cache_call en req sc;
     (sc, rs) \<leftarrow> run_calls cs sc;
     Some (sc, r # rs)
   }"

definition calls_for :: "ShardedCache \<Rightarrow> nat \<Rightarrow> (env \<times> Request) list \<Rightarrow> loop_event list" where
  "calls_for sc i cs =
    map (\<lambda>(en, req). Serve en req) (filter (\<lambda>(en, req). workerFor sc (reqKey req) = i) cs)"

lemma calls_for_simps [simp]:
  "calls_for sc i [] = []"
  "calls_for sc i ((en, req) # cs) =
    (if workerFor sc (reqKey req) = i then Serve en req # calls_for sc i cs else calls_for sc i cs)"
  by (simp_all add: calls_for_def)

lemma calls_for_update [simp]: "calls_for (sc\<lparr>workers := (workers sc)[j := w]\<rparr>) i cs = calls_for sc i cs"
  by (simp add: calls_for_def)

lemma after_Serve:
  assumes "worker_inv w"
  shows "after (Serve en req # evs) w = after evs (next_worker en req w)"
proof -
  obtain w' l where "run_loop evs (next_worker en req w) = Some (w', l)"
    using run_after(1)[OF serve(2)[OF assms]] by blast
  then show ?thesis using serve(1)[OF assms, of en req] by (simp add: after_def)
qed

lemma after_Nil [simp]: "after [] w = w"
  by (simp add: after_def)

text \<open>
  The shards are independent: every sequence of keyed calls returns, keeps the invariant
  that each key is stored only in the shard of its hash, and leaves each shard in the state
  that the calls routed to it produce on their own, in their order.
\<close>

theorem shards_are_independent:
  assumes "sharded_inv sc"
  shows "\<exists>sc' rs. run_calls cs sc = Some (sc', rs) \<and> sharded_inv sc' \<and> length rs = length cs \<and>
    workers sc' = map (\<lambda>i. after (calls_for sc i cs) (workers sc ! i)) [0..<length (workers sc)]"
  using assms
proof (induction cs arbitrary: sc)
  case Nil
  then show ?case by (simp add: map_nth)
next
  case (Cons c cs)
  obtain en req where c: "c = (en, req)" by (cases c)
  define i where "i = workerFor sc (reqKey req)"
  let ?sc = "sc\<lparr>workers := (workers sc)[i := next_worker en req (workers sc ! i)]\<rparr>"
  have call: "cache_call en req sc = Some (?sc, answer en req (workers sc ! i))"
    using cache_call_Some[OF Cons.prems] by (simp add: i_def)
  have inv: "sharded_inv ?sc" using sharded_inv_next[OF Cons.prems] by (simp add: i_def)
  have i: "i < length (workers sc)" "worker_inv (workers sc ! i)"
    using sharded_invD(2,3)[OF Cons.prems] by (simp_all add: i_def)
  have "map (\<lambda>j. after (calls_for ?sc j cs) (workers ?sc ! j)) [0..<length (workers ?sc)] =
      map (\<lambda>j. after (calls_for sc j (c # cs)) (workers sc ! j)) [0..<length (workers sc)]"
    using i by (auto simp: c after_Serve i_def[symmetric])
  with Cons.IH[OF inv] call show ?case by (auto simp: c)
qed

definition two_shards :: ShardedCache where
  "two_shards = NewSharded (\<lambda>i. 0) 0 (DefaultConfig\<lparr>MaxMemory := 0\<rparr>) 2"

definition shard_calls :: "(env \<times> Request) list" where
  "shard_calls = [(at_time 0, mk_req OpSet ''a'' ''1'' 0), (at_time 0, mk_req OpSet ''b'' ''2'' 0),
     (at_time 1, mk_req OpGet ''a'' [] 0)]"

theorem shards_are_independent_witness:
  "\<exists>sc' rs. run_calls shard_calls two_shards = Some (sc', rs) \<and> sharded_inv sc' \<and> length rs = 3 \<and>
     workerFor two_shards ''a'' \<noteq> workerFor two_shards ''b''"
proof -
  have "sharded_inv two_shards" by (simp add: two_shards_def sharded_inv_New)
  from shards_are_independent[OF this, of shard_calls]
  have "\<exists>sc' rs. run_calls shard_calls two_shards = Some (sc', rs) \<and> sharded_inv sc' \<and> length rs = 3"
    by (auto simp: shard_calls_def)
  moreover have "workerFor two_shards ''a'' \<noteq> workerFor two_shards ''b''" by code_simp
  ultimately show ?thesis by blast
qed

section \<open>The methods of the interface\<close>

lemma parse_counter_digits:
  "parse_digits maxv n s = Inr m \<Longrightarrow> parse_counter (of_int n) s = of_int m"
proof (induction s arbitrary: n)
  case (Cons c s)
  then have "is_digit c" "parse_counter (of_int (n * 10 + digit_of c)) s = of_int m"
    by (auto simp: Let_def simp del: of_int_add of_int_mult split: if_splits)
  then show ?case by simp
qed simp

lemma parse_counter_FormatUint: "0 \<le> n \<Longrightarrow> parse_counter 0 (FormatUint n) = of_int n"
  using parse_counter_digits[OF parse_digits_FormatUint[of n n]] by simp

lemma answer_count:
  assumes inv: "worker_inv w" and op: "Op req = (if up then OpIncr else OpDecr)"
    and live: "live_item en w (reqKey req) = Some i" and num: "ParseUint (ival i) 64 = Inr n"
  shows "Err (answer en req w) = None" and "respCas (answer en req w) = casCounter w + 1"
    and "parse_counter 0 (respValue (answer en req w)) = counter_result up (of_int n) (Delta req)"
proof -
  have l: "a_live (UnixMilli (check_now en)) (reqKey req) (abs_worker w) = Some i"
    using live live_item_find[OF inv] by simp
  have "a_step en req (abs_worker w) = a_count en (reqKey req) (Delta req) up (abs_worker w)"
    using op by (cases up) (simp_all add: a_step_def Let_def)
  then show "Err (answer en req w) = None" "respCas (answer en req w) = casCounter w + 1"
    "parse_counter 0 (respValue (answer en req w)) = counter_result up (of_int n) (Delta req)"
    using l num by (simp_all add: answer_abs[OF inv] a_count_def Let_def parse_counter_FormatUint)
qed

text \<open>
  \<open>Increment\<close> and \<open>Decrement\<close> return, as a machine integer read back from the response's
  text, the sum modulo \<open>2 ^ 64\<close> and the difference cut off at zero of the stored decimal number
  and the argument.
\<close>

theorem increment_returns_number:
  assumes "sharded_inv sc" and "live_item en (workers sc ! workerFor sc key) key = Some i"
    and "ParseUint (ival i) 64 = Inr n"
  shows "(\<exists>sc' cas. Increment en key d sc = Some (sc', of_int (counted OpIncr n (uint d)), cas, None)) \<and>
    (\<exists>sc' cas. Decrement en key d sc = Some (sc', of_int (counted OpDecr n (uint d)), cas, None))"
proof -
  let ?w = "workers sc ! workerFor sc key"
  let ?req = "\<lambda>up. (key_req (if up then OpIncr else OpDecr) key)\<lparr>Delta := d\<rparr>"
  have w: "worker_inv ?w" by (rule sharded_invD(2)[OF assms(1)])
  have k: "reqKey (?req up) = key" "Delta (?req up) = d" "Op (?req up) = (if up then OpIncr else OpDecr)" for up
    by (simp_all add: key_req_def)
  have a: "Err (answer en (?req up) ?w) = None"
    "parse_counter 0 (respValue (answer en (?req up) ?w)) = counter_result up (of_int n) d" for up
    using answer_count[OF w k(3), of en up i n] assms(2,3) k by auto
  have n: "0 \<le> n \<and> n < 2 ^ 64" using ParseUint_range[OF assms(3)] .
  have v: "counter_result True (of_int n) d = of_int (counted OpIncr n (uint d))"
    "counter_result False (of_int n) d = of_int (counted OpDecr n (uint d))"
    using counter_result_value[of n d] n by (metis word_of_int_uint)+
  have s: "sendRequest en (workerFor sc key) (?req up) sc =
      Some (sc\<lparr>workers := (workers sc)[workerFor sc key := next_worker en (?req up) ?w]\<rparr>, answer en (?req up) ?w)" for up
    by (simp add: sendRequest_def serve(1)[OF w])
  show ?thesis
    using s[of True] s[of False] a[of True] a[of False] v
    by (simp add: Increment_def Decrement_def count_result_def)
qed

lemma Set_inv:
  assumes "sharded_inv sc"
  shows "sharded_inv (fst (the (Set en k v ttl sc)))"
proof -
  let ?r = "(key_req OpSet k)\<lparr>reqValue := v, TTL := ttl\<rparr>"
  show ?thesis
    using cache_call_Some[OF assms, where req = ?r and en = en] sharded_inv_next[OF assms, where req = ?r and en = en]
    by (simp add: Set_def cas_err_def cache_call_def key_req_def)
qed

definition counter_cache :: ShardedCache where
  "counter_cache = fst (the (Set (at_time 0) ''n'' ''41'' 0 two_shards))"

theorem increment_returns_number_witness:
  "(\<exists>sc' cas. Increment (at_time 0) ''n'' 1 counter_cache = Some (sc', 42, cas, None)) \<and>
   (\<exists>sc' cas. Decrement (at_time 0) ''n'' 1 counter_cache = Some (sc', 40, cas, None))"
proof -
  have "sharded_inv two_shards" by (simp add: two_shards_def sharded_inv_New)
  then have inv: "sharded_inv counter_cache"
    by (simp add: counter_cache_def Set_inv)
  obtain i where i: "live_item (at_time 0) (workers counter_cache ! workerFor counter_cache ''n'') ''n'' = Some i"
    "ParseUint (ival i) 64 = Inr 41"
  proof -
    have "map_option (\<lambda>i. ParseUint (ival i) 64)
        (live_item (at_time 0) (workers counter_cache ! workerFor counter_cache ''n'') ''n'') = Some (Inr 41)"
      by code_simp
    then show thesis using that by auto
  qed
  from increment_returns_number[OF inv i, of 1] show ?thesis by (simp add: counted_def)
qed

lemma handleFlushAll_step:
  "handleRequest en (key_req OpFlushAll []) w = Some (w\<lparr>index := NewIndex, usedMemory := 0\<rparr>, ok_resp)"
  by (simp add: handleRequest_def key_req_def handleFlushAll_def)

lemma flush_workers_Some:
  assumes "set is \<subseteq> {0..<length (workers sc)}"
  shows "flush_workers en is sc = Some (sc\<lparr>workers :=
    map (\<lambda>i. if i \<in> set is then (workers sc ! i)\<lparr>index := NewIndex, usedMemory := 0\<rparr> else workers sc ! i)
      [0..<length (workers sc)]\<rparr>)"
  using assms
proof (induction "is" arbitrary: sc)
  case Nil
  then show ?case by (simp add: map_nth)
next
  case (Cons i "is")
  let ?w = "(workers sc ! i)\<lparr>index := NewIndex, usedMemory := 0\<rparr>"
  let ?sc = "sc\<lparr>workers := (workers sc)[i := ?w]\<rparr>"
  have "flush_workers en (i # is) sc = flush_workers en is ?sc"
    by (simp add: sendRequest_def handleFlushAll_step)
  also have "\<dots> = Some (?sc\<lparr>workers :=
      map (\<lambda>j. if j \<in> set is then (workers ?sc ! j)\<lparr>index := NewIndex, usedMemory := 0\<rparr> else workers ?sc ! j)
        [0..<length (workers ?sc)]\<rparr>)"
    using Cons by simp
  finally show ?case using Cons.prems by (auto intro!: nth_equalityI simp: nth_list_update)
qed

lemma map_eq_flush:
  "map (\<lambda>i. if i < length xs then f (xs ! i) else xs ! i) [0..<length xs] = map f xs"
  by (rule nth_equalityI) simp_all

lemma stored_empty: "index w = NewIndex \<Longrightarrow> stored w k = None"
  by (simp add: stored_def Index_Get_def NewIndex_def)

lemma FlushAll_result:
  "FlushAll en sc = Some (sc\<lparr>workers := map (\<lambda>w. w\<lparr>index := NewIndex, usedMemory := 0\<rparr>) (workers sc)\<rparr>)"
  using flush_workers_Some[of "[0..<length (workers sc)]" sc en]
    map_eq_flush[of "workers sc" "\<lambda>w :: Worker. w\<lparr>index := NewIndex, usedMemory := 0\<rparr>"]
  by (simp add: FlushAll_def)

lemma FlushAll_returns:
  assumes "sharded_inv sc"
  shows "\<exists>sc'. FlushAll en sc = Some sc' \<and> sharded_inv sc'"
  using sharded_invD(1)[OF assms]
  by (simp add: FlushAll_result sharded_inv_def worker_inv_def idx_inv_New stored_empty)

text \<open>
  \<open>FlushAll\<close> returns with every shard empty and every account at zero; no key is found any
  more, and the item statistics say so. CAS counters and configuration are kept.
\<close>

theorem FlushAll_empties:
  assumes inv: "sharded_inv sc"
  shows "\<exists>sc'. FlushAll en sc = Some sc' \<and> sharded_inv sc' \<and> (\<forall>k. lookup sc' k = None) \<and>
    list_all (\<lambda>w. usedMemory w = 0 \<and> bytes_stored w = 0) (workers sc') \<and>
    map casCounter (workers sc') = map casCounter (workers sc) \<and>
    CacheStats sc' = [(''curr_items'', ''0'')]"
proof -
  let ?f = "\<lambda>w :: Worker. w\<lparr>index := NewIndex, usedMemory := 0\<rparr>"
  let ?sc = "sc\<lparr>workers := map ?f (workers sc)\<rparr>"
  have F: "FlushAll en sc = Some ?sc" by (rule FlushAll_result)
  have ne: "workers sc \<noteq> []" using sharded_invD(1)[OF inv] .
  have e: "stored (?f w) k = None" for w k by (simp add: stored_empty)
  have "Index_Count NewIndex = 0" using ix.count_contents[OF idx_inv_New] by (simp add: items_New)
  then have "sum_list (map (\<lambda>w. int (Index_Count (index w))) (workers ?sc)) = 0"
    by (simp add: comp_def sum_list_0)
  moreover have "FormatInt 0 = ''0''" by code_simp
  ultimately have "CacheStats ?sc = [(''curr_items'', ''0'')]" by (simp add: CacheStats_def)
  moreover have "sharded_inv ?sc" using ne e by (simp add: sharded_inv_def worker_inv_def idx_inv_New)
  moreover have "lookup ?sc k = None" for k
    using workerFor_less[of ?sc k] ne e by (simp add: lookup_def)
  moreover have "list_all (\<lambda>w. usedMemory w = 0 \<and> bytes_stored w = 0) (workers ?sc)"
    by (simp add: list_all_iff bytes_stored_def items_New)
  ultimately show ?thesis using F by (simp add: comp_def)
qed

theorem FlushAll_empties_witness:
  "\<exists>sc'. FlushAll (at_time 0) two_shards = Some sc' \<and> CacheStats sc' = [(''curr_items'', ''0'')]"
proof -
  have "sharded_inv two_shards" by (simp add: two_shards_def sharded_inv_New)
  from FlushAll_empties[OF this, of "at_time 0"] show ?thesis by blast
qed

text \<open>
  The item count in the statistics is the number of keys stored in the whole cache: no key
  is counted twice, because it lives in one shard only.
\<close>

theorem CacheStats_counts_keys:
  assumes inv: "sharded_inv sc"
  shows "CacheStats sc = [(''curr_items'', FormatInt (int (card {k. lookup sc k \<noteq> None})))]"
proof -
  let ?n = "length (workers sc)" and ?K = "\<lambda>i. {k. stored (workers sc ! i) k \<noteq> None}"
  have K: "finite (?K i) \<and> card (?K i) = Index_Count (index (workers sc ! i))" if "i < ?n" for i
  proof -
    let ?w = "workers sc ! i"
    have w: "worker_inv ?w" using sharded_invD(4)[OF inv that] .
    have "?K i = ikey ` set (items (index ?w))"
      by (auto simp: stored_find[OF w] a_find_None_iff)
    moreover have "card (ikey ` set (items (index ?w))) = length (items (index ?w))"
      using worker_distinct[OF w] by (metis keys_distinct_def distinct_card length_map set_map)
    ultimately show ?thesis using ix.count_contents[of "index ?w"] w by (simp add: worker_inv_def)
  qed
  have "{k. lookup sc k \<noteq> None} = (\<Union>i \<in> {0..<?n}. ?K i)"
  proof (intro set_eqI iffI)
    fix k
    show "k \<in> (\<Union>i \<in> {0..<?n}. ?K i)" if "k \<in> {k. lookup sc k \<noteq> None}"
      using that sharded_invD(3)[OF inv, of k] by (auto simp: lookup_def)
    show "k \<in> {k. lookup sc k \<noteq> None}" if "k \<in> (\<Union>i \<in> {0..<?n}. ?K i)"
    proof -
      obtain i where i: "i < ?n" "stored (workers sc ! i) k \<noteq> None" using \<open>k \<in> (\<Union>i \<in> {0..<?n}. ?K i)\<close> by auto
      then show ?thesis using sharded_invD(5)[OF inv i] by (simp add: lookup_def)
    qed
  qed
  moreover have "card (\<Union>i \<in> {0..<?n}. ?K i) = (\<Sum>i = 0..<?n. card (?K i))"
  proof (rule card_UN_disjoint)
    show "\<forall>i \<in> {0..<?n}. \<forall>j \<in> {0..<?n}. i \<noteq> j \<longrightarrow> ?K i \<inter> ?K j = {}"
    proof (intro ballI impI)
      fix i j assume "i \<in> {0..<?n}" "j \<in> {0..<?n}" "i \<noteq> j"
      then show "?K i \<inter> ?K j = {}"
        using sharded_invD(5)[OF inv, of i] sharded_invD(5)[OF inv, of j] by auto
    qed
  qed (use K in auto)
  moreover have "(\<Sum>i = 0..<?n. card (?K i)) = (\<Sum>i = 0..<?n. Index_Count (index (workers sc ! i)))"
    using K by (intro sum.cong) auto
  moreover have "sum_list (map (\<lambda>w. int (Index_Count (index w))) (workers sc)) =
      (\<Sum>i = 0..<?n. int (Index_Count (index (workers sc ! i))))"
    by (simp add: sum_list_sum_nth)
  ultimately show ?thesis by (simp add: CacheStats_def)
qed

theorem CacheStats_counts_keys_witness:
  "FormatInt (int (card {k. lookup counter_cache k \<noteq> None})) = ''1''"
proof -
  have "sharded_inv two_shards" by (simp add: two_shards_def sharded_inv_New)
  then have "sharded_inv counter_cache"
    by (simp add: counter_cache_def Set_inv)
  from CacheStats_counts_keys[OF this]
  have "CacheStats counter_cache = [(''curr_items'', FormatInt (int (card {k. lookup counter_cache k \<noteq> None})))]" .
  moreover have "CacheStats counter_cache = [(''curr_items'', ''1'')]" by code_simp
  ultimately show ?thesis by simp
qed

end
