(* ===== verification/MapCache.thy ===== *)
theory MapCache
  imports ShardedProps
begin

text \<open>
  The simplest specification of the cache. Without a memory limit and without expiry times nothing
  ever leaves the cache on its own, and then the whole machinery, hashing to shards, workers, heap
  and recency list, is a finite map from keys to values with a token each, drawn from a counter per
  shard. \<open>plain_step\<close> is that map; the sharded cache implements it call by call, also when calls of
  many clients are mixed, since they are one sequence for each worker.
\<close>

section \<open>The map\<close>

text \<open>
  What a request does to the entry of its key and to the counter of the key's shard, and its
  response. Every operation that stores issues the next token.
\<close>

definition put_entry :: "bytes \<Rightarrow> bytes \<Rightarrow> uint64 \<Rightarrow> (bytes \<times> uint64) option \<times> uint64 \<times> Response" where
  "put_entry v shown n = (Some (v, n + 1), n + 1, ok_resp\<lparr>respValue := shown, respCas := n + 1\<rparr>)"

definition key_step ::
  "Request \<Rightarrow> (bytes \<times> uint64) option \<Rightarrow> uint64 \<Rightarrow> (bytes \<times> uint64) option \<times> uint64 \<times> Response" where
  "key_step req e n =
    (let refuse = (\<lambda>err. (e, n, err_resp err)); absent = refuse ErrKeyNotFound; put = put_entry (reqValue req) []
     in case e of
       None \<Rightarrow> if Op req = OpSet \<or> Op req = OpAdd then put n else absent
     | Some (v, token) \<Rightarrow>
         (case Op req of
            OpGet \<Rightarrow> (e, n, ok_resp\<lparr>respValue := v, respCas := token\<rparr>)
          | OpSet \<Rightarrow> put n
          | OpAdd \<Rightarrow> refuse ErrKeyExists
          | OpReplace \<Rightarrow> put n
          | OpCas \<Rightarrow> if token = reqCas req then put n else refuse ErrCasMismatch
          | OpDelete \<Rightarrow> (None, n, ok_resp)
          | OpTouch \<Rightarrow> put_entry v [] n
          | OpAppend \<Rightarrow> put_entry (v @ reqValue req) [] n
          | OpPrepend \<Rightarrow> put_entry (reqValue req @ v) [] n
          | _ \<Rightarrow> \<comment> \<open>increment and decrement\<close>
              if Op req = OpIncr \<or> Op req = OpDecr then
                (case ParseUint v 64 of
                   Inl _ \<Rightarrow> refuse ErrNotNumeric
                 | Inr m \<Rightarrow> let s = FormatUint (uint (counter_result (Op req = OpIncr) (of_int m) (Delta req)))
                     in put_entry s s n)
              else absent))"

record plain =
  entry :: "string \<Rightarrow> (bytes \<times> uint64) option"
  counter :: "nat \<Rightarrow> uint64"

definition plain_step :: "(string \<Rightarrow> nat) \<Rightarrow> Request \<Rightarrow> plain \<Rightarrow> plain \<times> Response" where
  "plain_step shard req p =
    (let k = reqKey req; i = shard k
     in case key_step req (entry p k) (counter p i) of
       (e, n, resp) \<Rightarrow> (p\<lparr>entry := (entry p)(k := e), counter := (counter p)(i := n)\<rparr>, resp))"

fun plain_run :: "(string \<Rightarrow> nat) \<Rightarrow> Request list \<Rightarrow> plain \<Rightarrow> plain \<times> Response list" where
  "plain_run shard [] p = (p, [])"
| "plain_run shard (req # reqs) p =
    (case plain_step shard req p of (p, r) \<Rightarrow>
       (case plain_run shard reqs p of (p, rs) \<Rightarrow> (p, r # rs)))"

section \<open>The cache as that map\<close>

definition plain_of :: "ShardedCache \<Rightarrow> plain" where
  "plain_of sc = \<lparr>entry = (\<lambda>k. map_option (\<lambda>i. (ival i, icas i)) (lookup sc k)),
     counter = (\<lambda>i. casCounter (workers sc ! i))\<rparr>"

text \<open>Nothing is to be evicted or to expire.\<close>

definition keeps_all :: "acache \<Rightarrow> bool" where
  "keeps_all c \<longleftrightarrow> amax c \<le> 0 \<and> attl c \<le> 0 \<and> (\<forall>i \<in> set (aitems c). isoft i = 0 \<and> ihard i = 0)"

definition everlasting :: "ShardedCache \<Rightarrow> bool" where
  "everlasting sc \<longleftrightarrow> (\<forall>w \<in> set (workers sc). keeps_all (abs_worker w))"

lemma keeps_find: "keeps_all c \<Longrightarrow> a_find k (aitems c) = Some i \<Longrightarrow> isoft i = 0 \<and> ihard i = 0"
  using a_find_in[of k "aitems c" i] by (auto simp: keeps_all_def)

lemma keeps_live: "keeps_all c \<Longrightarrow> a_live now k c = a_find k (aitems c)"
  using keeps_find[of c k] by (auto simp: a_live_def hard_expired_def split: option.split)

lemma keeps_room [simp]: "keeps_all c \<Longrightarrow> a_make_room n c = c"
  by (simp add: a_make_room_def keeps_all_def)

lemma keeps_times [simp]:
  "keeps_all c \<Longrightarrow> ttl \<le> 0 \<Longrightarrow> expiry_times en m (effective_ttl (attl c) ttl) = (0, 0)"
  by (auto simp: expiry_times_def effective_ttl_def keeps_all_def)

definition entry_of_item :: "item \<Rightarrow> bytes \<times> uint64" where
  "entry_of_item i = (ival i, icas i)"

lemma keeps_allD: "keeps_all c \<Longrightarrow> i \<in> set (aitems c) \<Longrightarrow> isoft i = 0 \<and> ihard i = 0"
  by (simp add: keeps_all_def)

lemma set_a_set: "x \<in> set (a_set i its) \<Longrightarrow> x = i \<or> x \<in> set its"
  by (auto simp: a_set_def a_delete_def)

lemma set_a_deleteD: "x \<in> set (a_delete k its) \<Longrightarrow> x \<in> set its"
  by (simp add: a_delete_def)

lemma keeps_all_step:
  assumes k: "keeps_all c" and t: "TTL req \<le> 0" and st: "a_step en req c = (c', r)"
  shows "keeps_all c'"
proof -
  note cfg = a_step_config[OF st]
  have "isoft i = 0 \<and> ihard i = 0" if "i \<in> set (aitems c')" for i
    using that st k t keeps_find[OF k, of "reqKey req"]
    by (cases "Op req")
      (auto simp: a_step_def a_op_defs Let_def keeps_live[OF k] dest!: set_a_set set_a_deleteD dest: keeps_allD
        split: option.splits if_splits sum.splits)
  then show ?thesis using k cfg by (simp add: keeps_all_def)
qed

lemma key_step_abs:
  assumes k: "keeps_all c" and t: "TTL req \<le> 0" and q: "keyed req" and st: "a_step en req c = (c', r)"
  shows "key_step req (map_option entry_of_item (a_find (reqKey req) (aitems c))) (acas c) =
      (map_option entry_of_item (a_find (reqKey req) (aitems c')), acas c', r)"
proof (cases "a_find (reqKey req) (aitems c)")
  case None
  then show ?thesis
    using k t q st
    by (cases "Op req")
      (auto simp: a_step_def a_op_defs Let_def keeps_live[OF k] key_step_def put_entry_def keyed_def entry_of_item_def)
next
  case (Some i)
  note i = keeps_find[OF k Some] a_find_ikey[OF Some]
  show ?thesis
    using k t q st Some i
    by (cases "Op req")
      (auto simp: a_step_def a_op_defs Let_def keeps_live[OF k] key_step_def put_entry_def keyed_def entry_of_item_def
        hard_expired_def ok_resp_def split: if_splits sum.splits)
qed

lemma other_keys_kept:
  assumes k: "keeps_all c" and t: "TTL req \<le> 0" and q: "keyed req" and st: "a_step en req c = (c', r)" and "k' \<noteq> reqKey req"
  shows "a_find k' (aitems c') = a_find k' (aitems c)"
proof -
  note f = a_find_ikey[of "reqKey req" "aitems c"]
  show ?thesis
    using assms(2,3,4,5) k
    by (cases "Op req")
      (auto simp: a_step_def a_op_defs Let_def keeps_live[OF k] keyed_def dest!: f split: option.splits if_splits sum.splits)
qed

lemma everlasting_worker: "everlasting sc \<Longrightarrow> i < length (workers sc) \<Longrightarrow> keeps_all (abs_worker (workers sc ! i))"
  by (simp add: everlasting_def)

lemma entry_plain: "sharded_inv sc \<Longrightarrow>
  entry (plain_of sc) k = map_option entry_of_item (a_find k (items (index (workers sc ! workerFor sc k))))"
  using stored_find[OF sharded_invD(2), of sc k k] by (simp add: plain_of_def lookup_def entry_of_item_def[abs_def])

lemma call_is_plain_step:
  assumes inv: "sharded_inv sc" and ev: "everlasting sc" and q: "keyed req" "TTL req \<le> 0"
  shows "\<exists>sc' r. cache_call en req sc = Some (sc', r) \<and> plain_step (workerFor sc) req (plain_of sc) = (plain_of sc', r) \<and>
    sharded_inv sc' \<and> everlasting sc' \<and> workerFor sc' = workerFor sc"
proof -
  define i where "i = workerFor sc (reqKey req)"
  let ?w = "workers sc ! i" and ?w' = "next_worker en req (workers sc ! i)"
  let ?sc = "sc\<lparr>workers := (workers sc)[i := ?w']\<rparr>"
  have n: "i < length (workers sc)" and w: "worker_inv ?w"
    using sharded_invD(2,3)[OF inv, of "reqKey req"] by (simp_all add: i_def)
  have k: "keeps_all (abs_worker ?w)" using everlasting_worker[OF ev n] .
  note st = serve(3)[OF w, of en req]
  have call: "cache_call en req sc = Some (?sc, answer en req ?w)"
    using cache_call_Some[OF inv, of en req] by (simp add: i_def)
  have inv': "sharded_inv ?sc" using sharded_inv_next[OF inv, where req = req and en = en] by (simp add: i_def)
  have "keeps_all (abs_worker ?w')" using keeps_all_step[OF k q(2) st] .
  then have ev': "everlasting ?sc" using ev by (auto simp: everlasting_def dest!: set_update_subset_insert[THEN subsetD])
  have e: "entry (plain_of ?sc) k' = (if k' = reqKey req
      then map_option entry_of_item (a_find (reqKey req) (items (index ?w'))) else entry (plain_of sc) k')" for k'
    using n other_keys_kept[OF k q(2,1) st, of k'] entry_plain[OF inv', of k'] entry_plain[OF inv, of k']
    by (auto simp: i_def nth_list_update)
  have c: "counter (plain_of ?sc) = (counter (plain_of sc))(i := casCounter ?w')"
    using n by (auto simp: plain_of_def nth_list_update)
  have "key_step req (entry (plain_of sc) (reqKey req)) (counter (plain_of sc) i) =
      (map_option entry_of_item (a_find (reqKey req) (items (index ?w'))), casCounter ?w', answer en req ?w)"
    using key_step_abs[OF k q(2,1) st] entry_plain[OF inv, of "reqKey req"] by (simp add: plain_of_def i_def)
  then have "plain_step (workerFor sc) req (plain_of sc) = (plain_of ?sc, answer en req ?w)"
    using e c by (auto simp: plain_step_def Let_def i_def[symmetric] fun_eq_iff intro!: plain.equality)
  with call inv' ev' show ?thesis by (intro exI[of _ ?sc] exI[of _ "answer en req ?w"]) (simp add: fun_eq_iff)
qed

text \<open>
  C2. A cache without a memory limit and without expiry times is a finite map. Every sequence of
  calls that give no time to live returns, and its responses and the values and tokens then stored
  are those of one map from keys to values with a token counter for each shard: nothing is lost,
  nothing is mixed up between keys, shards or calls.
\<close>

theorem cache_is_a_map:
  assumes "sharded_inv sc" and "everlasting sc" and "\<forall>(en, req) \<in> set cs. keyed req \<and> TTL req \<le> 0"
  shows "\<exists>sc' rs. run_calls cs sc = Some (sc', rs) \<and>
    plain_run (workerFor sc) (map snd cs) (plain_of sc) = (plain_of sc', rs) \<and> sharded_inv sc' \<and> everlasting sc'"
  using assms
proof (induction cs arbitrary: sc)
  case (Cons x cs)
  obtain en req where x: "x = (en, req)" by (cases x)
  obtain sc1 r where 1: "cache_call en req sc = Some (sc1, r)" "sharded_inv sc1" "everlasting sc1"
    "plain_step (workerFor sc) req (plain_of sc) = (plain_of sc1, r)" "workerFor sc1 = workerFor sc"
    using call_is_plain_step[OF Cons.prems(1,2), of req en] Cons.prems(3) x by auto
  from Cons.IH[OF 1(2,3)] Cons.prems(3) obtain sc' rs where "run_calls cs sc1 = Some (sc', rs)"
    "plain_run (workerFor sc1) (map snd cs) (plain_of sc1) = (plain_of sc', rs)" "sharded_inv sc'" "everlasting sc'"
    by auto
  then show ?case using 1 by (simp add: x)
qed simp

text \<open>A new cache without a limit and without a default time to live is such a cache, and empty.\<close>

lemma new_everlasting:
  assumes "MaxMemory cfg = 0" and "cfgDefaultTTL cfg \<le> 0"
  shows "everlasting (NewSharded clock start cfg n)" and "entry (plain_of (NewSharded clock start cfg n)) k = None"
proof -
  have "keeps_all (abs_worker (NewWorker t (cfgDefaultTTL cfg) (go_div (MaxMemory cfg) m) s))" for t m s
    using assms by (simp add: keeps_all_def NewWorker_def go_div_def items_New abs_worker_def)
  then show "everlasting (NewSharded clock start cfg n)" by (auto simp: everlasting_def NewSharded_def Let_def)
  show "entry (plain_of (NewSharded clock start cfg n)) k = None"
    using NewSharded_memory[of cfg "NewSharded clock start cfg n" clock start n] assms by (simp add: plain_of_def)
qed

definition map_calls :: "(env \<times> Request) list" where
  "map_calls = [(at_time 0, mk_req OpSet ''a'' ''1'' 0), (at_time 5, mk_req OpAppend ''a'' ''2'' 0),
     (at_time 7, mk_req OpAdd ''b'' ''x'' 0), (at_time 9, mk_req OpGet ''a'' [] 0)]"

theorem cache_is_a_map_witness:
  "\<exists>sc' rs. run_calls map_calls two_shards = Some (sc', rs) \<and> respValue (rs ! 3) = ''12'' \<and>
    snd (plain_run (workerFor two_shards) (map snd map_calls) (plain_of two_shards)) = rs"
proof -
  have i: "sharded_inv two_shards" "everlasting two_shards"
    by (simp_all add: two_shards_def sharded_inv_New new_everlasting DefaultConfig_def)
  have "\<forall>(en, req) \<in> set map_calls. keyed req \<and> TTL req \<le> 0" by code_simp
  from cache_is_a_map[OF i this] obtain sc' rs where r: "run_calls map_calls two_shards = Some (sc', rs)"
    "plain_run (workerFor two_shards) (map snd map_calls) (plain_of two_shards) = (plain_of sc', rs)" by blast
  have "entry (plain_of two_shards) k = None" for k by (simp add: two_shards_def new_everlasting DefaultConfig_def)
  then have "respValue (snd (plain_run (workerFor two_shards) (map snd map_calls) (plain_of two_shards)) ! 3) = ''12''"
    by (simp add: map_calls_def mk_req_def plain_step_def key_step_def put_entry_def Let_def)
  then show ?thesis using r by simp
qed

end
