(* ===== verification/Shards.thy ===== *)
theory Shards
  imports ShardedProps
begin

text \<open>
  Clients and workers running concurrently. A client (a connection's goroutine) calls
  \<open>sendRequest\<close>: it sends its request on the worker's buffered channel and then blocks on its own
  response channel, which has room for one response. Each worker's goroutine repeatedly takes
  up a request, a timer tick or the stop signal. The state keeps the channels' contents; one
  step is one channel operation of the code. Clients are numbered, and a client has at most
  one call under way. The capacity of the request channels is \<open>cap\<close>, the configuration's
  \<open>ChannelCapacity\<close>; it is assumed positive (buffered channels) where a statement needs it. A worker may stop at any
  time; theory \<open>Lifecycle\<close> says when it does, and \<open>ChannelPool\<close> where the response channels come from.
\<close>

section \<open>States and steps\<close>

record System =
  cache :: ShardedCache
  queues :: "nat \<Rightarrow> (nat \<times> Request) list"
  waiting :: "nat \<Rightarrow> (nat \<times> Request) option"
  respchan :: "nat \<Rightarrow> Response option"
  stopped :: "nat \<Rightarrow> bool"

datatype label = Sent nat nat Request | Served nat nat env Request Response
  | Received nat Response | Ticked nat int | Stopped nat

definition init_system :: "ShardedCache \<Rightarrow> System" where
  "init_system sc = \<lparr>cache = sc, queues = (\<lambda>i. []), waiting = (\<lambda>c. None), respchan = (\<lambda>c. None),
     stopped = (\<lambda>i. False)\<rparr>"

definition set_worker :: "nat \<Rightarrow> Worker \<Rightarrow> System \<Rightarrow> System" where
  "set_worker i w s = s\<lparr>cache := (cache s)\<lparr>workers := (workers (cache s))[i := w]\<rparr>\<rparr>"

text \<open>
  A keyed request goes to the worker of its key; a flush goes to each worker in turn. A
  response is put on the client's channel only when there is room: a full channel would block
  the worker.
\<close>

inductive step :: "nat \<Rightarrow> System \<Rightarrow> label \<Rightarrow> System \<Rightarrow> bool" for cap where
  send: "waiting s c = None \<Longrightarrow> i < length (workers (cache s)) \<Longrightarrow>
    Op req = OpFlushAll \<or> i = workerFor (cache s) (reqKey req) \<Longrightarrow>
    length (queues s i) < cap \<Longrightarrow>
    step cap s (Sent c i req)
      (s\<lparr>queues := (queues s)(i := queues s i @ [(c, req)]), waiting := (waiting s)(c := Some (i, req))\<rparr>)"
| serve_request: "i < length (workers (cache s)) \<Longrightarrow> \<not> stopped s i \<Longrightarrow> queues s i = (c, req) # q \<Longrightarrow>
    handleRequest en req (workers (cache s) ! i) = Some (w, resp) \<Longrightarrow> respchan s c = None \<Longrightarrow>
    step cap s (Served c i en req resp)
      (set_worker i w (s\<lparr>queues := (queues s)(i := q), respchan := (respchan s)(c := Some resp)\<rparr>))"
| receive: "waiting s c = Some (i, req) \<Longrightarrow> respchan s c = Some resp \<Longrightarrow>
    step cap s (Received c resp)
      (s\<lparr>waiting := (waiting s)(c := None), respchan := (respchan s)(c := None)\<rparr>)"
| tick: "i < length (workers (cache s)) \<Longrightarrow> \<not> stopped s i \<Longrightarrow>
    expireKeys now (workers (cache s) ! i) = Some w \<Longrightarrow>
    step cap s (Ticked i now) (set_worker i w s)"
| stop: "i < length (workers (cache s)) \<Longrightarrow>
    step cap s (Stopped i) (s\<lparr>stopped := (stopped s)(i := True)\<rparr>)"

inductive_cases step_SentE: "step cap s (Sent c i req) s'"
inductive_cases step_ServedE: "step cap s (Served c i en req resp) s'"
inductive_cases step_ReceivedE: "step cap s (Received c resp) s'"
inductive_cases step_TickedE: "step cap s (Ticked i now) s'"
inductive_cases step_StoppedE: "step cap s (Stopped i) s'"
inductive_simps step_Received_iff: "step cap s (Received c resp) s'"
inductive_simps step_Served_iff: "step cap s (Served c i en req resp) s'"

inductive reaches :: "nat \<Rightarrow> System \<Rightarrow> label list \<Rightarrow> System \<Rightarrow> bool" for cap s0 where
  start: "reaches cap s0 [] s0"
| more: "reaches cap s0 tr s \<Longrightarrow> step cap s l s' \<Longrightarrow> reaches cap s0 (tr @ [l]) s'"

lemma reaches_step_first: "step cap s l s1 \<Longrightarrow> reaches cap s1 tr s' \<Longrightarrow> reaches cap s (l # tr) s'"
proof (rotate_tac, induction rule: reaches.induct)
  case start
  then show ?case using reaches.more[OF reaches.start, of cap s l s1] by simp
next
  case (more tr s2 l' s3)
  then show ?case using reaches.more[of cap s "l # tr" s2 l' s3] by simp
qed

section \<open>What a trace says\<close>

text \<open>What one worker did in a trace, as the events of its loop, and its log.\<close>

fun worker_events :: "nat \<Rightarrow> label list \<Rightarrow> loop_event list" where
  "worker_events i [] = []"
| "worker_events i (Served c j en req resp # tr) =
    (if i = j then Serve en req # worker_events i tr else worker_events i tr)"
| "worker_events i (Ticked j now # tr) =
    (if i = j then Tick now # worker_events i tr else worker_events i tr)"
| "worker_events i (l # tr) = worker_events i tr"

fun worker_log :: "nat \<Rightarrow> label list \<Rightarrow> log" where
  "worker_log i [] = []"
| "worker_log i (Served c j en req resp # tr) =
    (if i = j then (req, resp) # worker_log i tr else worker_log i tr)"
| "worker_log i (l # tr) = worker_log i tr"

text \<open>The life of one call as its client's labels tell it; other orders of labels are errors.\<close>

datatype call_state = Idle | Queued nat Request | Answered Response | Broken

fun call_step :: "nat \<Rightarrow> label \<Rightarrow> call_state \<Rightarrow> call_state" where
  "call_step c (Sent d i req) st = (if c \<noteq> d then st else if st = Idle then Queued i req else Broken)"
| "call_step c (Served d i en req resp) st =
    (if c \<noteq> d then st else if st = Queued i req then Answered resp else Broken)"
| "call_step c (Received d resp) st =
    (if c \<noteq> d then st else if st = Answered resp then Idle else Broken)"
| "call_step c (Ticked i now) st = st"
| "call_step c (Stopped i) st = st"

definition call_state_after :: "nat \<Rightarrow> label list \<Rightarrow> call_state" where
  "call_state_after c tr = fold (call_step c) tr Idle"

lemma worker_events_append: "worker_events i (tr @ tr') = worker_events i tr @ worker_events i tr'"
  by (induction i tr rule: worker_events.induct) auto

lemma worker_log_append: "worker_log i (tr @ tr') = worker_log i tr @ worker_log i tr'"
  by (induction i tr rule: worker_log.induct) auto

lemma call_state_after_snoc: "call_state_after c (tr @ [l]) = call_step c l (call_state_after c tr)"
  by (simp add: call_state_after_def)

section \<open>Invariants of reachable states\<close>

text \<open>Channels and clients agree: who waits is either in one queue, once, or answered.\<close>

definition queued_at :: "System \<Rightarrow> nat \<Rightarrow> nat \<Rightarrow> nat" where
  "queued_at s i c = length (filter (\<lambda>e. fst e = c) (queues s i))"

definition call_of :: "System \<Rightarrow> nat \<Rightarrow> call_state" where
  "call_of s c =
    (case (waiting s c, respchan s c) of
      (None, None) \<Rightarrow> Idle
    | (Some (i, req), None) \<Rightarrow> Queued i req
    | (Some _, Some resp) \<Rightarrow> Answered resp
    | (None, Some _) \<Rightarrow> Broken)"

definition chan_inv :: "nat \<Rightarrow> System \<Rightarrow> bool" where
  "chan_inv cap s \<longleftrightarrow> (\<forall>i. length (queues s i) \<le> cap) \<and>
    (\<forall>i. queues s i = [] \<or> i < length (workers (cache s))) \<and>
    (\<forall>c. call_of s c \<noteq> Broken) \<and>
    (\<forall>i c. filter (\<lambda>e. fst e = c) (queues s i) =
      (case call_of s c of Queued j req \<Rightarrow> if i = j then [(c, req)] else [] | _ \<Rightarrow> []))"

lemma set_worker_simps [simp]:
  "queues (set_worker i w s) = queues s" "waiting (set_worker i w s) = waiting s"
  "respchan (set_worker i w s) = respchan s" "stopped (set_worker i w s) = stopped s"
  "workers (cache (set_worker i w s)) = (workers (cache s))[i := w]"
  by (simp_all add: set_worker_def)

lemma call_of_set_worker [simp]: "call_of (set_worker i w s) c = call_of s c"
  by (simp add: call_of_def)

lemma chan_invD:
  assumes "chan_inv cap s"
  shows "length (queues s i) \<le> cap" and "queues s i = [] \<or> i < length (workers (cache s))"
    and "call_of s c \<noteq> Broken"
    and "filter (\<lambda>e. fst e = c) (queues s i) =
      (case call_of s c of Queued j req \<Rightarrow> if i = j then [(c, req)] else [] | _ \<Rightarrow> [])"
  using assms by (auto simp: chan_inv_def)

lemma chan_inv_init: "chan_inv cap (init_system sc)"
  by (simp add: chan_inv_def init_system_def call_of_def)

lemma step_workers_length:
  "step cap s l s' \<Longrightarrow> length (workers (cache s')) = length (workers (cache s))"
  by (induction rule: step.induct) simp_all

text \<open>The head of a queue belongs to a client that waits for that worker.\<close>

lemma head_queued:
  assumes "chan_inv cap s" and "queues s i = (c, req) # q"
  shows "call_of s c = Queued i req" and "filter (\<lambda>e. fst e = c) q = []"
  using chan_invD(4)[OF assms(1), where i = i and c = c] assms(2)
  by (auto split: call_state.splits if_splits)

lemma step_call_of:
  assumes inv: "chan_inv cap s" and st: "step cap s l s'"
  shows "call_of s' c = call_step c l (call_of s c)"
  using st
proof (cases rule: step.cases)
  case (send d i req)
  then show ?thesis
    using chan_invD(3)[OF inv, of d] by (auto simp: call_of_def split: option.splits)
next
  case (serve_request i d req q en w resp)
  note h = head_queued(1)[OF inv serve_request(5)]
  show ?thesis
  proof (cases "c = d")
    case True
    then show ?thesis
      using h serve_request by (auto simp: call_of_def split: option.splits prod.splits)
  next
    case False
    then show ?thesis using serve_request by (simp add: call_of_def)
  qed
next
  case (receive d i req resp)
  then show ?thesis by (auto simp: call_of_def)
qed (simp_all add: call_of_def)

lemma step_queue_matches:
  assumes inv: "chan_inv cap s" and st: "step cap s l s'"
  shows "filter (\<lambda>e. fst e = c) (queues s' i) =
    (case call_of s' c of Queued j req \<Rightarrow> if i = j then [(c, req)] else [] | _ \<Rightarrow> [])"
  using st
proof (cases rule: step.cases)
  case (send d j req)
  have "call_of s d = Idle" using send(3) chan_invD(3)[OF inv, of d]
    by (auto simp: call_of_def split: option.splits)
  then show ?thesis
    using chan_invD(4)[OF inv, where i = i and c = c] send step_call_of[OF inv st, of c]
    by (auto split: call_state.splits)
next
  case (serve_request j d req q en w resp)
  note h = head_queued[OF inv serve_request(5)]
  show ?thesis
    using chan_invD(4)[OF inv, where i = i and c = c] h serve_request step_call_of[OF inv st, of c]
    by (cases "c = d"; cases "i = j") (auto split: call_state.splits)
next
  case (receive d j req resp)
  then have "call_of s d = Answered resp" by (simp add: call_of_def split: prod.splits)
  then show ?thesis
    using chan_invD(4)[OF inv, where i = i and c = c] receive step_call_of[OF inv st, of c] by (cases "c = d") auto
qed (use chan_invD(4)[OF inv, where i = i and c = c] step_call_of[OF inv st, of c] in simp_all)

lemma step_not_broken:
  assumes inv: "chan_inv cap s" and st: "step cap s l s'"
  shows "call_of s' c \<noteq> Broken"
  using st
proof (cases rule: step.cases)
  case (send d j req)
  then show ?thesis using chan_invD(3)[OF inv, of c] chan_invD(3)[OF inv, of d]
    by (auto simp: call_of_def split: option.splits)
next
  case (serve_request j d req q en w resp)
  then show ?thesis using chan_invD(3)[OF inv, of c] head_queued(1)[OF inv serve_request(5)] step_call_of[OF inv st, of c]
    by auto
next
  case (receive d j req resp)
  then show ?thesis using chan_invD(3)[OF inv, of c] by (auto simp: call_of_def split: option.splits)
qed (use chan_invD(3)[OF inv, of c] step_call_of[OF inv st, of c] in simp_all)

lemma step_chan_inv:
  assumes inv: "chan_inv cap s" and st: "step cap s l s'"
  shows "chan_inv cap s'"
proof -
  have q: "length (queues s' i) \<le> cap \<and> (queues s' i = [] \<or> i < length (workers (cache s')))" for i
    using st chan_invD(1,2)[OF inv, of i]
  proof (cases rule: step.cases)
    case (serve_request j d req q en w resp)
    then show ?thesis using chan_invD(1,2)[OF inv, of i] by (cases "i = j") auto
  qed auto
  with step_queue_matches[OF inv st] step_not_broken[OF inv st] show ?thesis by (simp add: chan_inv_def)
qed

text \<open>Every queued request is in the queue of its key's worker, and so is every stored key.\<close>

definition routed :: "System \<Rightarrow> bool" where
  "routed s \<longleftrightarrow> sharded_inv (cache s) \<and>
    (\<forall>i. \<forall>(c, req) \<in> set (queues s i). Op req = OpFlushAll \<or> i = workerFor (cache s) (reqKey req))"

lemma workerFor_set_worker [simp]: "workerFor (cache (set_worker i w s)) k = workerFor (cache s) k"
  by (simp add: set_worker_def)

lemma sharded_inv_set_worker:
  "sharded_inv (cache s) \<Longrightarrow> i < length (workers (cache s)) \<Longrightarrow> worker_inv w \<Longrightarrow>
   (\<And>k. stored w k \<noteq> None \<Longrightarrow> workerFor (cache s) k = i) \<Longrightarrow> sharded_inv (cache (set_worker i w s))"
  using sharded_inv_set[of "cache s" i w] by (simp add: set_worker_def)

lemma served_keys:
  assumes inv: "sharded_inv sc" and i: "i < length (workers sc)"
    and h: "handleRequest en req (workers sc ! i) = Some (w, r)"
    and to: "Op req = OpFlushAll \<or> i = workerFor sc (reqKey req)" and k: "stored w k \<noteq> None"
  shows "workerFor sc k = i"
proof -
  note wi = sharded_invD(4)[OF inv i]
  have w: "w = next_worker en req (workers sc ! i)" using h by (simp add: next_worker_def)
  show ?thesis
  proof (cases "Op req = OpFlushAll")
    case True
    then show ?thesis using h k by (auto simp: handleRequest_def handleFlushAll_def stored_empty)
  next
    case False
    show ?thesis
    proof (cases "k = reqKey req")
      case True
      with to False show ?thesis by simp
    next
      case other: False
      then have "stored (workers sc ! i) k \<noteq> None"
        using stored_next_other[OF wi other, of en] k w by fastforce
      then show ?thesis using sharded_invD(5)[OF inv i] by blast
    qed
  qed
qed

lemma ticked_keys:
  assumes "worker_inv w" and "expireKeys now w = Some w'" and "stored w' k \<noteq> None"
  shows "stored w k \<noteq> None"
proof -
  note e = expireKeys_SomeD[OF assms(1,2)]
  have "stored w' k = a_live (UnixMilli now) k (abs_worker w)"
    using stored_find[OF e(1), of k] arg_cong[OF e(2), of aitems]
      a_expire_find[of "abs_worker w" k "UnixMilli now"] worker_distinct[OF assms(1)] by simp
  then show ?thesis using assms(3) by (auto simp: stored_find[OF assms(1)] a_live_def split: option.splits)
qed

lemma routed_mono:
  assumes "routed s" and "sharded_inv (cache s')" and q: "\<And>i. set (queues s' i) \<subseteq> set (queues s i)"
    and k: "\<And>k. workerFor (cache s') k = workerFor (cache s) k"
  shows "routed s'"
  unfolding routed_def
proof (intro conjI allI ballI)
  fix i e assume "e \<in> set (queues s' i)"
  with q have "e \<in> set (queues s i)" by blast
  with assms(1) show "case e of (c, req) \<Rightarrow> Op req = OpFlushAll \<or> i = workerFor (cache s') (reqKey req)"
    by (auto simp: routed_def k)
qed fact

lemma step_routed:
  assumes inv: "routed s" and st: "step cap s l s'"
  shows "routed s'"
proof -
  have sh: "sharded_inv (cache s)"
    and rt: "(c, req) \<in> set (queues s i) \<Longrightarrow> Op req = OpFlushAll \<or> i = workerFor (cache s) (reqKey req)" for i c req
    using inv by (auto simp: routed_def)
  show ?thesis
    using st
  proof (cases rule: step.cases)
    case (send c i req)
    then show ?thesis using inv by (auto simp: routed_def)
  next
    case (serve_request i c req q en w resp)
    note h = handleRequest_SomeD(1)[OF sharded_invD(4)[OF sh serve_request(3)] serve_request(6)]
    have "Op req = OpFlushAll \<or> i = workerFor (cache s) (reqKey req)" using rt[of c req i] serve_request(5) by simp
    note k = served_keys[OF sh serve_request(3,6) this]
    have "sharded_inv (cache (set_worker i w s))"
      by (intro sharded_inv_set_worker sh serve_request(3) h k)
    then have "sharded_inv (cache s')" using serve_request(2) by (simp add: set_worker_def)
    then show ?thesis
      by (rule routed_mono[OF inv]) (use serve_request in \<open>auto simp: set_worker_def\<close>)
  next
    case (tick i now w)
    note h = expireKeys_SomeD(1)[OF sharded_invD(4)[OF sh tick(3)] tick(5)]
    have k: "workerFor (cache s) k = i" if "stored w k \<noteq> None" for k
      using ticked_keys[OF sharded_invD(4)[OF sh tick(3)] tick(5) that] sharded_invD(5)[OF sh tick(3)] by blast
    have "sharded_inv (cache (set_worker i w s))"
      by (intro sharded_inv_set_worker sh tick(3) h k)
    then show ?thesis using tick(2) by (intro routed_mono[OF inv]) simp_all
  qed (use inv in \<open>auto simp: routed_def\<close>)
qed

lemma run_loop_append:
  "run_loop (xs @ ys) w = (case run_loop xs w of None \<Rightarrow> None
    | Some (w', l) \<Rightarrow> map_option (\<lambda>(w'', l'). (w'', l @ l')) (run_loop ys w'))"
  by (induction xs w rule: run_loop.induct) (auto simp: option.map_id split: option.splits bind_splits)

lemma reaches_worker_run:
  assumes "reaches cap s0 tr s"
  shows "length (workers (cache s)) = length (workers (cache s0)) \<and>
    (\<forall>i < length (workers (cache s0)).
      run_loop (worker_events i tr) (workers (cache s0) ! i) = Some (workers (cache s) ! i, worker_log i tr))"
  using assms
proof (induction rule: reaches.induct)
  case (more tr s l s')
  have len: "length (workers (cache s')) = length (workers (cache s0))"
    using more step_workers_length by metis
  have "run_loop (worker_events i (tr @ [l])) (workers (cache s0) ! i) =
      Some (workers (cache s') ! i, worker_log i (tr @ [l]))" if "i < length (workers (cache s0))" for i
    using more(2)
  proof (cases rule: step.cases)
    case (serve_request j c req q en w resp)
    then show ?thesis
      using more that by (cases "i = j") (auto simp: worker_events_append worker_log_append run_loop_append)
  next
    case (tick j now w)
    then show ?thesis
      using more that by (cases "i = j") (auto simp: worker_events_append worker_log_append run_loop_append)
  qed (use more that in \<open>auto simp: worker_events_append worker_log_append run_loop_append\<close>)
  with len show ?case by blast
qed simp

lemma reaches_inv:
  assumes "reaches cap s0 tr s" and "chan_inv cap s0" and "routed s0"
  shows "chan_inv cap s \<and> routed s"
  using assms by (induction rule: reaches.induct) (auto intro: step_chan_inv step_routed)

lemma routed_init: "sharded_inv sc \<Longrightarrow> routed (init_system sc)"
  by (simp add: routed_def init_system_def)

lemmas reaches_init_inv = reaches_inv[OF _ chan_inv_init routed_init]

section \<open>Concurrent runs\<close>

text \<open>
  C3. Concurrency changes nothing a worker can observe: in every reachable state, each shard's
  worker is where the sequential loop takes it on the requests and ticks it took up, in that
  order, and every response sent is the loop's response. Keys stay in the shard of their hash.
\<close>

theorem concurrent_runs_are_sequential:
  assumes "sharded_inv sc" and "reaches cap (init_system sc) tr s" and "i < length (workers sc)"
  shows "run_loop (worker_events i tr) (workers sc ! i) = Some (workers (cache s) ! i, worker_log i tr) \<and>
    sharded_inv (cache s)"
  using reaches_worker_run[OF assms(2)] reaches_init_inv[OF assms(2,1)] assms(3)
  by (simp add: init_system_def routed_def)

text \<open>The shortest complete call, for the concrete instances.\<close>

lemma one_call:
  assumes inv: "sharded_inv sc" and cap: "0 < cap" and i: "i = workerFor sc (reqKey req)"
    and r: "r = answer en req (workers sc ! i)"
  shows "\<exists>s. reaches cap (init_system sc) [Sent c i req, Served c i en req r, Received c r] s"
proof -
  have n: "i < length (workers sc)" and w: "worker_inv (workers sc ! i)"
    using sharded_invD(2,3)[OF inv] i by auto
  let ?s1 = "(init_system sc)\<lparr>queues := (\<lambda>i. [])(i := [(c, req)]), waiting := (\<lambda>c. None)(c := Some (i, req))\<rparr>"
  have 1: "step cap (init_system sc) (Sent c i req) ?s1"
    using step.send[of "init_system sc" c i req cap] n cap i by (simp add: init_system_def)
  let ?s2 = "set_worker i (next_worker en req (workers sc ! i))
    (?s1\<lparr>queues := (queues ?s1)(i := []), respchan := (respchan ?s1)(c := Some r)\<rparr>)"
  have 2: "step cap ?s1 (Served c i en req r) ?s2"
    using n serve(1)[OF w, of en req] r by (intro step.serve_request) (simp_all add: init_system_def)
  have 3: "step cap ?s2 (Received c r)
      (?s2\<lparr>waiting := (waiting ?s2)(c := None), respchan := (respchan ?s2)(c := None)\<rparr>)"
    by (rule step.receive[where i = i and req = req]) simp_all
  show ?thesis
    using reaches.more[OF reaches.more[OF reaches.more[OF reaches.start 1] 2] 3] by auto
qed

definition call_trace :: "label list" where
  "call_trace = [Sent 0 0 (mk_req OpStats ''a'' [] 0),
     Served 0 0 (at_time 0) (mk_req OpStats ''a'' [] 0) (answer (at_time 0) (mk_req OpStats ''a'' [] 0) (workers two_shards ! 0)),
     Received 0 (answer (at_time 0) (mk_req OpStats ''a'' [] 0) (workers two_shards ! 0))]"

lemma call_trace_reaches: "\<exists>s. reaches 1 (init_system two_shards) call_trace s"
proof -
  have "sharded_inv two_shards" by (simp add: two_shards_def sharded_inv_New)
  moreover have "0 = workerFor two_shards (reqKey (mk_req OpStats ''a'' [] 0))" by code_simp
  ultimately show ?thesis unfolding call_trace_def by (intro one_call) simp_all
qed

theorem concurrent_runs_are_sequential_witness:
  "\<exists>s :: System. run_loop [Serve (at_time 0) (mk_req OpStats ''a'' [] 0)] (workers two_shards ! 0) =
     Some (workers (cache s) ! 0, worker_log 0 call_trace) \<and> sharded_inv (cache s)"
proof -
  obtain s where s: "reaches 1 (init_system two_shards) call_trace s" using call_trace_reaches by blast
  have "sharded_inv two_shards" by (simp add: two_shards_def sharded_inv_New)
  moreover have "0 < length (workers two_shards)" by code_simp
  ultimately have run: "run_loop (worker_events 0 call_trace) (workers two_shards ! 0) =
      Some (workers (cache s) ! 0, worker_log 0 call_trace) \<and> sharded_inv (cache s)"
    by (intro concurrent_runs_are_sequential[OF _ s])
  have ev: "worker_events 0 call_trace = [Serve (at_time 0) (mk_req OpStats ''a'' [] 0)]"
    by (simp add: call_trace_def)
  from run[unfolded ev] show ?thesis by (rule exI[of _ s])
qed

text \<open>
  C11. Every call is answered at most once, with the response its worker computed for its own
  request: a client's labels in any reachable trace are complete calls (sent, served with that
  request by that worker, received with that response) and possibly one call under way, whose
  stage is what the channels show. No queue exceeds its capacity and no worker ever blocks
  on a full response channel.
\<close>

lemma reaches_call_state:
  assumes "reaches cap (init_system sc) tr s"
  shows "chan_inv cap s \<and> (\<forall>c. call_state_after c tr = call_of s c)"
  using assms
proof (induction rule: reaches.induct)
  case start
  show ?case using chan_inv_init by (simp add: call_state_after_def call_of_def init_system_def)
next
  case (more tr s l s')
  then show ?case
    using step_chan_inv[of cap s l s'] step_call_of[of cap s l s'] by (simp add: call_state_after_snoc)
qed

theorem calls_answered_once:
  assumes "reaches cap (init_system sc) tr s"
  shows "call_state_after c tr = call_of s c \<and> call_of s c \<noteq> Broken \<and>
    length (queues s i) \<le> cap \<and>
    (case queues s i of [] \<Rightarrow> True | e # _ \<Rightarrow> respchan s (fst e) = None)"
proof -
  have inv: "chan_inv cap s" and c: "call_state_after c tr = call_of s c"
    using reaches_call_state[OF assms] by auto
  have "respchan s d = None" if "queues s i = (d, req) # q" for d req q
    using head_queued(1)[OF inv that] by (auto simp: call_of_def split: option.splits)
  then show ?thesis using c chan_invD(1,3)[OF inv] by (auto split: list.split)
qed

theorem calls_answered_once_witness:
  "\<exists>s. call_of s 0 = Idle \<and> call_state_after 0 call_trace = Idle \<and> call_of s 7 \<noteq> Broken"
proof -
  obtain s where s: "reaches 1 (init_system two_shards) call_trace s" using call_trace_reaches by blast
  have "call_state_after 0 call_trace = Idle" by (simp add: call_state_after_def call_trace_def)
  then show ?thesis
    using calls_answered_once[OF s, of 0] calls_answered_once[OF s, of 7] by metis
qed

lemma serve_head:
  assumes inv: "chan_inv cap s" "routed s" and q: "queues s i = (d, req) # q" and run: "\<not> stopped s i"
  shows "\<exists>l s'. step cap s l s' \<and> queues s' i = q \<and> \<not> stopped s' i \<and> (\<forall>c. waiting s' c = waiting s c)"
proof -
  have n: "i < length (workers (cache s))" using chan_invD(2)[OF inv(1), of i] q by simp
  then have w: "worker_inv (workers (cache s) ! i)" using inv(2) sharded_invD(4) by (auto simp: routed_def)
  have "respchan s d = None"
    using head_queued(1)[OF inv(1) q] by (auto simp: call_of_def split: option.splits)
  from step.serve_request[OF n run q serve(1)[OF w] this, where cap = cap] run show ?thesis
    by (intro exI conjI) (assumption, simp_all)
qed

lemma call_can_complete:
  assumes "chan_inv cap s" and "routed s" and "waiting s c = Some (i, req)" and "\<not> stopped s i"
  shows "\<exists>tr resp s'. reaches cap s (tr @ [Received c resp]) s' \<and> length tr \<le> length (queues s i) \<and>
    waiting s' c = None"
  using assms
proof (induction "length (queues s i)" arbitrary: s)
  case 0
  then obtain resp where r: "respchan s c = Some resp"
    using chan_invD(4)[OF 0(2), where i = i and c = c] by (auto simp: call_of_def split: option.splits)
  have "reaches cap s ([] @ [Received c resp])
      (s\<lparr>waiting := (waiting s)(c := None), respchan := (respchan s)(c := None)\<rparr>)"
    by (rule reaches.more[OF reaches.start step.receive[OF 0(4) r]])
  then show ?case by (intro exI[of _ "[]"] exI[of _ resp]) auto
next
  case (Suc n)
  then obtain d r q where q: "queues s i = (d, r) # q" by (cases "queues s i") auto
  obtain l s1 where st: "step cap s l s1" "queues s1 i = q" "\<not> stopped s1 i" "waiting s1 c = waiting s c"
    using serve_head[OF Suc(3,4) q Suc(6)] by blast
  have "n = length (queues s1 i)" using Suc(2) q st(2) by simp
  from Suc(1)[OF this step_chan_inv[OF Suc(3) st(1)] step_routed[OF Suc(4) st(1)] _ st(3)] Suc(5) st(4)
  obtain tr resp s' where t: "reaches cap s1 (tr @ [Received c resp]) s'" "length tr \<le> length (queues s1 i)"
    "waiting s' c = None" by auto
  have "reaches cap s (l # tr @ [Received c resp]) s'" using reaches_step_first[OF st(1) t(1)] .
  then show ?case using t q st(2) by (intro exI[of _ "l # tr"]) auto
qed

lemma stopped_keeps_waiting:
  assumes "reaches cap s tr s'" and "chan_inv cap s" and "routed s"
    and "waiting s c = Some (i, req)" and "respchan s c = None" and "stopped s i"
  shows "waiting s' c = Some (i, req) \<and> respchan s' c = None"
proof -
  have "chan_inv cap s' \<and> stopped s' i \<and> waiting s' c = Some (i, req) \<and> respchan s' c = None"
    using assms(1)
  proof (induction rule: reaches.induct)
    case start
    then show ?case using assms by simp
  next
    case (more tr s1 l s2)
    then have inv: "chan_inv cap s2" and co: "call_of s1 c = Queued i req"
      using step_chan_inv by (auto simp: call_of_def)
    show ?case
      using more(2)
    proof (cases rule: step.cases)
      case (serve_request j d r q en w resp)
      have "d \<noteq> c" using head_queued(1)[OF _ serve_request(5)] more(3) co serve_request(4) by auto
      then show ?thesis using serve_request more(3) inv by simp
    qed (use more(3) inv in auto)
  qed
  then show ?thesis by simp
qed

text \<open>
  C12. No deadlock, and no call starves behind others: as long as its worker has not been stopped, a
  client waiting for a response can get it after at most one step per request queued at that
  worker and one step of its own, the worker needing nothing from any other client.
\<close>

theorem waiting_call_can_complete:
  assumes "sharded_inv sc" and "reaches cap (init_system sc) tr0 s"
    and "waiting s c = Some (i, req)" and "\<not> stopped s i"
  shows "\<exists>tr resp s'. reaches cap s (tr @ [Received c resp]) s' \<and> length tr \<le> length (queues s i) \<and>
    waiting s' c = None"
  using reaches_init_inv[OF assms(2,1)] call_can_complete[OF _ _ assms(3,4)] by blast

text \<open>A request on its way, and the same with the worker stopped.\<close>

definition sent_trace :: "label list" where
  "sent_trace = [Sent 3 (workerFor two_shards ''k'') (mk_req OpGet ''k'' [] 0)]"

lemma sent_reaches:
  "\<exists>s. reaches 5 (init_system two_shards) sent_trace s \<and>
     waiting s 3 = Some (workerFor two_shards ''k'', mk_req OpGet ''k'' [] 0) \<and> respchan s 3 = None \<and>
     (\<forall>i. \<not> stopped s i) \<and> length (queues s (workerFor two_shards ''k'')) = 1 \<and>
     workers (cache s) = workers two_shards"
proof -
  let ?i = "workerFor two_shards ''k''" and ?r = "mk_req OpGet ''k'' [] 0" and ?s = "init_system two_shards"
  have "?i < length (workers two_shards)"
    using sharded_invD(3)[OF sharded_inv_New] by (simp add: two_shards_def)
  then have "step 5 ?s (Sent 3 ?i ?r)
      (?s\<lparr>queues := (queues ?s)(?i := queues ?s ?i @ [(3, ?r)]), waiting := (waiting ?s)(3 := Some (?i, ?r))\<rparr>)"
    by (intro step.send) (simp_all add: init_system_def mk_req_def)
  from reaches.more[OF reaches.start this] show ?thesis
    unfolding sent_trace_def by (intro exI conjI) (simp, simp_all add: init_system_def)
qed

theorem waiting_call_can_complete_witness:
  "\<exists>s s' :: System. \<exists>tr resp. reaches 5 (init_system two_shards) sent_trace s \<and>
     reaches 5 s (tr @ [Received 3 resp]) s' \<and> length tr \<le> 1"
proof -
  obtain s where s: "reaches 5 (init_system two_shards) sent_trace s"
    "waiting s 3 = Some (workerFor two_shards ''k'', mk_req OpGet ''k'' [] 0)"
    "\<not> stopped s (workerFor two_shards ''k'')" "length (queues s (workerFor two_shards ''k'')) = 1"
    using sent_reaches by blast
  have "sharded_inv two_shards" by (simp add: two_shards_def sharded_inv_New)
  from waiting_call_can_complete[OF this s(1,2,3)] s(1,4) show ?thesis by auto
qed

text \<open>
  A stopped worker answers nobody: a client whose request is still queued when its worker
  stops waits forever, because \<open>Stop\<close> neither drains the queue nor closes the response channels.
\<close>

theorem stopped_worker_never_answers:
  assumes "sharded_inv sc" and "reaches cap (init_system sc) tr0 s" and "reaches cap s tr s'"
    and "waiting s c = Some (i, req)" and "respchan s c = None" and "stopped s i"
  shows "waiting s' c = Some (i, req) \<and> respchan s' c = None"
  using stopped_keeps_waiting[OF assms(3)] reaches_init_inv[OF assms(2,1)] assms(4-6) by blast

theorem stopped_worker_never_answers_witness:
  "\<exists>s :: System. reaches 5 (init_system two_shards) (sent_trace @ [Stopped (workerFor two_shards ''k'')]) s \<and>
     (\<forall>tr s'. reaches 5 s tr s' \<longrightarrow> waiting s' 3 \<noteq> None)"
proof -
  obtain s where s: "reaches 5 (init_system two_shards) sent_trace s"
    "waiting s 3 = Some (workerFor two_shards ''k'', mk_req OpGet ''k'' [] 0)" "respchan s 3 = None"
    "workers (cache s) = workers two_shards"
    using sent_reaches by blast
  let ?i = "workerFor two_shards ''k''"
  let ?s = "s\<lparr>stopped := (stopped s)(?i := True)\<rparr>"
  have inv: "sharded_inv two_shards" by (simp add: two_shards_def sharded_inv_New)
  have "step 5 s (Stopped ?i) ?s" using sharded_invD(3)[OF inv] s(4) by (intro step.stop) simp
  from reaches.more[OF s(1) this] have r: "reaches 5 (init_system two_shards) (sent_trace @ [Stopped ?i]) ?s" .
  have "waiting s' 3 \<noteq> None" if "reaches 5 ?s tr s'" for tr s'
    using stopped_worker_never_answers[OF inv r that, of 3 ?i] s(2,3) by simp
  with r show ?thesis by blast
qed

end
