(* ===== verification/ResponseTypes.thy ===== *)
theory ResponseTypes
  imports Shards
begin

text \<open>
  The type of a response: which of its fields an operation fills, with what, and which errors it can
  answer with. The callers in \<open>ShardedCache\<close> and the protocols rely on it when they pick fields of a
  \<open>Response\<close> (\<^verbatim>\<open>pkg/tqmemory/worker.go\<close>, \<^verbatim>\<open>pkg/tqmemory/sharded.go\<close>) without looking at the others.
\<close>

fun errors_of :: "OpType \<Rightarrow> cache_error set" where
  "errors_of OpSet = {}"
| "errors_of OpFlushAll = {}"
| "errors_of OpStats = {}"
| "errors_of OpAdd = {ErrKeyExists}"
| "errors_of OpCas = {ErrKeyNotFound, ErrCasMismatch}"
| "errors_of OpIncr = {ErrKeyNotFound, ErrNotNumeric}"
| "errors_of OpDecr = {ErrKeyNotFound, ErrNotNumeric}"
| "errors_of oper = {ErrKeyNotFound}"

text \<open>A response without an error: a value with flags, a number in decimal, statistics, or a token only.\<close>

definition value_response :: "Response \<Rightarrow> bool" where
  "value_response resp \<longleftrightarrow> Flags resp \<in> {0, 1, 3} \<and> Stats resp = []"

definition number_response :: "Response \<Rightarrow> bool" where
  "number_response resp \<longleftrightarrow> Flags resp = 0 \<and> Stats resp = [] \<and> (\<exists>n :: uint64. respValue resp = FormatUint (uint n))"

definition stats_response :: "Response \<Rightarrow> bool" where
  "stats_response resp \<longleftrightarrow> resp = ok_resp\<lparr>Stats := Stats resp\<rparr> \<and>
    map fst (Stats resp) = [''curr_items'', ''bytes'', ''evictions'']"

definition token_response :: "Response \<Rightarrow> bool" where
  "token_response resp \<longleftrightarrow> resp = ok_resp\<lparr>respCas := respCas resp\<rparr>"

fun success_type :: "OpType \<Rightarrow> Response \<Rightarrow> bool" where
  "success_type OpGet = value_response"
| "success_type OpIncr = number_response"
| "success_type OpDecr = number_response"
| "success_type OpStats = stats_response"
| "success_type OpDelete = (\<lambda>resp. resp = ok_resp)"
| "success_type OpFlushAll = (\<lambda>resp. resp = ok_resp)"
| "success_type (OpOther n) = (\<lambda>resp. False)"
| "success_type oper = token_response"

definition response_type :: "OpType \<Rightarrow> Response \<Rightarrow> bool" where
  "response_type oper resp \<longleftrightarrow>
    (case Err resp of None \<Rightarrow> success_type oper resp | Some e \<Rightarrow> e \<in> errors_of oper \<and> resp = err_resp e)"

lemmas response_defs = value_response_def number_response_def stats_response_def token_response_def

lemma response_type_err: "e \<in> errors_of oper \<Longrightarrow> response_type oper (err_resp e)"
  by (simp add: response_type_def)

lemma response_type_ok: "Err resp = None \<Longrightarrow> success_type oper resp \<Longrightarrow> response_type oper resp"
  by (simp add: response_type_def)

lemma count_type: "oper = OpIncr \<or> oper = OpDecr \<Longrightarrow> response_type oper (snd (a_count en k d b c))"
  by (auto simp: a_count_def Let_def number_response_def intro!: response_type_err response_type_ok
      split: option.split sum.split)

lemma answer_type:
  assumes "worker_inv w"
  shows "response_type (Op req) (answer en req w)"
proof -
  have s: "response_type oper (snd (a_store en k v t c))" if "success_type oper = token_response" for oper k v t c
    using that by (intro response_type_ok) (simp_all add: a_store_parts token_response_def Let_def)
  show ?thesis
    using count_type[of "Op req"] s[of "Op req"]
    by (cases "Op req")
      (auto simp: answer_abs[OF assms] a_step_def Let_def a_get_def a_remove_def a_retime_def a_extend_def response_defs
        intro!: response_type_err response_type_ok split: option.split prod.split if_splits)
qed

text \<open>
  C23. Every response that a worker ever sends has the type of its operation: an error is one of the
  errors of the operation and comes with no value, token, flags or statistics; a get has the flag 0,
  1 or 3; the operations that store answer with a token only; a counter operation answers with the
  decimal text of a 64-bit number; only statistics requests are answered with statistics, and these
  have the three expected names.
\<close>

theorem responses_are_typed:
  assumes "sharded_inv sc" and "reaches cap (init_system sc) tr s" and "Served c i en req resp \<in> set tr"
  shows "response_type (Op req) resp"
  using assms(2,3)
proof (induction rule: reaches.induct)
  case (more tr s l s')
  show ?case
  proof (cases "l = Served c i en req resp")
    case True
    then obtain w where n: "i < length (workers (cache s))"
      and h: "handleRequest en req (workers (cache s) ! i) = Some (w, resp)"
      using more.hyps(2) by (auto elim: step_ServedE)
    have inv: "worker_inv (workers (cache s) ! i)"
      using reaches_init_inv[OF more.hyps(1) assms(1)] sharded_invD(4) n by (auto simp: routed_def)
    then show ?thesis using h answer_type[OF inv, of req en] serve(1)[OF inv, of en req] by simp
  next
    case False
    then show ?thesis using more by auto
  qed
qed simp

theorem responses_are_typed_witness:
  "response_type OpStats (answer (at_time 0) (mk_req OpStats ''a'' [] 0) (workers two_shards ! 0))"
proof -
  obtain s where s: "reaches 1 (init_system two_shards) call_trace s" using call_trace_reaches by blast
  have inv: "sharded_inv two_shards" by (simp add: two_shards_def sharded_inv_New)
  have "Served 0 0 (at_time 0) (mk_req OpStats ''a'' [] 0)
      (answer (at_time 0) (mk_req OpStats ''a'' [] 0) (workers two_shards ! 0)) \<in> set call_trace"
    by (simp add: call_trace_def)
  from responses_are_typed[OF inv s this] show ?thesis by (simp add: mk_req_def)
qed

end
