(* ===== verification/GoStrings.thy ===== *)
theory GoStrings
  imports Prelude
begin

text \<open>
  The functions of Go's \<^verbatim>\<open>strings\<close> package that the text protocol and the configuration file
  call, over byte strings. \<open>strings.TrimSpace\<close> and \<open>strings.Fields\<close> know the white space of
  Unicode: \<open>space_len\<close> is the length of the white-space character, in UTF-8, at the head of a
  string, and zero when there is none. Scanning byte by byte finds the same characters as
  decoding runes, because the first bytes of these encodings are never continuation bytes.
\<close>

definition octet :: "char \<Rightarrow> int" where
  "octet c = of_char c"

definition ascii_space :: "char \<Rightarrow> bool" where
  "ascii_space c \<longleftrightarrow> octet c = 32 \<or> 9 \<le> octet c \<and> octet c \<le> 13"

definition wide_space :: "int list \<Rightarrow> bool" where
  "wide_space bs \<longleftrightarrow>
    (case bs of
      [b, c] \<Rightarrow> b = 194 \<and> (c = 133 \<or> c = 160)
    | [b, c, d] \<Rightarrow> b = 225 \<and> c = 154 \<and> d = 128 \<or>
        b = 226 \<and> c = 128 \<and> (128 \<le> d \<and> d \<le> 138 \<or> d = 168 \<or> d = 169 \<or> d = 175) \<or>
        b = 226 \<and> c = 129 \<and> d = 159 \<or> b = 227 \<and> c = 128 \<and> d = 128
    | _ \<Rightarrow> False)"

definition space_len :: "string \<Rightarrow> nat" where
  "space_len s =
    (case s of [] \<Rightarrow> 0
     | c # _ \<Rightarrow> if ascii_space c then 1
         else if wide_space (map octet (take 2 s)) then 2
         else if wide_space (map octet (take 3 s)) then 3 else 0)"

text \<open>The same at the end of a string.\<close>

definition space_len_end :: "string \<Rightarrow> nat" where
  "space_len_end s =
    (if s = [] then 0 else if ascii_space (last s) then 1
     else if wide_space (map octet (drop (length s - 2) s)) then 2
     else if wide_space (map octet (drop (length s - 3) s)) then 3 else 0)"

function TrimLeftSpace :: "string \<Rightarrow> string" where
  "TrimLeftSpace s = (if space_len s = 0 then s else TrimLeftSpace (drop (space_len s) s))"
  by auto

termination TrimLeftSpace
  by (relation "measure length") (auto simp: space_len_def split: list.splits if_splits)

function TrimRightSpace :: "string \<Rightarrow> string" where
  "TrimRightSpace s =
    (if space_len_end s = 0 then s else TrimRightSpace (take (length s - space_len_end s) s))"
  by auto

termination TrimRightSpace
  by (relation "measure length") (auto simp: space_len_end_def split: if_splits)

declare TrimLeftSpace.simps [simp del] TrimRightSpace.simps [simp del]

definition TrimSpace :: "string \<Rightarrow> string" where
  "TrimSpace s = TrimRightSpace (TrimLeftSpace s)"

text \<open>\<open>strings.Fields\<close>: \<open>w\<close> is the field being collected.\<close>

definition add_field :: "string \<Rightarrow> string list \<Rightarrow> string list" where
  "add_field w fs = (if w = [] then fs else w # fs)"

function fields_from :: "string \<Rightarrow> string \<Rightarrow> string list" where
  "fields_from w s =
    (case s of
      [] \<Rightarrow> add_field w []
    | c # cs \<Rightarrow>
        (let n = space_len s
         in if n = 0 then fields_from (w @ [c]) cs else add_field w (fields_from [] (drop n s))))"
  by auto

termination fields_from
  by (relation "measure (\<lambda>(w, s). length s)") (auto simp: space_len_def split: list.splits if_splits)

declare fields_from.simps [simp del]

definition Fields :: "string \<Rightarrow> string list" where
  "Fields s = fields_from [] s"

text \<open>
  \<open>strings.ToUpper\<close> as far as a comparison with an ASCII command name can tell: two letters
  outside ASCII have an ASCII upper case, the dotless i and the long s. All others map to
  something outside ASCII, as they are left here.
\<close>

definition upper_char :: "char \<Rightarrow> char" where
  "upper_char c = (if 97 \<le> octet c \<and> octet c \<le> 122 then char_of (octet c - 32) else c)"

fun ToUpper :: "string \<Rightarrow> string" where
  "ToUpper (b # c # cs) =
    (if octet b = 196 \<and> octet c = 177 then CHR ''I'' # ToUpper cs
     else if octet b = 197 \<and> octet c = 191 then CHR ''S'' # ToUpper cs
     else upper_char b # ToUpper (c # cs))"
| "ToUpper [b] = [upper_char b]"
| "ToUpper [] = []"

section \<open>Lines of plain fields\<close>

text \<open>A field without any byte that could begin white space.\<close>

definition plain_char :: "char \<Rightarrow> bool" where
  "plain_char c \<longleftrightarrow> 33 \<le> octet c \<and> octet c \<le> 126"

definition plain :: "string \<Rightarrow> bool" where
  "plain s \<longleftrightarrow> s \<noteq> [] \<and> list_all plain_char s"

lemma space_len_plain [simp]: "plain_char c \<Longrightarrow> space_len (c # cs) = 0"
  by (auto simp: space_len_def plain_char_def ascii_space_def wide_space_def split: list.splits)

lemma space_len_blank [simp]: "space_len (CHR '' '' # cs) = 1"
  by (simp add: space_len_def ascii_space_def octet_def)

lemma fields_from_plain: "list_all plain_char v \<Longrightarrow> fields_from w (v @ s) = fields_from (w @ v) s"
  by (induction v arbitrary: w) (simp_all add: fields_from.simps[of _ "_ # _"])

lemma fields_from_blank: "fields_from w (CHR '' '' # s) = add_field w (fields_from [] s)"
  by (simp add: fields_from.simps[of _ "_ # _"])

lemma fields_from_Nil: "fields_from w [] = add_field w []"
  by (simp add: fields_from.simps[of _ "[]"])

text \<open>Joining plain fields with blanks and splitting again is the identity.\<close>

fun join_fields :: "string list \<Rightarrow> string" where
  "join_fields [] = []"
| "join_fields [f] = f"
| "join_fields (f # g # fs) = f @ CHR '' '' # join_fields (g # fs)"

lemma Fields_join: "list_all plain fs \<Longrightarrow> Fields (join_fields fs) = fs"
  unfolding Fields_def
proof (induction fs rule: join_fields.induct)
  case (2 f)
  then show ?case
    using fields_from_plain[of f "[]" "[]"] by (simp add: plain_def fields_from_Nil add_field_def)
next
  case (3 f g fs)
  then show ?case
    using fields_from_plain[of f "[]" "CHR '' '' # join_fields (g # fs)"]
    by (simp add: plain_def fields_from_blank add_field_def)
qed (simp add: fields_from_Nil add_field_def)

lemma join_fields_ends:
  assumes "list_all plain fs" and "fs \<noteq> []"
  shows "join_fields fs \<noteq> [] \<and> plain_char (hd (join_fields fs)) \<and> plain_char (last (join_fields fs))"
  using assms
  by (induction fs rule: join_fields.induct) (auto simp: plain_def list_all_iff hd_append)

lemma join_fields_no_newline:
  "list_all plain fs \<Longrightarrow> CHR 0x0A \<notin> set (join_fields fs)"
  by (induction fs rule: join_fields.induct)
    (auto simp: plain_def list_all_iff plain_char_def octet_def)

lemma wide_space_last: "wide_space bs \<Longrightarrow> bs \<noteq> [] \<and> 128 \<le> last bs"
  by (auto simp: wide_space_def split: list.splits)

lemma space_len_end_plain:
  assumes "s \<noteq> []" and "plain_char (last s)"
  shows "space_len_end s = 0"
proof -
  have "last (map octet (drop n s)) < 128" if "drop n s \<noteq> []" for n
    using that assms by (simp add: last_map plain_char_def)
  then have "\<not> wide_space (map octet (drop n s))" for n
    using wide_space_last[of "map octet (drop n s)"] by fastforce
  then show ?thesis using assms by (auto simp: space_len_end_def plain_char_def ascii_space_def)
qed

abbreviation CR :: char where "CR \<equiv> CHR 0x0D"
abbreviation LF :: char where "LF \<equiv> CHR 0x0A"

lemma space_len_end_ascii: "ascii_space c \<Longrightarrow> space_len_end (s @ [c]) = 1"
  by (simp add: space_len_end_def)

lemma ascii_space_CRLF [simp]: "ascii_space CR" "ascii_space LF"
  by (simp_all add: ascii_space_def octet_def)

lemma TrimRight_snoc: "ascii_space c \<Longrightarrow> TrimRightSpace (s @ [c]) = TrimRightSpace s"
  by (subst TrimRightSpace.simps) (simp add: space_len_end_ascii)

lemma TrimRight_plain: "s \<noteq> [] \<Longrightarrow> plain_char (last s) \<Longrightarrow> TrimRightSpace s = s"
  by (subst TrimRightSpace.simps) (simp add: space_len_end_plain)

lemma TrimLeft_plain: "s \<noteq> [] \<Longrightarrow> plain_char (hd s) \<Longrightarrow> TrimLeftSpace s = s"
  by (subst TrimLeftSpace.simps) (cases s; simp)

lemma TrimSpace_line:
  assumes "s \<noteq> []" and "plain_char (hd s)" and "plain_char (last s)"
  shows "TrimSpace (s @ [CR, LF]) = s"
proof -
  have "TrimLeftSpace (s @ [CR, LF]) = s @ [CR, LF]" using assms by (intro TrimLeft_plain) simp_all
  moreover have "TrimRightSpace ((s @ [CR]) @ [LF]) = s"
    using TrimRight_plain[OF assms(1,3)] by (simp only: TrimRight_snoc ascii_space_CRLF)
  ultimately show ?thesis by (simp add: TrimSpace_def)
qed

end
