(* ===== verification/GoBufio.thy ===== *)
theory GoBufio
  imports GoStrings
begin

text \<open>
  A connection's buffered reader and writer, the parts of Go's \<^verbatim>\<open>bufio\<close> and \<^verbatim>\<open>io\<close> packages that the
  server uses. What the peer sends arrives in chunks, one per read system call; after the last
  chunk the peer has closed its side. A chunk is whatever the call returned, so every way of
  cutting the stream is a list of chunks. The writer collects up to 64 KB and passes them on
  when it is full or flushed; what has reached the connection is \<open>sent\<close>. Writing to the
  connection is assumed to succeed.
\<close>

section \<open>The reader\<close>

record Reader =
  rbuf :: bytes
  chunks :: "bytes list"

definition Buffered :: "Reader \<Rightarrow> nat" where
  "Buffered r = length (rbuf r)"

definition input_left :: "Reader \<Rightarrow> bytes" where
  "input_left r = rbuf r @ concat (chunks r)"

definition after_line :: "bytes \<Rightarrow> bytes \<times> bytes" where
  "after_line s = (takeWhile (\<lambda>c. c \<noteq> LF) s @ [LF], tl (dropWhile (\<lambda>c. c \<noteq> LF) s))"

text \<open>\<open>ReadString('\n')\<close>: the line with its end, or \<open>None\<close> at the end of the input.\<close>

fun read_line :: "bytes \<Rightarrow> bytes list \<Rightarrow> bytes option \<times> bytes \<times> bytes list" where
  "read_line b [] = (if LF \<in> set b then (Some (fst (after_line b)), snd (after_line b), []) else (None, [], []))"
| "read_line b (c # cs) =
    (if LF \<in> set b then (Some (fst (after_line b)), snd (after_line b), c # cs) else read_line (b @ c) cs)"

definition ReadString :: "Reader \<Rightarrow> bytes option \<times> Reader" where
  "ReadString r = (case read_line (rbuf r) (chunks r) of (l, b, cs) \<Rightarrow> (l, \<lparr>rbuf = b, chunks = cs\<rparr>))"

text \<open>\<open>io.ReadFull\<close> into a buffer of \<open>n\<close> bytes; \<open>None\<close> is an error, with the input used up.\<close>

fun read_full :: "nat \<Rightarrow> bytes \<Rightarrow> bytes list \<Rightarrow> bytes option \<times> bytes \<times> bytes list" where
  "read_full n b [] = (if n \<le> length b then (Some (take n b), drop n b, []) else (None, [], []))"
| "read_full n b (c # cs) =
    (if n \<le> length b then (Some (take n b), drop n b, c # cs) else read_full n (b @ c) cs)"

definition ReadFull :: "nat \<Rightarrow> Reader \<Rightarrow> bytes option \<times> Reader" where
  "ReadFull n r = (case read_full n (rbuf r) (chunks r) of (v, b, cs) \<Rightarrow> (v, \<lparr>rbuf = b, chunks = cs\<rparr>))"

definition ReadByte :: "Reader \<Rightarrow> char option \<times> Reader" where
  "ReadByte r = (case ReadFull 1 r of (v, r) \<Rightarrow> (map_option hd v, r))"

text \<open>\<open>Peek(1)\<close>: the next byte, left in the buffer, which is filled if it is empty.\<close>

fun fill_one :: "bytes \<Rightarrow> bytes list \<Rightarrow> bytes \<times> bytes list" where
  "fill_one b [] = (b, [])"
| "fill_one b (c # cs) = (if b = [] then fill_one c cs else (b, c # cs))"

definition Peek1 :: "Reader \<Rightarrow> char option \<times> Reader" where
  "Peek1 r = (case fill_one (rbuf r) (chunks r) of (b, cs) \<Rightarrow>
     (if b = [] then None else Some (hd b), \<lparr>rbuf = b, chunks = cs\<rparr>))"

section \<open>The writer\<close>

definition bufsize :: nat where "bufsize = 65536"

record Writer =
  wbuf :: bytes
  sent :: bytes

definition Flush :: "Writer \<Rightarrow> Writer" where
  "Flush w = \<lparr>wbuf = [], sent = sent w @ wbuf w\<rparr>"

text \<open>
  \<open>Write\<close> passes a large slice on directly when its buffer is empty; \<open>WriteString\<close> always copies.
\<close>

function WriteString :: "bytes \<Rightarrow> Writer \<Rightarrow> Writer" where
  "WriteString s w =
    (if length s \<le> bufsize - length (wbuf w) then w\<lparr>wbuf := wbuf w @ s\<rparr>
     else let n = bufsize - length (wbuf w)
          in WriteString (drop n s) (Flush (w\<lparr>wbuf := wbuf w @ take n s\<rparr>)))"
  by auto

termination WriteString
  by (relation "measure (\<lambda>(s, w). 2 * length s + (if wbuf w = [] then 0 else 1))")
    (auto simp: Flush_def bufsize_def)

declare WriteString.simps [simp del]

definition Write :: "bytes \<Rightarrow> Writer \<Rightarrow> Writer" where
  "Write p w =
    (if length p \<le> bufsize - length (wbuf w) then w\<lparr>wbuf := wbuf w @ p\<rparr>
     else let n = bufsize - length (wbuf w);
              w1 = (if wbuf w = [] then w else Flush (w\<lparr>wbuf := wbuf w @ take n p\<rparr>));
              p1 = (if wbuf w = [] then p else drop n p)
          in if length p1 \<le> bufsize then w1\<lparr>wbuf := p1\<rparr> else w1\<lparr>sent := sent w1 @ p1\<rparr>)"

text \<open>Everything written, whether it has been passed on or not.\<close>

definition written :: "Writer \<Rightarrow> bytes" where
  "written w = sent w @ wbuf w"

section \<open>Laws\<close>

lemma after_line_split:
  "LF \<in> set s \<Longrightarrow> fst (after_line s) @ snd (after_line s) = s"
  by (induction s) (auto simp: after_line_def)

lemma after_line_append:
  "LF \<in> set s \<Longrightarrow> after_line (s @ t) = (fst (after_line s), snd (after_line s) @ t)"
  by (induction s) (auto simp: after_line_def)

lemma after_line_first: "LF \<notin> set s \<Longrightarrow> after_line (s @ LF # t) = (s @ [LF], t)"
  by (induction s) (auto simp: after_line_def)

lemma read_line_spec:
  "read_line b cs = (l, b', cs') \<Longrightarrow>
   l = (if LF \<in> set (b @ concat cs) then Some (fst (after_line (b @ concat cs))) else None) \<and>
   b' @ concat cs' = (if LF \<in> set (b @ concat cs) then snd (after_line (b @ concat cs)) else [])"
  by (induction b cs rule: read_line.induct) (auto simp: after_line_append split: if_splits)

lemma ReadString_spec:
  "ReadString r = (l, r') \<Longrightarrow>
   l = (if LF \<in> set (input_left r) then Some (fst (after_line (input_left r))) else None) \<and>
   input_left r' = (if LF \<in> set (input_left r) then snd (after_line (input_left r)) else [])"
  using read_line_spec[of "rbuf r" "chunks r"]
  by (auto simp: ReadString_def input_left_def split: prod.splits)

lemma read_full_spec:
  "read_full n b cs = (v, b', cs') \<Longrightarrow>
   v = (if n \<le> length (b @ concat cs) then Some (take n (b @ concat cs)) else None) \<and>
   b' @ concat cs' = (if n \<le> length (b @ concat cs) then drop n (b @ concat cs) else [])"
  by (induction n b cs rule: read_full.induct) (auto split: if_splits)

lemma ReadFull_spec:
  "ReadFull n r = (v, r') \<Longrightarrow>
   v = (if n \<le> length (input_left r) then Some (take n (input_left r)) else None) \<and>
   input_left r' = (if n \<le> length (input_left r) then drop n (input_left r) else [])"
  using read_full_spec[of n "rbuf r" "chunks r"]
  by (auto simp: ReadFull_def input_left_def split: prod.splits)

lemma ReadByte_spec:
  "ReadByte r = (v, r') \<Longrightarrow>
   v = (case input_left r of [] \<Rightarrow> None | c # _ \<Rightarrow> Some c) \<and> input_left r' = tl (input_left r)"
  using ReadFull_spec[of 1 r]
  by (cases "input_left r") (auto simp: ReadByte_def split: prod.splits)

lemma ReadFull_left [simp]:
  "fst (ReadFull n r) = (if n \<le> length (input_left r) then Some (take n (input_left r)) else None)"
  "input_left (snd (ReadFull n r)) = drop n (input_left r)"
  using ReadFull_spec[of n r "fst (ReadFull n r)" "snd (ReadFull n r)"] by auto

lemma ReadByte_left [simp]:
  "fst (ReadByte r) = (case input_left r of [] \<Rightarrow> None | c # _ \<Rightarrow> Some c)"
  "input_left (snd (ReadByte r)) = tl (input_left r)"
  using ReadByte_spec[of r "fst (ReadByte r)" "snd (ReadByte r)"] by auto

lemma fill_one_spec:
  "fill_one b cs = (b', cs') \<Longrightarrow> b' @ concat cs' = b @ concat cs \<and> (b' = [] \<longrightarrow> b @ concat cs = [])"
  by (induction b cs rule: fill_one.induct) (auto split: if_splits)

lemma Peek1_spec:
  "Peek1 r = (v, r') \<Longrightarrow>
   v = (case input_left r of [] \<Rightarrow> None | c # _ \<Rightarrow> Some c) \<and> input_left r' = input_left r"
proof -
  assume p: "Peek1 r = (v, r')"
  obtain b cs where f: "fill_one (rbuf r) (chunks r) = (b, cs)" by fastforce
  have i: "input_left r = b @ concat cs" "b = [] \<Longrightarrow> input_left r = []"
    using fill_one_spec[OF f] by (auto simp: input_left_def)
  have "input_left r' = b @ concat cs" "v = (if b = [] then None else Some (hd b))"
    using p f by (auto simp: Peek1_def input_left_def)
  then show ?thesis using i by (cases b) simp_all
qed

lemma written_Flush [simp]: "written (Flush w) = written w"
  by (simp add: written_def Flush_def)

lemma written_WriteString [simp]: "written (WriteString s w) = written w @ s"
proof (induction s w rule: WriteString.induct)
  case (1 s w)
  show ?case
  proof (cases "length s \<le> bufsize - length (wbuf w)")
    case True
    then show ?thesis by (simp add: WriteString.simps[of s w] written_def)
  next
    case False
    let ?n = "bufsize - length (wbuf w)"
    have "written (WriteString s w) = written (Flush (w\<lparr>wbuf := wbuf w @ take ?n s\<rparr>)) @ drop ?n s"
      using 1 False by (simp add: WriteString.simps[of s w] Let_def)
    then show ?thesis by (simp add: written_def Flush_def)
  qed
qed

lemma written_Write [simp]: "written (Write p w) = written w @ p"
  by (simp add: Write_def written_def Let_def Flush_def)

end
