(* ===== verification/Connection.thy ===== *)
theory Connection
  imports ShardedProps GoBufio
begin

text \<open>
  What the two protocols share: the state of a connection, the surroundings it runs in, and the
  relation between two connections at the same point of their streams that the theorems about
  both protocols rest on.
\<close>

section \<open>The connection and its surroundings\<close>

text \<open>
  A connection's own steps are counted by \<open>clk\<close>: each call of a cache method and each \<open>time.Now\<close>
  of a handler is one. The surroundings say what the clock shows at each step, what the other
  connections and the workers' expiry ticks have made of the cache when the step is reached, how
  large a slice the run-time system can allocate, and the process number.
\<close>

record World =
  envs :: "nat \<Rightarrow> env"
  others :: "nat \<Rightarrow> ShardedCache \<Rightarrow> ShardedCache"
  max_alloc :: int
  pid :: int

record Conn =
  conn_cache :: ShardedCache
  rd :: Reader
  wr :: Writer
  clk :: nat

datatype outcome = Done | Closed | Panicked

type_synonym handled = "(Conn \<times> outcome) option"

definition emit :: "string \<Rightarrow> Conn \<Rightarrow> Conn" where
  "emit s c = c\<lparr>wr := WriteString s (wr c)\<rparr>"

definition emit_bytes :: "bytes \<Rightarrow> Conn \<Rightarrow> Conn" where
  "emit_bytes p c = c\<lparr>wr := Write p (wr c)\<rparr>"

definition cache_op ::
  "World \<Rightarrow> (env \<Rightarrow> ShardedCache \<Rightarrow> (ShardedCache \<times> 'a) option) \<Rightarrow> Conn \<Rightarrow> (Conn \<times> 'a) option" where
  "cache_op W f c = map_option (\<lambda>(sc, x). (c\<lparr>conn_cache := sc, clk := clk c + 1\<rparr>, x))
     (f (envs W (clk c)) (others W (clk c) (conn_cache c)))"

text \<open>
  \<open>FlushAll\<close> sends a request to each worker in turn, and \<open>Stats\<close> looks at each index in turn; the others
  go on between two of them. The number of workers never changes, so the guard, Go's bounds check,
  holds in every round.
\<close>

fun each_shard :: "World \<Rightarrow> (nat \<Rightarrow> env \<Rightarrow> ShardedCache \<Rightarrow> (ShardedCache \<times> 'a) option) \<Rightarrow> nat list \<Rightarrow>
    Conn \<Rightarrow> (Conn \<times> 'a list) option" where
  "each_shard W f [] c = Some (c, [])"
| "each_shard W f (i # is) c = do {
     (c, x) \<leftarrow> cache_op W (f i) c;
     (c, xs) \<leftarrow> each_shard W f is c;
     Some (c, x # xs)
   }"

definition flush_shard :: "nat \<Rightarrow> env \<Rightarrow> ShardedCache \<Rightarrow> (ShardedCache \<times> unit) option" where
  "flush_shard i en sc =
    (if i < length (workers sc) then map_option (\<lambda>(sc, _). (sc, ())) (sendRequest en i (key_req OpFlushAll []) sc)
     else Some (sc, ()))"

definition cache_flush :: "World \<Rightarrow> Conn \<Rightarrow> Conn option" where
  "cache_flush W c = do {
     (c, _) \<leftarrow> each_shard W flush_shard [0..<length (workers (conn_cache c))] c;
     Some c
   }"

definition count_shard :: "nat \<Rightarrow> env \<Rightarrow> ShardedCache \<Rightarrow> (ShardedCache \<times> int) option" where
  "count_shard i en sc =
    Some (sc, if i < length (workers sc) then int (Index_Count (index (workers sc ! i))) else 0)"

definition cache_stats :: "World \<Rightarrow> Conn \<Rightarrow> (Conn \<times> (string \<times> string) list) option" where
  "cache_stats W c = do {
     (c, counts) \<leftarrow> each_shard W count_shard [0..<length (workers (conn_cache c))] c;
     Some (c, [(''curr_items'', FormatInt (sum_list counts))])
   }"

definition read_clock :: "World \<Rightarrow> Conn \<Rightarrow> Conn \<times> int" where
  "read_clock W c = (c\<lparr>clk := clk c + 1\<rparr>, store_now (envs W (clk c)))"

text \<open>\<open>make([]byte, n)\<close> panics on a negative or an impossible length.\<close>

definition make_ok :: "World \<Rightarrow> int \<Rightarrow> bool" where
  "make_ok W n \<longleftrightarrow> 0 \<le> n \<and> n \<le> max_alloc W"

text \<open>The call that a storage command's name selects.\<close>

datatype store_op = SET | ADD | REPLACE

definition store_call ::
  "store_op \<Rightarrow> string \<Rightarrow> bytes \<Rightarrow> int \<Rightarrow> env \<Rightarrow> ShardedCache \<Rightarrow> (uint64 \<times> cache_error option) result" where
  "store_call oper key val ttl en sc =
    (case oper of SET \<Rightarrow> Set en key val ttl sc | ADD \<Rightarrow> Add en key val ttl sc
     | REPLACE \<Rightarrow> Replace en key val ttl sc)"

text \<open>Responses are flushed after a command only if no more input is already buffered.\<close>

definition flush_if_idle :: "Conn \<Rightarrow> Conn" where
  "flush_if_idle c = (if Buffered (rd c) = 0 then c\<lparr>wr := Flush (wr c)\<rparr> else c)"

section \<open>Cache operations return\<close>

definition total_op :: "(env \<Rightarrow> ShardedCache \<Rightarrow> (ShardedCache \<times> 'a) option) \<Rightarrow> bool" where
  "total_op f \<longleftrightarrow> (\<forall>en sc. sharded_inv sc \<longrightarrow> (\<exists>sc' x. f en sc = Some (sc', x) \<and> sharded_inv sc'))"

lemma total_opD: "total_op f \<Longrightarrow> sharded_inv sc \<Longrightarrow> f en sc = Some (sc', x) \<Longrightarrow> sharded_inv sc'"
  unfolding total_op_def by (metis option.inject prod.inject)

named_theorems total_ops \<open>the operations of the cache interface return\<close>

lemma sendRequest_total:
  "sharded_inv sc \<Longrightarrow> reqKey req = key \<Longrightarrow>
   \<exists>sc' r. sendRequest en (workerFor sc key) req sc = Some (sc', r) \<and> sharded_inv sc'"
  using cache_call_Some[where sc = sc and req = req and en = en]
    sharded_inv_next[where sc = sc and req = req and en = en]
  by (auto simp: cache_call_def)

lemma total_opI:
  assumes "\<And>en sc. f en sc = map_option (\<lambda>(sc, r). (sc, g r)) (sendRequest en (workerFor sc key) req sc)"
    and "reqKey req = key"
  shows "total_op f"
proof -
  have "\<exists>sc' x. f en sc = Some (sc', x) \<and> sharded_inv sc'" if "sharded_inv sc" for en sc
    using sendRequest_total[OF that assms(2), of en] by (auto simp: assms(1))
  then show ?thesis by (simp add: total_op_def)
qed

lemma total_Get [total_ops]: "total_op (\<lambda>en. Get en key)"
  by (rule total_opI[where req = "key_req OpGet key" and key = key]) (simp_all add: Get_def key_req_def)

lemma total_Set [total_ops]: "total_op (\<lambda>en. Set en key val ttl)"
  by (rule total_opI[where key = key and req = "(key_req OpSet key)\<lparr>reqValue := val, TTL := ttl\<rparr>"]) (simp_all add: Set_def cas_err_def key_req_def)

lemma total_Add [total_ops]: "total_op (\<lambda>en. Add en key val ttl)"
  by (rule total_opI[where key = key and req = "(key_req OpAdd key)\<lparr>reqValue := val, TTL := ttl\<rparr>"]) (simp_all add: Add_def cas_err_def key_req_def)

lemma total_Replace [total_ops]: "total_op (\<lambda>en. Replace en key val ttl)"
  by (rule total_opI[where key = key and req = "(key_req OpReplace key)\<lparr>reqValue := val, TTL := ttl\<rparr>"]) (simp_all add: Replace_def cas_err_def key_req_def)

lemma total_CompareAndSwap [total_ops]: "total_op (\<lambda>en. CompareAndSwap en key val ttl cas)"
  by (rule total_opI[where key = key and req = "(key_req OpCas key)\<lparr>reqValue := val, TTL := ttl, reqCas := cas\<rparr>"]) (simp_all add: CompareAndSwap_def cas_err_def key_req_def)

lemma total_Delete [total_ops]: "total_op (\<lambda>en. Delete en key)"
  by (rule total_opI[where key = key and req = "key_req OpDelete key"]) (simp_all add: Delete_def key_req_def)

lemma total_Touch [total_ops]: "total_op (\<lambda>en. Touch en key ttl)"
  by (rule total_opI[where key = key and req = "(key_req OpTouch key)\<lparr>TTL := ttl\<rparr>"]) (simp_all add: Touch_def cas_err_def key_req_def)

lemma total_Increment [total_ops]: "total_op (\<lambda>en. Increment en key d)"
  by (rule total_opI[where key = key and req = "(key_req OpIncr key)\<lparr>Delta := d\<rparr>"]) (simp_all add: Increment_def count_result_def key_req_def)

lemma total_Decrement [total_ops]: "total_op (\<lambda>en. Decrement en key d)"
  by (rule total_opI[where key = key and req = "(key_req OpDecr key)\<lparr>Delta := d\<rparr>"]) (simp_all add: Decrement_def count_result_def key_req_def)

lemma total_Append [total_ops]: "total_op (\<lambda>en. Append en key val)"
  by (rule total_opI[where key = key and req = "(key_req OpAppend key)\<lparr>reqValue := val\<rparr>"]) (simp_all add: Append_def cas_err_def key_req_def)

lemma total_Prepend [total_ops]: "total_op (\<lambda>en. Prepend en key val)"
  by (rule total_opI[where key = key and req = "(key_req OpPrepend key)\<lparr>reqValue := val\<rparr>"]) (simp_all add: Prepend_def cas_err_def key_req_def)

lemma total_flush_shard: "total_op (flush_shard i)"
  unfolding total_op_def
proof (intro allI impI)
  fix en sc assume inv: "sharded_inv sc"
  show "\<exists>sc' x. flush_shard i en sc = Some (sc', x) \<and> sharded_inv sc'"
  proof (cases "i < length (workers sc)")
    case True
    let ?w = "(workers sc ! i)\<lparr>index := NewIndex, usedMemory := 0\<rparr>"
    have "worker_inv ?w" by (simp add: worker_inv_def idx_inv_New)
    then have "sharded_inv (sc\<lparr>workers := (workers sc)[i := ?w]\<rparr>)"
      using inv True stored_empty[of ?w] by (auto simp: sharded_inv_def nth_list_update)
    then show ?thesis using True by (simp add: flush_shard_def sendRequest_def handleFlushAll_step)
  qed (simp add: flush_shard_def inv)
qed

lemma total_if [total_ops]:
  "total_op f \<Longrightarrow> total_op g \<Longrightarrow> total_op (\<lambda>en. if b then f en else g en)"
  by (cases b) simp_all

lemma total_store_call [total_ops]: "total_op (\<lambda>en. store_call oper key val ttl en)"
  unfolding store_call_def by (cases oper) (simp_all add: total_ops)

lemma total_count_shard: "total_op (count_shard i)"
  by (simp add: total_op_def count_shard_def)

section \<open>Handlers return, and see the stream only\<close>

text \<open>
  A connection is \<open>conn_ok\<close> if its cache is well-formed, its surroundings are \<open>world_ok\<close> if the
  others keep it so. \<open>rel n c d\<close>: two connections at the same point of their streams, with a good cache and at most
  \<open>n\<close> bytes to come. \<open>agree\<close>: two results that return and are so related.
\<close>

definition conn_ok :: "Conn \<Rightarrow> bool" where
  "conn_ok c \<longleftrightarrow> sharded_inv (conn_cache c)"

definition world_ok :: "World \<Rightarrow> bool" where
  "world_ok W \<longleftrightarrow> (\<forall>n sc. sharded_inv sc \<longrightarrow> sharded_inv (others W n sc))"

definition rel :: "nat \<Rightarrow> Conn \<Rightarrow> Conn \<Rightarrow> bool" where
  "rel n c d \<longleftrightarrow> conn_cache c = conn_cache d \<and> clk c = clk d \<and>
     input_left (rd c) = input_left (rd d) \<and> written (wr c) = written (wr d) \<and>
     conn_ok c \<and> length (input_left (rd c)) \<le> n"

definition agree :: "nat \<Rightarrow> handled \<Rightarrow> handled \<Rightarrow> bool" where
  "agree n h k \<longleftrightarrow> (\<exists>c d out. h = Some (c, out) \<and> k = Some (d, out) \<and> rel n c d)"

named_theorems agree_rules \<open>handlers agree on related connections\<close>

lemma emit_fields [simp]:
  "conn_cache (emit s c) = conn_cache c" "rd (emit s c) = rd c" "clk (emit s c) = clk c"
  "written (wr (emit s c)) = written (wr c) @ s"
  "conn_cache (emit_bytes s c) = conn_cache c" "rd (emit_bytes s c) = rd c" "clk (emit_bytes s c) = clk c"
  "written (wr (emit_bytes s c)) = written (wr c) @ s"
  by (simp_all add: emit_def emit_bytes_def)

lemma rel_emit: "rel n c d \<Longrightarrow> rel n (emit s c) (emit s d)"
  by (auto simp: rel_def conn_ok_def)

lemma rel_emit_bytes: "rel n c d \<Longrightarrow> rel n (emit_bytes s c) (emit_bytes s d)"
  by (auto simp: rel_def conn_ok_def)

lemma rel_clock: "rel n c d \<Longrightarrow> rel n (c\<lparr>clk := clk c + 1\<rparr>) (d\<lparr>clk := clk d + 1\<rparr>)"
  by (auto simp: rel_def conn_ok_def)

lemma rel_set_clock: "rel n c d \<Longrightarrow> rel n (c\<lparr>clk := m\<rparr>) (d\<lparr>clk := m\<rparr>)"
  by (auto simp: rel_def conn_ok_def)

lemma rel_reader:
  "rel n c d \<Longrightarrow> input_left r = input_left r' \<Longrightarrow> length (input_left r) \<le> n \<Longrightarrow>
   rel n (c\<lparr>rd := r\<rparr>) (d\<lparr>rd := r'\<rparr>)"
  by (auto simp: rel_def conn_ok_def)

lemma agree_Some [agree_rules]: "rel n c d \<Longrightarrow> agree n (Some (c, out)) (Some (d, out))"
  by (simp add: agree_def)

lemma agree_if [agree_rules]:
  "(b \<Longrightarrow> agree n h k) \<Longrightarrow> (\<not> b \<Longrightarrow> agree n h' k') \<Longrightarrow> agree n (if b then h else h') (if b then k else k')"
  by simp

lemma cache_op_rel:
  assumes "world_ok W" and "rel n c d" and "total_op f"
  obtains c' d' x where "cache_op W f c = Some (c', x)" "cache_op W f d = Some (d', x)" "rel n c' d'"
proof -
  obtain sc x where f: "f (envs W (clk c)) (others W (clk c) (conn_cache c)) = Some (sc, x)" "sharded_inv sc"
    using assms unfolding rel_def conn_ok_def total_op_def world_ok_def by blast
  have eq: "clk d = clk c" "conn_cache d = conn_cache c" using assms(2) by (simp_all add: rel_def)
  show thesis
  proof (rule that)
    show "cache_op W f c = Some (c\<lparr>conn_cache := sc, clk := clk c + 1\<rparr>, x)" using f(1) by (simp add: cache_op_def)
    show "cache_op W f d = Some (d\<lparr>conn_cache := sc, clk := clk d + 1\<rparr>, x)" using f(1) eq by (simp add: cache_op_def)
    show "rel n (c\<lparr>conn_cache := sc, clk := clk c + 1\<rparr>) (d\<lparr>conn_cache := sc, clk := clk d + 1\<rparr>)"
      using assms(2) f(2) by (auto simp: rel_def conn_ok_def)
  qed
qed

lemma agree_cache_op:
  assumes "world_ok W" and "rel n c d" and "total_op f" and "\<And>c d x. rel n c d \<Longrightarrow> agree n (k c x) (k' d x)"
  shows "agree n (Option.bind (cache_op W f c) (\<lambda>(c, x). k c x)) (Option.bind (cache_op W f d) (\<lambda>(d, x). k' d x))"
  by (rule cache_op_rel[OF assms(1-3)]) (simp add: assms(4))

lemma agree_read_clock:
  assumes "rel n c d" and "\<And>c d t. rel n c d \<Longrightarrow> agree n (k (c, t)) (k' (d, t))"
  shows "agree n (k (read_clock W c)) (k' (read_clock W d))"
proof -
  have "clk c = clk d" using assms(1) by (simp add: rel_def)
  then show ?thesis using assms(2)[OF rel_clock[OF assms(1)]] by (simp add: read_clock_def)
qed

lemma agree_opt [agree_rules]:
  "(x = None \<Longrightarrow> agree n h k) \<Longrightarrow> (\<And>y. x = Some y \<Longrightarrow> agree n (f y) (g y)) \<Longrightarrow>
   agree n (case x of None \<Rightarrow> h | Some y \<Rightarrow> f y) (case x of None \<Rightarrow> k | Some y \<Rightarrow> g y)"
  by (cases x) simp_all

lemma agree_prod [agree_rules]:
  "(\<And>a b. x = (a, b) \<Longrightarrow> agree n (f a b) (g a b)) \<Longrightarrow>
   agree n (case x of (a, b) \<Rightarrow> f a b) (case x of (a, b) \<Rightarrow> g a b)"
  by (cases x) simp

lemma agree_sum [agree_rules]:
  "(\<And>a. x = Inl a \<Longrightarrow> agree n (f a) (g a)) \<Longrightarrow> (\<And>b. x = Inr b \<Longrightarrow> agree n (f' b) (g' b)) \<Longrightarrow>
   agree n (case x of Inl a \<Rightarrow> f a | Inr b \<Rightarrow> f' b) (case x of Inl a \<Rightarrow> g a | Inr b \<Rightarrow> g' b)"
  by (cases x) simp_all

lemma flush_if_idle_fields [simp]:
  "rd (flush_if_idle c) = rd c" "conn_cache (flush_if_idle c) = conn_cache c"
  "clk (flush_if_idle c) = clk c" "written (wr (flush_if_idle c)) = written (wr c)"
  by (simp_all add: flush_if_idle_def)

lemma rel_flush: "rel n c d \<Longrightarrow> rel n (flush_if_idle c) (flush_if_idle d)"
  by (auto simp: flush_if_idle_def rel_def conn_ok_def)

text \<open>The end of a loop's body: carry on if the command is done. And fewer bytes are fine too.\<close>

lemma agree_mono: "agree m h k \<Longrightarrow> m \<le> n \<Longrightarrow> agree n h k"
  by (fastforce simp: agree_def rel_def)

lemma agree_continue:
  assumes "agree m h k" and "\<And>c d. rel m c d \<Longrightarrow> agree m (loop (flush_if_idle c)) (loop (flush_if_idle d))"
  shows "agree m (do { (c, out) \<leftarrow> h; if out = Done then loop (flush_if_idle c) else Some (c, out) })
    (do { (c, out) \<leftarrow> k; if out = Done then loop (flush_if_idle c) else Some (c, out) })"
  using assms by (auto simp: agree_def[of _ h] intro: agree_Some)

text \<open>How a handler ends on its own: it returns a good connection and a \<open>P\<close> outcome.\<close>

definition ends :: "(Conn \<Rightarrow> outcome \<Rightarrow> bool) \<Rightarrow> handled \<Rightarrow> bool" where
  "ends P h \<longleftrightarrow> (\<exists>c out. h = Some (c, out) \<and> conn_ok c \<and> P c out)"

named_theorems ends_rules \<open>how handlers end\<close>

lemma ends_Some [ends_rules]: "conn_ok c \<Longrightarrow> P c out \<Longrightarrow> ends P (Some (c, out))"
  by (simp add: ends_def)

lemma ends_if [ends_rules]: "(b \<Longrightarrow> ends P h) \<Longrightarrow> (\<not> b \<Longrightarrow> ends P k) \<Longrightarrow> ends P (if b then h else k)"
  by simp

lemma ends_opt [ends_rules]:
  "(x = None \<Longrightarrow> ends P h) \<Longrightarrow> (\<And>y. x = Some y \<Longrightarrow> ends P (f y)) \<Longrightarrow>
   ends P (case x of None \<Rightarrow> h | Some y \<Rightarrow> f y)"
  by (cases x) simp_all

lemma ends_prod [ends_rules]: "(\<And>a b. x = (a, b) \<Longrightarrow> ends P (f a b)) \<Longrightarrow> ends P (case x of (a, b) \<Rightarrow> f a b)"
  by (cases x) simp

lemma ends_sum [ends_rules]:
  "(\<And>a. x = Inl a \<Longrightarrow> ends P (f a)) \<Longrightarrow> (\<And>b. x = Inr b \<Longrightarrow> ends P (g b)) \<Longrightarrow>
   ends P (case x of Inl a \<Rightarrow> f a | Inr b \<Rightarrow> g b)"
  by (cases x) simp_all

lemma ends_cache_op:
  assumes "world_ok W" and "conn_ok c" and "total_op f"
    and "\<And>sc n x. sharded_inv sc \<Longrightarrow> ends P (k (c\<lparr>conn_cache := sc, clk := n\<rparr>) x)"
  shows "ends P (Option.bind (cache_op W f c) (\<lambda>(c, x). k c x))"
proof -
  obtain sc x where "f (envs W (clk c)) (others W (clk c) (conn_cache c)) = Some (sc, x)" "sharded_inv sc"
    using assms(1-3) unfolding conn_ok_def total_op_def world_ok_def by blast
  with assms(4) show ?thesis by (simp add: cache_op_def)
qed

lemma conn_ok_fields [simp]:
  "conn_ok (c\<lparr>rd := r\<rparr>) = conn_ok c" "conn_ok (c\<lparr>clk := n\<rparr>) = conn_ok c" "conn_ok (emit s c) = conn_ok c"
  "conn_ok (emit_bytes s c) = conn_ok c" "conn_ok (c\<lparr>conn_cache := sc\<rparr>) = sharded_inv sc"
  by (simp_all add: conn_ok_def)

text \<open>
  Going through the shards returns too, and what it does to the cache and returns depends on the
  cache and the step only.
\<close>

lemma each_shard_Some:
  assumes "world_ok W" and "\<And>i. total_op (f i)"
  shows "conn_ok c \<Longrightarrow> \<exists>sc n xs. sharded_inv sc \<and>
    (\<forall>d. conn_cache d = conn_cache c \<longrightarrow> clk d = clk c \<longrightarrow>
      each_shard W f is d = Some (d\<lparr>conn_cache := sc, clk := n\<rparr>, xs))"
proof (induction "is" arbitrary: c)
  case Nil
  have "d\<lparr>conn_cache := conn_cache d, clk := clk d\<rparr> = d" for d :: Conn by simp
  then show ?case using Nil by (metis conn_ok_def each_shard.simps(1))
next
  case (Cons i "is")
  obtain sc x where f: "f i (envs W (clk c)) (others W (clk c) (conn_cache c)) = Some (sc, x)" "sharded_inv sc"
    using assms(1) Cons.prems assms(2)[of i] unfolding conn_ok_def total_op_def world_ok_def by blast
  have "conn_ok (c\<lparr>conn_cache := sc, clk := clk c + 1\<rparr>)" using f(2) by (simp add: conn_ok_def)
  from Cons.IH[OF this] obtain sc2 n xs where "sharded_inv sc2" "\<forall>d. conn_cache d = sc \<longrightarrow> clk d = clk c + 1 \<longrightarrow>
    each_shard W f is d = Some (d\<lparr>conn_cache := sc2, clk := n\<rparr>, xs)" by auto
  then show ?case using f(1) by (intro exI[of _ sc2] exI[of _ n] exI[of _ "x # xs"]) (simp add: cache_op_def)
qed

lemma cache_flush_Some:
  assumes "world_ok W" and "conn_ok c"
  obtains sc n where "sharded_inv sc" "\<And>d. conn_cache d = conn_cache c \<Longrightarrow> clk d = clk c \<Longrightarrow>
    cache_flush W d = Some (d\<lparr>conn_cache := sc, clk := n\<rparr>)"
proof -
  obtain sc n xs where "sharded_inv sc" "\<forall>d. conn_cache d = conn_cache c \<longrightarrow> clk d = clk c \<longrightarrow>
      each_shard W flush_shard [0..<length (workers (conn_cache c))] d = Some (d\<lparr>conn_cache := sc, clk := n\<rparr>, xs)"
    using each_shard_Some[of W flush_shard, OF assms(1) total_flush_shard assms(2)] by blast
  then show thesis by (intro that[of sc n]) (simp_all add: cache_flush_def)
qed

lemma cache_stats_Some:
  assumes "world_ok W" and "conn_ok c"
  obtains sc n v where "sharded_inv sc" "\<And>d. conn_cache d = conn_cache c \<Longrightarrow> clk d = clk c \<Longrightarrow>
    cache_stats W d = Some (d\<lparr>conn_cache := sc, clk := n\<rparr>, [(''curr_items'', v)])"
proof -
  obtain sc n xs where "sharded_inv sc" "\<forall>d. conn_cache d = conn_cache c \<longrightarrow> clk d = clk c \<longrightarrow>
      each_shard W count_shard [0..<length (workers (conn_cache c))] d = Some (d\<lparr>conn_cache := sc, clk := n\<rparr>, xs)"
    using each_shard_Some[of W count_shard, OF assms(1) total_count_shard assms(2)] by blast
  then show thesis by (intro that[of sc n "FormatInt (sum_list xs)"]) (simp_all add: cache_stats_def)
qed

lemma rel_shards:
  assumes "rel n c d" and "sharded_inv sc"
  shows "rel n (c\<lparr>conn_cache := sc, clk := m\<rparr>) (d\<lparr>conn_cache := sc, clk := m\<rparr>)"
  using assms by (auto simp: rel_def conn_ok_def)

lemma agree_flush:
  assumes "world_ok W" and r: "rel n c d" and "\<And>c d. rel n c d \<Longrightarrow> agree n (k c) (k' d)"
  shows "agree n (Option.bind (cache_flush W c) k) (Option.bind (cache_flush W d) k')"
proof -
  have "conn_ok c" using r by (simp add: rel_def)
  then obtain sc m where i: "sharded_inv sc" and f: "\<And>d. conn_cache d = conn_cache c \<Longrightarrow> clk d = clk c \<Longrightarrow>
      cache_flush W d = Some (d\<lparr>conn_cache := sc, clk := m\<rparr>)" using cache_flush_Some[OF assms(1)] by metis
  from assms(3)[OF rel_shards[OF r i]] show ?thesis using f[of c] f[of d] r by (simp add: rel_def)
qed

lemma cache_stats_rel:
  assumes "world_ok W" and r: "rel n c d"
  obtains c' d' x where "cache_stats W c = Some (c', x)" "cache_stats W d = Some (d', x)" "rel n c' d'"
proof -
  have "conn_ok c" using r by (simp add: rel_def)
  then obtain sc m v where i: "sharded_inv sc" and f: "\<And>d. conn_cache d = conn_cache c \<Longrightarrow> clk d = clk c \<Longrightarrow>
      cache_stats W d = Some (d\<lparr>conn_cache := sc, clk := m\<rparr>, [(''curr_items'', v)])"
    using cache_stats_Some[OF assms(1)] by metis
  show thesis using f[of c] f[of d] r by (intro that[OF _ _ rel_shards[OF r i]]) (simp_all add: rel_def)
qed

lemma agree_stats:
  assumes "world_ok W" and "rel n c d" and "\<And>c d x. rel n c d \<Longrightarrow> agree n (k c x) (k' d x)"
  shows "agree n (Option.bind (cache_stats W c) (\<lambda>(c, x). k c x)) (Option.bind (cache_stats W d) (\<lambda>(d, x). k' d x))"
  by (rule cache_stats_rel[OF assms(1,2)]) (simp add: assms(3))

lemma ends_flush:
  assumes "world_ok W" and "conn_ok c" and "\<And>sc n. sharded_inv sc \<Longrightarrow> ends P (k (c\<lparr>conn_cache := sc, clk := n\<rparr>))"
  shows "ends P (Option.bind (cache_flush W c) k)"
  using cache_flush_Some[OF assms(1,2)] assms(3) by (metis bind.bind_lunit)

text \<open>With nobody else around these are \<open>FlushAll\<close> and the statistics of the cache as it is.\<close>

lemma each_shard_cache:
  "map_option (\<lambda>(c, _). conn_cache c) (Option.bind r (\<lambda>(c, xs). Some (c, x # xs))) =
    map_option (\<lambda>(c, _). conn_cache c) r"
  by (cases r) auto

lemma flush_each_alone:
  "\<forall>n sc. others W n sc = sc \<Longrightarrow> set is \<subseteq> {0..<length (workers (conn_cache c))} \<Longrightarrow>
   map_option (\<lambda>(c, _). conn_cache c) (each_shard W flush_shard is c) = flush_workers en is (conn_cache c)"
  by (induction "is" arbitrary: c)
    (auto simp: cache_op_def flush_shard_def sendRequest_def handleFlushAll_step each_shard_cache)

lemma cache_flush_alone:
  assumes "\<forall>n sc. others W n sc = sc"
  shows "map_option conn_cache (cache_flush W c) = FlushAll en (conn_cache c)"
  using flush_each_alone[OF assms, of "[0..<length (workers (conn_cache c))]" c en]
  by (cases "each_shard W flush_shard [0..<length (workers (conn_cache c))] c")
    (auto simp: cache_flush_def FlushAll_def)

lemma count_each_alone:
  "\<forall>n sc. others W n sc = sc \<Longrightarrow> set is \<subseteq> {0..<length (workers (conn_cache c))} \<Longrightarrow>
   \<exists>n. each_shard W count_shard is c =
     Some (c\<lparr>clk := n\<rparr>, map (\<lambda>i. int (Index_Count (index (workers (conn_cache c) ! i)))) is)"
proof (induction "is" arbitrary: c)
  case Nil
  have "c\<lparr>clk := clk c\<rparr> = c" by simp
  then show ?case by (metis each_shard.simps(1) list.simps(8))
next
  case (Cons i "is")
  from Cons.IH[of "c\<lparr>clk := clk c + 1\<rparr>"] Cons.prems show ?case by (auto simp: cache_op_def count_shard_def)
qed

lemma cache_stats_alone:
  assumes "\<forall>n sc. others W n sc = sc"
  shows "\<exists>n. cache_stats W c = Some (c\<lparr>clk := n\<rparr>, CacheStats (conn_cache c))"
proof -
  have "map (\<lambda>i. int (Index_Count (index (workers (conn_cache c) ! i)))) [0..<length (workers (conn_cache c))] =
      map (\<lambda>w. int (Index_Count (index w))) (workers (conn_cache c))"
    by (rule nth_equalityI) simp_all
  with count_each_alone[OF assms, of "[0..<length (workers (conn_cache c))]" c] show ?thesis
    by (auto simp: cache_stats_def CacheStats_def)
qed

text \<open>An outcome predicate that looks at the reader only.\<close>

definition at :: "(bytes \<Rightarrow> outcome \<Rightarrow> bool) \<Rightarrow> Conn \<Rightarrow> outcome \<Rightarrow> bool" where
  "at Q c out \<longleftrightarrow> Q (input_left (rd c)) out"

lemma at_fields [simp]:
  "at Q (emit s c) out = at Q c out" "at Q (emit_bytes s c) out = at Q c out"
  "at Q (c\<lparr>conn_cache := sc\<rparr>) out = at Q c out" "at Q (c\<lparr>clk := n\<rparr>) out = at Q c out"
  by (simp_all add: at_def)

lemma ends_clock:
  assumes "\<And>n t. ends P (f (c\<lparr>clk := n\<rparr>) t)"
  shows "ends P (case read_clock W c of (c, t) \<Rightarrow> f c t)"
  using assms by (simp add: read_clock_def)

section \<open>Set, then get\<close>

lemma Set_result:
  fixes k :: string
  assumes "sharded_inv sc"
  defines "w \<equiv> workers sc ! workerFor sc k"
  shows "Set en k v ttl sc = Some
    (sc\<lparr>workers := (workers sc)[workerFor sc k := next_worker en ((key_req OpSet k)\<lparr>reqValue := v, TTL := ttl\<rparr>) w]\<rparr>,
     casCounter w + 1, None)"
proof -
  let ?r = "(key_req OpSet k)\<lparr>reqValue := v, TTL := ttl\<rparr>"
  have w: "worker_inv w" using sharded_invD(2)[OF assms(1)] w_def by simp
  have "answer en ?r w = ok_resp\<lparr>respCas := casCounter w + 1\<rparr>"
    by (simp add: answer_abs[OF w] a_step_def key_req_def a_store_parts Let_def)
  then show ?thesis
    using cache_call_Some[OF assms(1), where req = ?r and en = en]
    by (simp add: Set_def cas_err_def cache_call_def key_req_def w_def)
qed

lemma Get_after_Set:
  assumes inv: "sharded_inv sc" and set: "Set en k v ttl sc = Some (sc1, cas, err)"
  shows "\<exists>sc2. Get en' k sc1 =
    (let w = workers sc ! workerFor sc k;
         (soft, hard) = expiry_times en (staleMultiplier w) (effective_ttl (DefaultTTL w) ttl);
         now = UnixMilli (check_now en')
     in if hard > 0 \<and> hard \<le> now then Some (sc2, [], 0, 0, Some ErrKeyNotFound)
        else Some (sc2, v, cas, if soft > 0 \<and> soft \<le> now then 3 else 0, None))" and "sharded_inv sc1" and "err = None"
proof -
  let ?i = "workerFor sc k" and ?r = "(key_req OpSet k)\<lparr>reqValue := v, TTL := ttl\<rparr>"
  let ?w = "workers sc ! ?i"
  have w: "worker_inv ?w" and n: "?i < length (workers sc)" using sharded_invD(2,3)[OF inv] by auto
  have s: "sc1 = sc\<lparr>workers := (workers sc)[?i := next_worker en ?r ?w]\<rparr>" "cas = casCounter ?w + 1" "err = None"
    using set Set_result[OF inv, of en k v ttl] by auto
  show i1: "sharded_inv sc1"
    using sharded_inv_next[OF inv, where req = ?r and en = en] by (simp add: s(1) key_req_def)
  show "err = None" by fact
  have w1: "workers sc1 ! workerFor sc1 k = next_worker en ?r ?w" using n by (simp add: s(1))
  obtain soft hard where t: "expiry_times en (staleMultiplier ?w) (effective_ttl (DefaultTTL ?w) ttl) = (soft, hard)"
    by fastforce
  let ?now = "UnixMilli (check_now en')"
  have "answer en' (key_req OpGet k) (next_worker en ?r ?w) =
      (if hard > 0 \<and> hard \<le> ?now then err_resp ErrKeyNotFound
       else ok_resp\<lparr>respValue := v, respCas := cas, Flags := if soft > 0 \<and> soft \<le> ?now then 3 else 0\<rparr>)"
    using t w s(2)
    by (simp add: answer_abs next_abs a_step_def a_get_def a_store_parts Let_def hard_expired_def key_req_def)
  then show "\<exists>sc2. Get en' k sc1 =
    (let w = workers sc ! workerFor sc k;
         (soft, hard) = expiry_times en (staleMultiplier w) (effective_ttl (DefaultTTL w) ttl);
         now = UnixMilli (check_now en')
     in if hard > 0 \<and> hard \<le> now then Some (sc2, [], 0, 0, Some ErrKeyNotFound)
        else Some (sc2, v, cas, if soft > 0 \<and> soft \<le> now then 3 else 0, None))"
    using cache_call_Some[OF i1, where req = "key_req OpGet k" and en = en'] w1 t
    by (intro exI[of _ "sc1\<lparr>workers := (workers sc1)[workerFor sc1 k :=
        next_worker en' (key_req OpGet k) (next_worker en ?r ?w)]\<rparr>"])
      (simp add: Get_def cache_call_def key_req_def err_resp_def ok_resp_def Let_def)
qed

text \<open>Without an expiry, what was set is read back, at any later time.\<close>

lemma Set_then_Get:
  assumes inv: "sharded_inv sc" and ttl: "effective_ttl (DefaultTTL (workers sc ! workerFor sc k)) ttl \<le> 0"
    and set: "Set en k v ttl sc = Some (sc1, cas, err)"
  shows "\<exists>sc2. Get en' k sc1 = Some (sc2, v, cas, 0, None)"
  using Get_after_Set(1)[OF inv set, of en'] ttl by (auto simp: expiry_times_def Let_def)

lemma flush_idle_end:
  "input_left (rd c) = [] \<Longrightarrow> sent (wr (flush_if_idle c)) = written (wr c) \<and> wbuf (wr (flush_if_idle c)) = []"
  by (simp add: flush_if_idle_def Buffered_def input_left_def Flush_def written_def)

section \<open>What a protocol promises\<close>

text \<open>
  The contract of a protocol's loop with the server: on related connections it returns related
  ones with the same outcome. Both protocols and their combination satisfy it.
\<close>

locale protocol =
  fixes serve_conn :: "World \<Rightarrow> Conn \<Rightarrow> handled"
  assumes serve_agree: "world_ok W \<Longrightarrow> rel n c d \<Longrightarrow> agree n (serve_conn W c) (serve_conn W d)"
begin

lemma returns: "world_ok W \<Longrightarrow> conn_ok c \<Longrightarrow> \<exists>c' out. serve_conn W c = Some (c', out) \<and> conn_ok c'"
  using serve_agree[of W "length (input_left (rd c))" c c] by (auto simp: agree_def rel_def)

lemma same_stream:
  assumes "world_ok W" and "conn_ok c" and "conn_cache d = conn_cache c" and "clk d = clk c"
    and "input_left (rd d) = input_left (rd c)" and "written (wr d) = written (wr c)"
  shows "\<exists>c' d' out. serve_conn W c = Some (c', out) \<and> serve_conn W d = Some (d', out) \<and>
    conn_cache d' = conn_cache c' \<and> written (wr d') = written (wr c') \<and> conn_ok c'"
proof -
  have "rel (length (input_left (rd c))) c d" using assms by (simp add: rel_def)
  from serve_agree[OF assms(1) this] show ?thesis by (auto simp: agree_def rel_def)
qed

lemma after_peek:
  assumes "world_ok W" and "conn_ok c" and "Peek1 (rd c) = (v, r)" and "serve_conn W (c\<lparr>rd := r\<rparr>) = Some (c', out)"
  shows "\<exists>e. serve_conn W c = Some (e, out) \<and> written (wr e) = written (wr c') \<and> conn_cache e = conn_cache c'"
  using same_stream[OF assms(1,2), of "c\<lparr>rd := r\<rparr>"] Peek1_spec[OF assms(3)] assms(4) by auto

end

section \<open>A connection to try things on\<close>

definition calm :: "World \<Rightarrow> bool" where
  "calm W \<longleftrightarrow> (\<forall>n sc. others W n sc = sc)"

definition quiet_world :: World where
  "quiet_world = \<lparr>envs = (\<lambda>n. at_time 0), others = (\<lambda>n sc. sc), max_alloc = 2 ^ 47, pid = 1\<rparr>"

definition client :: "bytes list \<Rightarrow> Conn" where
  "client cs = \<lparr>conn_cache = two_shards, rd = \<lparr>rbuf = [], chunks = cs\<rparr>, wr = \<lparr>wbuf = [], sent = []\<rparr>, clk = 0\<rparr>"

lemma client_ok: "calm quiet_world" "world_ok quiet_world" "conn_ok (client cs)"
  by (simp_all add: calm_def world_ok_def quiet_world_def conn_ok_def client_def two_shards_def sharded_inv_New)

end
