(* ===== verification/TextProto.thy ===== *)
theory TextProto
  imports Connection
begin

text \<open>
  The text protocol, \<^verbatim>\<open>pkg/server/text.go\<close>: one definition per command handler and the
  connection's loop \<open>handleText\<close>. A handler takes and returns the connection. It is option-valued
  because the cache's methods are; \<open>Panicked\<close> is a run-time panic, which takes the whole server
  down since no goroutine recovers.
\<close>

definition CRLF :: string where "CRLF = [CR, LF]"

definition finish :: "string \<Rightarrow> Conn \<Rightarrow> handled" where
  "finish s c = Some (emit (s @ CRLF) c, Done)"

definition reply :: "bool \<Rightarrow> string \<Rightarrow> Conn \<Rightarrow> handled" where
  "reply noreply s c = (if noreply then Some (c, Done) else finish s c)"

definition maxKeyLength :: int where "maxKeyLength = 250"
definition maxLineLength :: int where "maxLineLength = 2 * 1024"
definition maxValueSize :: int where "maxValueSize = 1024 * 1024"

text \<open>The time to live for an \<open>exptime\<close>, the same lines in every handler that has one.\<close>

definition text_ttl :: "int \<Rightarrow> int \<Rightarrow> int" where
  "text_ttl now exptime =
    (if exptime < 0 then Nanosecond
     else if exptime > 0 then
       (if exptime > 2592000 then
          (let ttl = Time_Until now (Time_Unix exptime) in if ttl \<le> 0 then Nanosecond else ttl)
        else exptime * Second)
     else 0)"

text \<open>Reading a data block and its line end, the same lines in the three storage handlers.\<close>

definition read_block :: "nat \<Rightarrow> Conn \<Rightarrow> bytes option \<times> Conn" where
  "read_block n c =
    (case ReadFull n (rd c) of
      (None, r) \<Rightarrow> (None, c\<lparr>rd := r\<rparr>)
    | (Some value, r) \<Rightarrow>
        (case ReadByte r of
          (ch, r) \<Rightarrow> (Some value, c\<lparr>rd := if ch = Some CR then snd (ReadByte r) else r\<rparr>)))"

definition bad_format :: string where
  "bad_format = ''CLIENT_ERROR bad command line format''"

definition has_noreply :: "nat \<Rightarrow> string list \<Rightarrow> bool" where
  "has_noreply i parts \<longleftrightarrow> length parts > i \<and> parts ! i = ''noreply''"

section \<open>Storage commands\<close>

definition handleTextStorage :: "World \<Rightarrow> string list \<Rightarrow> store_op \<Rightarrow> Conn \<Rightarrow> handled" where
  "handleTextStorage W parts oper c =
    (if length parts < 5 then finish bad_format c
     else if isl (ParseUint (parts ! 2) 32) then finish bad_format c
     else case ParseInt (parts ! 3) of
       (_, Some _) \<Rightarrow> finish bad_format c
     | (exptime, None) \<Rightarrow>
     (case Atoi (parts ! 4) of
       (_, Some _) \<Rightarrow> finish bad_format c
     | (n, None) \<Rightarrow>
        if n > maxValueSize then
          (if \<not> make_ok W n then Some (c, Panicked)
           else (let r = snd (ReadFull (nat n) (rd c)); r = snd (ReadByte r); r = snd (ReadByte r)
                 in finish ''SERVER_ERROR object too large for cache'' (c\<lparr>rd := r\<rparr>)))
        else if \<not> make_ok W n then Some (c, Panicked)
        else (case read_block (nat n) c of
          (None, c) \<Rightarrow> finish ''SERVER_ERROR read error'' c
        | (Some value, c) \<Rightarrow>
            (case read_clock W c of (c, now) \<Rightarrow> do {
              (c, _, err) \<leftarrow> cache_op W (store_call oper (parts ! 1) value (text_ttl now exptime)) c;
              case err of
                None \<Rightarrow> reply (has_noreply 5 parts) ''STORED'' c
              | Some e \<Rightarrow>
                  if e = ErrKeyExists \<or> e = ErrKeyNotFound
                  then reply (has_noreply 5 parts) ''NOT_STORED'' c
                  else finish (''SERVER_ERROR '' @ error_text e) c
            }))))"

definition handleTextCas :: "World \<Rightarrow> string list \<Rightarrow> Conn \<Rightarrow> handled" where
  "handleTextCas W parts c =
    (if length parts < 5 then finish bad_format c
     else if isl (ParseUint (parts ! 2) 32) then finish bad_format c
     else case ParseInt (parts ! 3) of
       (_, Some _) \<Rightarrow> finish bad_format c
     | (exptime, None) \<Rightarrow>
     (case Atoi (parts ! 4) of
       (_, Some _) \<Rightarrow> finish bad_format c
     | (n, None) \<Rightarrow>
        if \<not> make_ok W n then Some (c, Panicked)
        else (case read_block (nat n) c of
          (None, c) \<Rightarrow> finish ''SERVER_ERROR read error'' c
        | (Some value, c) \<Rightarrow>
            if length parts < 6 then finish bad_format c
            else (case ParseUint (parts ! 5) 64 of
              Inl _ \<Rightarrow> finish bad_format c
            | Inr casToken \<Rightarrow>
                (case read_clock W c of (c, now) \<Rightarrow> do {
                  (c, _, err) \<leftarrow> cache_op W (\<lambda>en. CompareAndSwap en (parts ! 1) value
                    (text_ttl now exptime) (of_int casToken)) c;
                  case err of
                    None \<Rightarrow> reply (has_noreply 6 parts) ''STORED'' c
                  | Some e \<Rightarrow>
                      if e = ErrCasMismatch then reply (has_noreply 6 parts) ''EXISTS'' c
                      else if e = ErrKeyNotFound then reply (has_noreply 6 parts) ''NOT_FOUND'' c
                      else finish (''SERVER_ERROR '' @ error_text e) c
                })))))"

definition handleTextAppendPrepend :: "World \<Rightarrow> string list \<Rightarrow> bool \<Rightarrow> Conn \<Rightarrow> handled" where
  "handleTextAppendPrepend W parts prepend c =
    (if length parts < 5 then finish bad_format c
     else case Atoi (parts ! 4) of
       (_, Some _) \<Rightarrow> finish bad_format c
     | (n, None) \<Rightarrow>
        if \<not> make_ok W n then Some (c, Panicked)
        else (case read_block (nat n) c of
          (None, c) \<Rightarrow> finish ''SERVER_ERROR read error'' c
        | (Some value, c) \<Rightarrow> do {
            (c, _, err) \<leftarrow> cache_op W (\<lambda>en. if prepend then Prepend en (parts ! 1) value
              else Append en (parts ! 1) value) c;
            case err of
              None \<Rightarrow> reply (has_noreply 5 parts) ''STORED'' c
            | Some e \<Rightarrow>
                if e = ErrKeyNotFound then reply (has_noreply 5 parts) ''NOT_STORED'' c
                else finish (''SERVER_ERROR '' @ error_text e) c
          }))"

section \<open>Retrieval commands\<close>

definition write_value :: "bool \<Rightarrow> string \<Rightarrow> bytes \<Rightarrow> uint64 \<Rightarrow> int \<Rightarrow> Conn \<Rightarrow> Conn" where
  "write_value withCas key val cas flags c =
    (let c = emit ''VALUE '' c; c = emit key c; c = emit '' '' c; c = emit (FormatInt flags) c;
         c = emit '' '' c; c = emit (FormatInt (int (length val))) c;
         c = (if withCas then emit (FormatUint (uint cas)) (emit '' '' c) else c);
         c = emit CRLF c; c = emit_bytes val c
     in emit CRLF c)"

fun get_keys :: "World \<Rightarrow> bool \<Rightarrow> string list \<Rightarrow> Conn \<Rightarrow> Conn option" where
  "get_keys W withCas [] c = Some c"
| "get_keys W withCas (key # keys) c = do {
     (c, val, cas, flags, err) \<leftarrow> cache_op W (\<lambda>en. Get en key) c;
     get_keys W withCas keys (if err = None then write_value withCas key val cas flags c else c)
   }"

definition handleTextGet :: "World \<Rightarrow> string list \<Rightarrow> bool \<Rightarrow> Conn \<Rightarrow> handled" where
  "handleTextGet W parts withCas c =
    (if length parts < 2 then finish ''ERROR'' c
     else do { c \<leftarrow> get_keys W withCas (tl parts) c; finish ''END'' c })"

fun gat_keys :: "World \<Rightarrow> bool \<Rightarrow> int \<Rightarrow> string list \<Rightarrow> Conn \<Rightarrow> Conn option" where
  "gat_keys W withCas ttl [] c = Some c"
| "gat_keys W withCas ttl (key # keys) c = do {
     (c, val, cas, flags, err) \<leftarrow> cache_op W (\<lambda>en. Get en key) c;
     if err \<noteq> None then gat_keys W withCas ttl keys c
     else do {
       (c, _, _) \<leftarrow> cache_op W (\<lambda>en. Touch en key ttl) c;
       gat_keys W withCas ttl keys (write_value withCas key val cas flags c)
     }
   }"

definition handleTextGat :: "World \<Rightarrow> string list \<Rightarrow> bool \<Rightarrow> Conn \<Rightarrow> handled" where
  "handleTextGat W parts withCas c =
    (if length parts < 3 then finish ''ERROR'' c
     else case ParseInt (parts ! 1) of
       (_, Some _) \<Rightarrow> finish bad_format c
     | (exptime, None) \<Rightarrow>
         (case read_clock W c of (c, now) \<Rightarrow> do {
           c \<leftarrow> gat_keys W withCas (text_ttl now exptime) (drop 2 parts) c;
           finish ''END'' c
         }))"

section \<open>The other commands\<close>

definition handleTextDelete :: "World \<Rightarrow> string list \<Rightarrow> Conn \<Rightarrow> handled" where
  "handleTextDelete W parts c =
    (if length parts < 2 then finish bad_format c
     else do {
       (c, err) \<leftarrow> cache_op W (\<lambda>en. Delete en (parts ! 1)) c;
       if err = None then reply (has_noreply 2 parts) ''DELETED'' c
       else reply (has_noreply 2 parts) ''NOT_FOUND'' c
     })"

definition handleTextIncrDecr :: "World \<Rightarrow> string list \<Rightarrow> bool \<Rightarrow> Conn \<Rightarrow> handled" where
  "handleTextIncrDecr W parts incr c =
    (if length parts < 3 then finish bad_format c
     else case ParseUint (parts ! 2) 64 of
       Inl _ \<Rightarrow> finish ''CLIENT_ERROR invalid numeric delta argument'' c
     | Inr d \<Rightarrow> do {
         (c, newVal, _, err) \<leftarrow> cache_op W (\<lambda>en. if incr then Increment en (parts ! 1) (of_int d)
           else Decrement en (parts ! 1) (of_int d)) c;
         case err of
           None \<Rightarrow> reply (has_noreply 3 parts) (FormatUint (uint newVal)) c
         | Some e \<Rightarrow>
             if e = ErrKeyNotFound then reply (has_noreply 3 parts) ''NOT_FOUND'' c
             else finish (''CLIENT_ERROR '' @ error_text e) c
       })"

text \<open>The error of \<open>ParseInt\<close> is dropped here; its value is used all the same.\<close>

definition handleTextTouch :: "World \<Rightarrow> string list \<Rightarrow> Conn \<Rightarrow> handled" where
  "handleTextTouch W parts c =
    (if length parts < 3 then finish bad_format c
     else (case read_clock W c of (c, now) \<Rightarrow> do {
       (c, _, err) \<leftarrow> cache_op W (\<lambda>en. Touch en (parts ! 1) (text_ttl now (fst (ParseInt (parts ! 2))))) c;
       case err of
         None \<Rightarrow> reply (has_noreply 3 parts) ''TOUCHED'' c
       | Some e \<Rightarrow>
           reply (has_noreply 3 parts)
             (if e = ErrKeyNotFound then ''NOT_FOUND'' else ''SERVER_ERROR '' @ error_text e) c
     }))"

definition handleTextFlushAll :: "World \<Rightarrow> string list \<Rightarrow> Conn \<Rightarrow> handled" where
  "handleTextFlushAll W parts c = do {
     c \<leftarrow> cache_flush W c;
     reply (''noreply'' \<in> set (tl parts)) ''OK'' c
   }"

text \<open>The map that \<open>Stats\<close> returns has one entry, so the order of its iteration does not matter.\<close>

definition handleTextStats :: "World \<Rightarrow> Conn \<Rightarrow> handled" where
  "handleTextStats W c =
    (case cache_stats W c of None \<Rightarrow> None | Some (c, stats) \<Rightarrow>
     (let c = emit (''STAT pid '' @ FormatInt (pid W) @ CRLF) c
     in case read_clock W c of (c, now) \<Rightarrow>
       (let c = emit (''STAT uptime '' @
              FormatInt (f64_to_int64 (oor_int (envs W (clk c)))
                (Duration_Seconds (Time_Sub now (GetStartTime (conn_cache c))))) @ CRLF) c
        in case read_clock W c of (c, now) \<Rightarrow>
          (let c = emit (''STAT time '' @ FormatInt (now div Second) @ CRLF) c;
               c = emit (''STAT version 1.0.0'' @ CRLF) c;
               c = fold (\<lambda>(k, v) c. emit (''STAT '' @ k @ '' '' @ v @ CRLF) c) stats c
           in finish ''END'' c))))"

section \<open>The loop\<close>

definition text_command :: "World \<Rightarrow> string list \<Rightarrow> Conn \<Rightarrow> handled" where
  "text_command W parts c =
    (let cmd = ToUpper (hd parts)
     in if cmd = ''SET'' then handleTextStorage W parts SET c
        else if cmd = ''ADD'' then handleTextStorage W parts ADD c
        else if cmd = ''REPLACE'' then handleTextStorage W parts REPLACE c
        else if cmd = ''APPEND'' then handleTextAppendPrepend W parts False c
        else if cmd = ''PREPEND'' then handleTextAppendPrepend W parts True c
        else if cmd = ''CAS'' then handleTextCas W parts c
        else if cmd = ''GET'' then handleTextGet W parts False c
        else if cmd = ''GETS'' then handleTextGet W parts True c
        else if cmd = ''DELETE'' then handleTextDelete W parts c
        else if cmd = ''INCR'' then handleTextIncrDecr W parts True c
        else if cmd = ''DECR'' then handleTextIncrDecr W parts False c
        else if cmd = ''TOUCH'' then handleTextTouch W parts c
        else if cmd = ''GAT'' then handleTextGat W parts False c
        else if cmd = ''GATS'' then handleTextGat W parts True c
        else if cmd = ''FLUSH_ALL'' then handleTextFlushAll W parts c
        else if cmd = ''VERBOSITY'' then Some (c, Done)
        else if cmd = ''QUIT'' then Some (c, Closed)
        else if cmd = ''VERSION'' then finish ''VERSION 1.0.0'' c
        else if cmd = ''STATS'' then handleTextStats W c
        else finish ''ERROR'' c)"

partial_function (option) handleText :: "World \<Rightarrow> Conn \<Rightarrow> handled" where
  "handleText W c =
    (case ReadString (rd c) of
      (None, r) \<Rightarrow> Some (c\<lparr>rd := r\<rparr>, Closed)
    | (Some line, r) \<Rightarrow>
        (let c = c\<lparr>rd := r\<rparr>; line = TrimSpace line; parts = Fields line
         in if line = [] then handleText W c
            else if parts = [] then handleText W c
            else do {
              (c, out) \<leftarrow> text_command W parts c;
              if out = Done then handleText W (flush_if_idle c) else Some (c, out)
            }))"

declare handleText.simps [code]

end
