(* ===== verification/TextProps.thy ===== *)
theory TextProps
  imports TextProto
begin

text \<open>
  Properties of the text protocol. Two facts about each handler carry them: it always returns,
  keeping the cache well-formed and never giving input back; and what it does to the cache and
  to the bytes written depends on the bytes still to come, not on how they are cut into chunks
  or on how much of the output has been flushed.
\<close>

section \<open>Handlers return, and see the stream only\<close>

lemma agree_finish [agree_rules]: "rel n c d \<Longrightarrow> agree n (finish s c) (finish s d)"
  by (simp add: finish_def agree_Some rel_emit)

lemma agree_reply [agree_rules]: "rel n c d \<Longrightarrow> agree n (reply b s c) (reply b s d)"
  by (simp add: reply_def agree_Some agree_finish)

text \<open>What a data block is, in terms of the bytes to come.\<close>

definition skip_eol :: "bytes \<Rightarrow> bytes" where
  "skip_eol s = (case s of [] \<Rightarrow> [] | ch # t \<Rightarrow> if ch = CR then tl t else t)"

lemma read_block_spec:
  "fst (read_block n c) = (if n \<le> length (input_left (rd c)) then Some (take n (input_left (rd c))) else None)"
  "input_left (rd (snd (read_block n c))) =
    (if n \<le> length (input_left (rd c)) then skip_eol (drop n (input_left (rd c))) else [])"
  "\<exists>r. snd (read_block n c) = c\<lparr>rd := r\<rparr>"
proof -
  obtain v r where f: "ReadFull n (rd c) = (v, r)" by fastforce
  obtain ch r1 where b: "ReadByte r = (ch, r1)" by fastforce
  note fs = ReadFull_spec[OF f] and bs = ReadByte_spec[OF b]
  show "fst (read_block n c) = (if n \<le> length (input_left (rd c)) then Some (take n (input_left (rd c))) else None)"
    using f b fs by (auto simp: read_block_def split: option.splits)
  show "input_left (rd (snd (read_block n c))) =
      (if n \<le> length (input_left (rd c)) then skip_eol (drop n (input_left (rd c))) else [])"
    using f b fs bs by (auto simp: read_block_def skip_eol_def split: option.splits list.splits)
  show "\<exists>r. snd (read_block n c) = c\<lparr>rd := r\<rparr>"
    using f b by (auto simp: read_block_def split: option.splits)
qed

lemma skip_eol_length: "length (skip_eol s) \<le> length s"
  by (cases s) (auto simp: skip_eol_def)

text \<open>Two related connections read the same block.\<close>

lemma read_block_rel:
  assumes "rel n c d"
  obtains v c' d' where "read_block m c = (v, c')" "read_block m d = (v, d')" "rel n c' d'"
proof -
  obtain v c' where c: "read_block m c = (v, c')" by fastforce
  obtain v' d' where d: "read_block m d = (v', d')" by fastforce
  have "v' = v" using read_block_spec(1)[of m c] read_block_spec(1)[of m d] assms c d by (simp add: rel_def)
  moreover have "rel n c' d'"
    using read_block_spec(2,3)[of m c] read_block_spec(2,3)[of m d] assms c d
      skip_eol_length[of "drop m (input_left (rd d))"]
    by (auto simp: rel_def conn_ok_def split: if_splits)
  ultimately show thesis using that c d by blast
qed

lemma agree_read_block:
  assumes "rel n c d" and "\<And>c d v. rel n c d \<Longrightarrow> agree n (k (v, c)) (k' (v, d))"
  shows "agree n (k (read_block m c)) (k' (read_block m d))"
  by (rule read_block_rel[OF assms(1), of m]) (simp add: assms(2))

text \<open>The three rules in the shape of the handlers' case expressions.\<close>

lemmas agree_clock_case = agree_read_clock[where k = "case_prod f" and k' = "case_prod f" for f, simplified]
lemmas agree_block_case = agree_read_block[where k = "case_prod f" and k' = "case_prod f" for f, simplified]

lemma rel_discard:
  "rel n c d \<Longrightarrow> rel n (c\<lparr>rd := snd (ReadByte (snd (ReadByte (snd (ReadFull m (rd c))))))\<rparr>)
     (d\<lparr>rd := snd (ReadByte (snd (ReadByte (snd (ReadFull m (rd d))))))\<rparr>)"
  by (intro rel_reader) (auto simp: rel_def)

lemmas handler_rules = agree_rules rel_discard agree_block_case agree_clock_case agree_cache_op agree_flush total_ops

section \<open>The handlers\<close>

lemma agree_Storage:
  assumes w: "world_ok W" and r: "rel n c d"
  shows "agree n (handleTextStorage W parts oper c) (handleTextStorage W parts oper d)"
  unfolding handleTextStorage_def Let_def
  by (intro handler_rules r w)

lemma agree_Cas:
  assumes w: "world_ok W" and r: "rel n c d"
  shows "agree n (handleTextCas W parts c) (handleTextCas W parts d)"
  unfolding handleTextCas_def by (intro handler_rules r w)

lemma agree_AppendPrepend:
  assumes w: "world_ok W" and r: "rel n c d"
  shows "agree n (handleTextAppendPrepend W parts pre c) (handleTextAppendPrepend W parts pre d)"
  unfolding handleTextAppendPrepend_def by (intro handler_rules r w)

lemma agree_Delete:
  assumes w: "world_ok W" and r: "rel n c d"
  shows "agree n (handleTextDelete W parts c) (handleTextDelete W parts d)"
  unfolding handleTextDelete_def by (intro handler_rules r w)

lemma agree_IncrDecr:
  assumes w: "world_ok W" and r: "rel n c d"
  shows "agree n (handleTextIncrDecr W parts incr c) (handleTextIncrDecr W parts incr d)"
  unfolding handleTextIncrDecr_def by (intro handler_rules r w)

lemma agree_Touch:
  assumes w: "world_ok W" and r: "rel n c d"
  shows "agree n (handleTextTouch W parts c) (handleTextTouch W parts d)"
  unfolding handleTextTouch_def by (intro handler_rules r w)

lemma agree_FlushAll:
  assumes w: "world_ok W" and r: "rel n c d"
  shows "agree n (handleTextFlushAll W parts c) (handleTextFlushAll W parts d)"
  unfolding handleTextFlushAll_def by (intro handler_rules r w)

text \<open>The loops over keys; their results are connections.\<close>

definition agree_conn :: "nat \<Rightarrow> Conn option \<Rightarrow> Conn option \<Rightarrow> bool" where
  "agree_conn n h k \<longleftrightarrow> (\<exists>c d. h = Some c \<and> k = Some d \<and> rel n c d)"

lemma rel_write_value:
  "rel n c d \<Longrightarrow> rel n (write_value b key val cas flags c) (write_value b key val cas flags d)"
  by (simp add: write_value_def Let_def rel_emit rel_emit_bytes)

lemma agree_conn_op:
  assumes "world_ok W" and "rel n c d" and "total_op f" and "\<And>c d x. rel n c d \<Longrightarrow> agree_conn n (k c x) (k' d x)"
  shows "agree_conn n (Option.bind (cache_op W f c) (\<lambda>(c, x). k c x)) (Option.bind (cache_op W f d) (\<lambda>(d, x). k' d x))"
  by (rule cache_op_rel[OF assms(1-3)]) (simp add: assms(4))

lemma agree_conn_prod:
  "(\<And>a b. x = (a, b) \<Longrightarrow> agree_conn n (f a b) (g a b)) \<Longrightarrow>
   agree_conn n (case x of (a, b) \<Rightarrow> f a b) (case x of (a, b) \<Rightarrow> g a b)"
  by (cases x) simp

lemma agree_conn_if:
  "(b \<Longrightarrow> agree_conn n h k) \<Longrightarrow> (\<not> b \<Longrightarrow> agree_conn n h' k') \<Longrightarrow>
   agree_conn n (if b then h else h') (if b then k else k')"
  by simp

lemma agree_get_keys: "world_ok W \<Longrightarrow> rel n c d \<Longrightarrow> agree_conn n (get_keys W b keys c) (get_keys W b keys d)"
proof (induction keys arbitrary: c d)
  case (Cons key keys)
  show ?case
    unfolding get_keys.simps
    by (intro agree_conn_op agree_conn_prod Cons total_ops) (auto intro: rel_write_value)
qed (simp add: agree_conn_def)

lemma agree_gat_keys: "world_ok W \<Longrightarrow> rel n c d \<Longrightarrow> agree_conn n (gat_keys W b ttl keys c) (gat_keys W b ttl keys d)"
proof (induction keys arbitrary: c d)
  case (Cons key keys)
  show ?case
    unfolding gat_keys.simps
    by (intro agree_conn_op agree_conn_prod agree_conn_if Cons total_ops rel_write_value)
qed (simp add: agree_conn_def)

lemma agree_bind_conn:
  "agree_conn n h k \<Longrightarrow> (\<And>c d. rel n c d \<Longrightarrow> agree n (f c) (g d)) \<Longrightarrow>
   agree n (Option.bind h f) (Option.bind k g)"
  by (auto simp: agree_conn_def)

lemma agree_Get:
  assumes w: "world_ok W" and r: "rel n c d"
  shows "agree n (handleTextGet W parts b c) (handleTextGet W parts b d)"
  unfolding handleTextGet_def by (intro handler_rules r w agree_bind_conn agree_get_keys)

lemma agree_Gat:
  assumes w: "world_ok W" and r: "rel n c d"
  shows "agree n (handleTextGat W parts b c) (handleTextGat W parts b d)"
  unfolding handleTextGat_def by (intro handler_rules r w agree_bind_conn agree_gat_keys)

lemma rel_fold_emit: "rel n c d \<Longrightarrow> rel n (fold (\<lambda>x c. emit (f x) c) xs c) (fold (\<lambda>x c. emit (f x) c) xs d)"
  by (induction xs arbitrary: c d) (simp_all add: rel_emit)

lemma agree_Stats:
  assumes w: "world_ok W" and r: "rel n c d"
  shows "agree n (handleTextStats W c) (handleTextStats W d)"
proof (rule cache_stats_rel[OF w r])
  fix c' d' x
  assume c: "cache_stats W c = Some (c', x)"
    and d: "cache_stats W d = Some (d', x)" and r: "rel n c' d'"
  have eq: "clk c' = clk d'" "conn_cache c' = conn_cache d'" using r by (simp_all add: rel_def)
  show ?thesis
    unfolding handleTextStats_def Let_def read_clock_def c d option.case prod.case split_def
    by (intro agree_finish) (simp add: eq rel_fold_emit rel_emit rel_set_clock r)
qed

lemma agree_command:
  assumes w: "world_ok W" and r: "rel n c d"
  shows "agree n (text_command W parts c) (text_command W parts d)"
  unfolding text_command_def Let_def
  by (intro agree_if agree_Storage agree_AppendPrepend agree_Cas agree_Get agree_Delete agree_IncrDecr
      agree_Touch agree_Gat agree_FlushAll agree_Some agree_finish agree_Stats r w)

section \<open>The loop\<close>

lemma agree_handleText:
  "world_ok W \<Longrightarrow> rel n c d \<Longrightarrow> agree n (handleText W c) (handleText W d)"
proof (induction "length (input_left (rd c))" arbitrary: c d n rule: less_induct)
  case less
  obtain l r where c: "ReadString (rd c) = (l, r)" by fastforce
  obtain l' r' where d: "ReadString (rd d) = (l', r')" by fastforce
  note cs = ReadString_spec[OF c] and ds = ReadString_spec[OF d]
  have eq: "input_left (rd c) = input_left (rd d)" using less.prems by (simp add: rel_def)
  then have l: "l' = l" and ir: "input_left r = input_left r'" using cs ds by simp_all
  show ?case
  proof (cases l)
    case None
    then have "input_left r = []" using cs by (simp split: if_splits)
    then have "rel n (c\<lparr>rd := r\<rparr>) (d\<lparr>rd := r'\<rparr>)" using less.prems ir by (intro rel_reader) auto
    then show ?thesis
      using c d l None by (simp add: handleText.simps[of W c] handleText.simps[of W d] agree_Some)
  next
    case (Some line)
    let ?c = "c\<lparr>rd := r\<rparr>" and ?d = "d\<lparr>rd := r'\<rparr>" and ?n = "length (input_left r)"
    have "LF \<in> set (input_left (rd c))" "input_left r = snd (after_line (input_left (rd c)))"
      using cs Some by (auto split: if_splits)
    with after_line_split[of "input_left (rd c)"] have short: "?n < length (input_left (rd c))"
      by (metis after_line_def append_is_Nil_conv fst_conv length_append less_add_same_cancel2 length_greater_0_conv not_Cons_self2)
    have rel: "rel ?n ?c ?d" using less.prems ir by (auto simp: rel_def conn_ok_def)
    note IH = less.hyps[OF _ less.prems(1) rel]
    have cmd: "agree ?n
        (do { (c, out) \<leftarrow> text_command W parts ?c; if out = Done then handleText W (flush_if_idle c) else Some (c, out) })
        (do { (c, out) \<leftarrow> text_command W parts ?d; if out = Done then handleText W (flush_if_idle c) else Some (c, out) })"
      for parts
    proof (rule agree_continue[OF agree_command[OF less.prems(1) rel]])
      fix c' d' assume r': "rel ?n c' d'"
      then have "length (input_left (rd (flush_if_idle c'))) < length (input_left (rd c))"
        using short by (auto simp: rel_def)
      from less.hyps[OF this less.prems(1) rel_flush[OF r']]
      show "agree ?n (handleText W (flush_if_idle c')) (handleText W (flush_if_idle d'))" .
    qed
    have n: "?n \<le> n" using short less.prems by (auto simp: rel_def)
    show ?thesis
      using c d l Some short IH cmd
      by (intro agree_mono[OF _ n]) (simp add: handleText.simps[of W c] handleText.simps[of W d] Let_def)
  qed
qed

interpretation text_loop: protocol handleText
  by unfold_locales (rule agree_handleText)

lemma skip_eol_CRLF: "skip_eol (CRLF @ rest) = rest"
  by (simp add: skip_eol_def CRLF_def)

section \<open>Storage commands and their data blocks\<close>

text \<open>The number of bytes a storage command's line announces, if the line is well-formed.\<close>

definition block_size :: "string list \<Rightarrow> int option" where
  "block_size parts =
    (let cmd = ToUpper (hd parts); n = Atoi (parts ! 4)
     in if length parts < 5 \<or> snd n \<noteq> None then None
        else if cmd \<in> {''SET'', ''ADD'', ''REPLACE'', ''CAS''}
             then if isl (ParseUint (parts ! 2) 32) \<or> snd (ParseInt (parts ! 3)) \<noteq> None then None
                  else Some (fst n)
        else if cmd \<in> {''APPEND'', ''PREPEND''} then Some (fst n) else None)"

lemma ends_finish: "conn_ok c \<Longrightarrow> P (emit (s @ CRLF) c) Done \<Longrightarrow> ends P (finish s c)"
  by (simp add: finish_def ends_def)

lemma ends_reply: "conn_ok c \<Longrightarrow> P c Done \<Longrightarrow> P (emit (s @ CRLF) c) Done \<Longrightarrow> ends P (reply b s c)"
  by (simp add: reply_def ends_finish ends_Some)

lemma ends_block:
  assumes "\<And>v r. (input_left r = (if n \<le> length (input_left (rd c)) then skip_eol (drop n (input_left (rd c))) else [])) \<Longrightarrow>
      ends P (f v (c\<lparr>rd := r\<rparr>))"
  shows "ends P (case read_block n c of (v, c) \<Rightarrow> f v c)"
  using assms read_block_spec(2,3)[of n c] by (fastforce split: prod.splits)

lemmas ends_all = ends_block ends_clock ends_rules ends_finish ends_reply ends_cache_op total_ops

end
