(* ===== verification/TextClaims.thy ===== *)
theory TextClaims
  imports TextProps
begin

text \<open>
  What a client of the text protocol can rely on, and where it cannot.
\<close>

section \<open>One command at a time\<close>

lemma handleText_line:
  assumes i: "input_left (rd c) = join_fields parts @ CRLF @ rest" and p: "list_all plain parts" "parts \<noteq> []"
  shows "\<exists>r. input_left r = rest \<and> handleText W c =
    do { (c, out) \<leftarrow> text_command W parts (c\<lparr>rd := r\<rparr>);
         if out = Done then handleText W (flush_if_idle c) else Some (c, out) }"
proof -
  let ?l = "join_fields parts"
  obtain l r where c: "ReadString (rd c) = (l, r)" by fastforce
  have "LF \<notin> set (?l @ [CR])" using join_fields_no_newline[OF p(1)] by simp
  from after_line_first[OF this, of rest] have al: "after_line (input_left (rd c)) = (?l @ [CR, LF], rest)"
    using i by (simp add: CRLF_def)
  have "LF \<in> set (input_left (rd c))" using i by (simp add: CRLF_def)
  then have l: "l = Some (?l @ [CR, LF])" "input_left r = rest"
    using ReadString_spec[OF c] al by simp_all
  have t: "TrimSpace (?l @ [CR, LF]) = ?l" and ne: "?l \<noteq> []"
    using TrimSpace_line join_fields_ends[OF p] by auto
  show ?thesis
    using l(2) by (intro exI[of _ r])
      (simp add: handleText.simps[of W c] c l(1) Let_def t ne Fields_join[OF p(1)] p(2))
qed

lemma handleText_end:
  assumes "input_left (rd c) = []"
  shows "\<exists>r. handleText W c = Some (c\<lparr>rd := r\<rparr>, Closed)"
proof -
  obtain l r where c: "ReadString (rd c) = (l, r)" by fastforce
  have "l = None" using ReadString_spec[OF c] assms by simp
  then show ?thesis by (intro exI[of _ r]) (simp add: handleText.simps[of W c] c)
qed

section \<open>Panics\<close>

text \<open>No panic where the line is ill-formed or the block has a possible size.\<close>

definition no_panic :: "bytes \<Rightarrow> outcome \<Rightarrow> bool" where
  "no_panic s out \<longleftrightarrow> out \<noteq> Panicked"

lemma no_panic_intros [simp]: "at no_panic c Done" "at no_panic c Closed" "\<not> at no_panic c Panicked"
  by (simp_all add: at_def no_panic_def)

lemma ends_get_keys:
  "world_ok W \<Longrightarrow> conn_ok c \<Longrightarrow> \<exists>d. get_keys W b keys c = Some d \<and> conn_ok d"
  using agree_get_keys[of W "length (input_left (rd c))" c c b keys]
  by (auto simp: agree_conn_def rel_def)

lemma ends_gat_keys:
  "world_ok W \<Longrightarrow> conn_ok c \<Longrightarrow> \<exists>d. gat_keys W b ttl keys c = Some d \<and> conn_ok d"
  using agree_gat_keys[of W "length (input_left (rd c))" c c b ttl keys]
  by (auto simp: agree_conn_def rel_def)

lemma ends_conn:
  "\<exists>d. h = Some d \<and> conn_ok d \<Longrightarrow> (\<And>d. conn_ok d \<Longrightarrow> ends P (f d)) \<Longrightarrow> ends P (Option.bind h f)"
  by auto

lemma no_panic_Storage:
  assumes "world_ok W" and "conn_ok c"
    and "length parts < 5 \<or> isl (ParseUint (parts ! 2) 32) \<or> snd (ParseInt (parts ! 3)) \<noteq> None \<or>
      snd (Atoi (parts ! 4)) \<noteq> None \<or> make_ok W (fst (Atoi (parts ! 4)))"
  shows "ends (at no_panic) (handleTextStorage W parts oper c)"
  unfolding handleTextStorage_def Let_def
  by (intro ends_all assms(1,2)) (use assms in auto)

lemma no_panic_Cas:
  assumes "world_ok W" and "conn_ok c"
    and "length parts < 5 \<or> isl (ParseUint (parts ! 2) 32) \<or> snd (ParseInt (parts ! 3)) \<noteq> None \<or>
      snd (Atoi (parts ! 4)) \<noteq> None \<or> make_ok W (fst (Atoi (parts ! 4)))"
  shows "ends (at no_panic) (handleTextCas W parts c)"
  unfolding handleTextCas_def
  by (intro ends_all assms(1,2)) (use assms in auto)

lemma no_panic_AppendPrepend:
  assumes "world_ok W" and "conn_ok c"
    and "length parts < 5 \<or> snd (Atoi (parts ! 4)) \<noteq> None \<or> make_ok W (fst (Atoi (parts ! 4)))"
  shows "ends (at no_panic) (handleTextAppendPrepend W parts pre c)"
  unfolding handleTextAppendPrepend_def
  by (intro ends_all assms(1,2)) (use assms in auto)

lemma no_panic_others:
  assumes "world_ok W" and "conn_ok c"
  shows "ends (at no_panic) (handleTextGet W parts b c)" "ends (at no_panic) (handleTextGat W parts b c)"
    "ends (at no_panic) (handleTextDelete W parts c)" "ends (at no_panic) (handleTextIncrDecr W parts b c)"
    "ends (at no_panic) (handleTextTouch W parts c)" "ends (at no_panic) (handleTextFlushAll W parts c)"
    "ends (at no_panic) (handleTextStats W c)"
proof -
  show "ends (at no_panic) (handleTextGet W parts b c)"
    unfolding handleTextGet_def
    by (intro ends_all ends_conn[OF ends_get_keys] assms) simp_all
  show "ends (at no_panic) (handleTextGat W parts b c)"
    unfolding handleTextGat_def
    by (intro ends_all ends_conn[OF ends_gat_keys] assms) (simp_all add: assms)
  show "ends (at no_panic) (handleTextDelete W parts c)"
    unfolding handleTextDelete_def by (intro ends_all assms) (simp_all add: assms)
  show "ends (at no_panic) (handleTextIncrDecr W parts b c)"
    unfolding handleTextIncrDecr_def by (intro ends_all assms) (simp_all add: assms)
  show "ends (at no_panic) (handleTextTouch W parts c)"
    unfolding handleTextTouch_def by (intro ends_all assms) (simp_all add: assms)
  show "ends (at no_panic) (handleTextFlushAll W parts c)"
    unfolding handleTextFlushAll_def by (intro ends_all ends_flush assms) (simp_all add: assms)
  show "ends (at no_panic) (handleTextStats W c)"
    using agree_Stats[of W "length (input_left (rd c))" c c] assms
    by (auto simp: agree_def rel_def ends_def handleTextStats_def finish_def Let_def split: option.splits prod.splits)
qed

lemma panics_Storage:
  assumes "\<not> length parts < 5" and "\<not> isl (ParseUint (parts ! 2) 32)" and "snd (ParseInt (parts ! 3)) = None"
    and "snd (Atoi (parts ! 4)) = None" and "\<not> make_ok W (fst (Atoi (parts ! 4)))"
  shows "handleTextStorage W parts oper c = Some (c, Panicked)" "handleTextCas W parts c = Some (c, Panicked)"
  using assms by (auto simp: handleTextStorage_def handleTextCas_def split: prod.splits)

lemma panics_AppendPrepend:
  assumes "\<not> length parts < 5" and "snd (Atoi (parts ! 4)) = None" and "\<not> make_ok W (fst (Atoi (parts ! 4)))"
  shows "handleTextAppendPrepend W parts pre c = Some (c, Panicked)"
  using assms by (auto simp: handleTextAppendPrepend_def split: prod.splits)

lemma no_panic_command:
  assumes w: "world_ok W" and c: "conn_ok c" and b: "\<forall>n. block_size parts = Some n \<longrightarrow> make_ok W n"
  shows "ends (at no_panic) (text_command W parts c)"
proof -
  note no_panic = no_panic_Storage[OF w c] no_panic_Cas[OF w c] no_panic_AppendPrepend[OF w c] no_panic_others[OF w c]
  show ?thesis
    unfolding text_command_def Let_def
    by (intro ends_if no_panic ends_finish ends_Some c)
      (use b in \<open>auto simp: block_size_def Let_def split: if_splits\<close>)
qed

text \<open>
  C27. A text command panics, and so ends the whole server, exactly when its line is a well-formed
  storage line and the number of bytes it announces is negative or more than can be allocated;
  every other command returns, whatever the line.
\<close>

theorem text_command_panics:
  assumes "world_ok W" and "conn_ok c"
  shows "\<exists>d out. text_command W parts c = Some (d, out) \<and>
    (out = Panicked) = (\<exists>n. block_size parts = Some n \<and> \<not> make_ok W n)"
proof (cases "\<exists>n. block_size parts = Some n \<and> \<not> make_ok W n")
  case True
  then have "text_command W parts c = Some (c, Panicked)"
    by (auto simp: block_size_def text_command_def Let_def panics_Storage panics_AppendPrepend split: if_splits)
  with True show ?thesis by simp
next
  case False
  with no_panic_command[OF assms, of parts] show ?thesis by (auto simp: ends_def at_def no_panic_def)
qed

theorem text_command_panics_witness:
  "\<exists>d. text_command quiet_world [''append'', ''k'', ''0'', ''0'', ''-1''] (client []) = Some (d, Panicked)"
proof -
  have b: "block_size [''append'', ''k'', ''0'', ''0'', ''-1''] = Some (- 1)" by code_simp
  have "\<not> make_ok quiet_world (- 1)" by (simp add: make_ok_def)
  with b text_command_panics[OF client_ok(2,3), of "[''append'', ''k'', ''0'', ''0'', ''-1'']" "[]"]
  show ?thesis by auto
qed

section \<open>Staying in step with the client\<close>

definition left :: "bytes \<Rightarrow> bytes \<Rightarrow> outcome \<Rightarrow> bool" where
  "left rest s out \<longleftrightarrow> s = rest \<and> out = Done"

text \<open>
  C25. A well-formed storage line uses up exactly its data block and the line end after it,
  whether the command stores, refuses or finds the value too large: the bytes after it are the
  next command.
\<close>

theorem text_stays_in_step:
  assumes "world_ok W" and "conn_ok c" and n: "block_size parts = Some (int (length d))"
    and a: "int (length d) \<le> max_alloc W" and i: "input_left (rd c) = d @ CRLF @ rest"
  shows "\<exists>c'. text_command W parts c = Some (c', Done) \<and> input_left (rd c') = rest \<and> conn_ok c'"
proof -
  have e: "skip_eol (drop (length d) (input_left (rd c))) = rest" by (simp add: i skip_eol_CRLF)
  have r: "length d \<le> length (input_left (rd c))" by (simp add: i)
  have t: "tl (tl (drop (length d) (input_left (rd c)))) = rest" by (simp add: i CRLF_def)
  note [simp] = at_def left_def
  have s: "ends (at (left rest)) (handleTextStorage W parts oper c)"
    if "\<not> length parts < 5" "snd (Atoi (parts ! 4)) = None" "fst (Atoi (parts ! 4)) = int (length d)"
      "\<not> isl (ParseUint (parts ! 2) 32)" "snd (ParseInt (parts ! 3)) = None" for oper
    unfolding handleTextStorage_def Let_def
    by (intro ends_all assms(1,2)) (use that e r t a assms(2) in \<open>auto simp: make_ok_def\<close>)
  have k: "ends (at (left rest)) (handleTextCas W parts c)"
    if "\<not> length parts < 5" "snd (Atoi (parts ! 4)) = None" "fst (Atoi (parts ! 4)) = int (length d)"
      "\<not> isl (ParseUint (parts ! 2) 32)" "snd (ParseInt (parts ! 3)) = None"
    unfolding handleTextCas_def
    by (intro ends_all assms(1,2)) (use that e r t a assms(2) in \<open>auto simp: make_ok_def\<close>)
  have p: "ends (at (left rest)) (handleTextAppendPrepend W parts pre c)"
    if "\<not> length parts < 5" "snd (Atoi (parts ! 4)) = None" "fst (Atoi (parts ! 4)) = int (length d)" for pre
    unfolding handleTextAppendPrepend_def
    by (intro ends_all assms(1,2)) (use that e r t a assms(2) in \<open>auto simp: make_ok_def\<close>)
  have "ends (at (left rest)) (text_command W parts c)"
    unfolding text_command_def Let_def
    by (use n in \<open>auto simp: block_size_def Let_def s k p split: if_splits\<close>)
  then show ?thesis by (auto simp: ends_def)
qed

theorem text_stays_in_step_witness:
  "\<exists>c'. text_command quiet_world [''add'', ''k'', ''7'', ''60'', ''2''] (client [''h'', ''i'' @ CRLF @ ''get k'']) =
     Some (c', Done) \<and> input_left (rd c') = ''get k''"
proof -
  have b: "block_size [''add'', ''k'', ''7'', ''60'', ''2''] = Some (int (length ''hi''))" by code_simp
  have a: "int (length ''hi'') \<le> max_alloc quiet_world" by (simp add: quiet_world_def)
  have i: "input_left (rd (client [''h'', ''i'' @ CRLF @ ''get k''])) = ''hi'' @ CRLF @ ''get k''"
    by (simp add: client_def input_left_def)
  from text_stays_in_step[OF client_ok(2,3) b a i] show ?thesis by blast
qed

section \<open>Set, then get\<close>

lemma Storage_block:
  assumes parts: "parts = [cmd, k, f, e, l]" and f: "ParseUint f 32 = Inr fl"
    and e: "ParseInt e = (exptime, None)" and l: "ParseInt l = (int (length d), None)"
    and size: "int (length d) \<le> maxValueSize" "int (length d) \<le> max_alloc W"
    and i: "input_left (rd c) = d @ CRLF @ rest"
    and op: "store_call oper k d (text_ttl (store_now (envs W (clk c))) exptime) (envs W (clk c + 1))
      (others W (clk c + 1) (conn_cache c)) = Some (sc', cas, None)"
  shows "\<exists>r. input_left r = rest \<and> handleTextStorage W parts oper c =
    Some (emit (''STORED'' @ CRLF) (c\<lparr>rd := r, conn_cache := sc', clk := clk c + 2\<rparr>), Done)"
proof -
  obtain v c' where b: "read_block (length d) c = (v, c')" by fastforce
  obtain r where r: "c' = c\<lparr>rd := r\<rparr>" using read_block_spec(3)[of "length d" c] b by auto
  have v: "v = Some d" "input_left r = rest"
    using read_block_spec(1,2)[of "length d" c] b r i by (simp_all add: skip_eol_CRLF)
  show ?thesis
    using v size f e l op
    by (intro exI[of _ r])
      (simp add: handleTextStorage_def parts Atoi_def make_ok_def b r read_clock_def cache_op_def reply_def
        has_noreply_def finish_def)
qed

lemma Get_hit:
  assumes "Get (envs W (clk c)) k (others W (clk c) (conn_cache c)) = Some (sc', v, cas, flags, None)"
  shows "handleTextGet W [cmd, k] b c =
    finish ''END'' (write_value b k v cas flags (c\<lparr>conn_cache := sc', clk := clk c + 1\<rparr>))"
  using assms by (simp add: handleTextGet_def cache_op_def)

text \<open>The bytes of a value in a response; with its token for \<open>gets\<close>.\<close>

definition value_line :: "bool \<Rightarrow> string \<Rightarrow> bytes \<Rightarrow> uint64 \<Rightarrow> bytes" where
  "value_line withCas k v cas =
    ''VALUE '' @ k @ '' 0 '' @ FormatInt (int (length v)) @
      (if withCas then '' '' @ FormatUint (uint cas) else []) @ CRLF @ v @ CRLF"

lemma FormatInt_0: "FormatInt 0 = ''0''"
  by code_simp

lemma written_value:
  "written (wr (write_value b k v cas 0 c)) = written (wr c) @ value_line b k v cas"
  "rd (write_value b k v cas flags c) = rd c" "conn_cache (write_value b k v cas flags c) = conn_cache c"
  by (simp_all add: write_value_def value_line_def Let_def FormatInt_0)

lemma is_digit_plain: "is_digit ch \<Longrightarrow> plain_char ch"
  by (simp add: is_digit_def plain_char_def octet_def)

lemma plain_ParseUint: "ParseUint s b = Inr n \<Longrightarrow> plain s"
  using parse_digits_all_digits[of "2 ^ b - 1" 0 s n] is_digit_plain
  by (auto simp: ParseUint_def plain_def list_all_iff split: if_splits)

lemma plain_FormatInt: "0 \<le> n \<Longrightarrow> plain (FormatInt n)"
  using FormatUint_digits[of n] is_digit_plain by (auto simp: FormatInt_def plain_def list_all_iff)

lemma upper_words: "ToUpper ''set'' = ''SET''" "ToUpper ''get'' = ''GET''" "ToUpper ''gets'' = ''GETS''"
  "plain ''set''" "plain ''get''" "plain ''gets''" "plain ''0''"
  by code_simp+

lemma text_set:
  assumes q: "calm W" and inv: "conn_ok c" and k: "plain k" and fl: "ParseUint fl 32 = Inr x"
    and size: "int (length d) \<le> maxValueSize" "int (length d) \<le> max_alloc W"
    and i: "input_left (rd c) = ''set '' @ k @ '' '' @ fl @ '' 0 '' @ FormatInt (int (length d)) @ CRLF @ d @ CRLF @ rest"
  shows "\<exists>c' sc cas. handleText W c = handleText W (flush_if_idle c') \<and> conn_ok c' \<and>
    Set (envs W (clk c + 1)) k d 0 (conn_cache c) = Some (conn_cache c', cas, None) \<and>
    input_left (rd c') = rest \<and> written (wr c') = written (wr c) @ ''STORED'' @ CRLF"
proof -
  let ?parts = "[''set'', k, fl, ''0'', FormatInt (int (length d))]"
  have p: "list_all plain ?parts" "?parts \<noteq> []"
    using k plain_ParseUint[OF fl] plain_FormatInt[of "int (length d)"] by (simp_all add: upper_words)
  have "input_left (rd c) = join_fields ?parts @ CRLF @ (d @ CRLF @ rest)" using i by simp
  from handleText_line[OF this p, of W] obtain r where r: "input_left r = d @ CRLF @ rest"
    and h: "handleText W c = do { (c, out) \<leftarrow> text_command W ?parts (c\<lparr>rd := r\<rparr>);
      if out = Done then handleText W (flush_if_idle c) else Some (c, out) }" by auto
  have sc: "sharded_inv (conn_cache c)" using inv by (simp add: conn_ok_def)
  obtain sc cas where set: "Set (envs W (clk c + 1)) k d 0 (conn_cache c) = Some (sc, cas, None)"
    using Set_result[OF sc, of "envs W (clk c + 1)" k d 0] by blast
  have sc': "sharded_inv sc" by (rule total_opD[OF total_Set sc set])
  have "int (length d) < 2 ^ 63" using size(1) by (simp add: maxValueSize_def)
  then have n: "ParseInt (FormatInt (int (length d))) = (int (length d), None)"
    by (intro ParseInt_FormatInt) (simp add: in_int64_def)
  have z: "ParseInt ''0'' = (0, None)" by code_simp
  from Storage_block[of ?parts, OF refl fl z n size, of "c\<lparr>rd := r\<rparr>" rest SET sc cas] r set q
  obtain r' where "input_left r' = rest" and "text_command W ?parts (c\<lparr>rd := r\<rparr>) =
      Some (emit (''STORED'' @ CRLF) (c\<lparr>rd := r', conn_cache := sc, clk := clk c + 2\<rparr>), Done)"
    by (auto simp: text_command_def Let_def upper_words store_call_def text_ttl_def calm_def simp del: ToUpper.simps)
  then show ?thesis using h set sc' by (intro exI conjI) (auto simp: conn_ok_def)
qed

lemma text_get:
  assumes k: "plain k" and i: "input_left (rd c) = (if b then ''gets'' else ''get'') @ '' '' @ k @ CRLF @ rest"
    and g: "Get (envs W (clk c)) k (others W (clk c) (conn_cache c)) = Some (sc, v, cas, 0, None)"
  shows "\<exists>c'. handleText W c = handleText W (flush_if_idle c') \<and> conn_cache c' = sc \<and> input_left (rd c') = rest \<and>
    written (wr c') = written (wr c) @ value_line b k v cas @ ''END'' @ CRLF"
proof -
  let ?parts = "[if b then ''gets'' else ''get'', k]"
  have p: "list_all plain ?parts" "?parts \<noteq> []" using k by (simp_all add: upper_words)
  have "input_left (rd c) = join_fields ?parts @ CRLF @ rest" using i by simp
  from handleText_line[OF this p, of W] obtain r where r: "input_left r = rest"
    and h: "handleText W c = do { (c, out) \<leftarrow> text_command W ?parts (c\<lparr>rd := r\<rparr>);
      if out = Done then handleText W (flush_if_idle c) else Some (c, out) }" by auto
  have "text_command W ?parts (c\<lparr>rd := r\<rparr>) =
      finish ''END'' (write_value b k v cas 0 (c\<lparr>rd := r, conn_cache := sc, clk := clk c + 1\<rparr>))"
    using Get_hit[of W "c\<lparr>rd := r\<rparr>" k sc v cas 0 _ b] g
    by (cases b) (simp_all add: text_command_def Let_def upper_words del: ToUpper.simps)
  then show ?thesis
    using h r by (intro exI conjI) (auto simp: finish_def written_value)
qed

text \<open>The last command of a stream: everything is flushed and the connection closes.\<close>

lemma handleText_last:
  assumes "handleText W c = handleText W (flush_if_idle c1)" and "input_left (rd c1) = []"
  shows "\<exists>c'. handleText W c = Some (c', Closed) \<and> wbuf (wr c') = [] \<and> sent (wr c') = written (wr c1)"
  using handleText_end[of "flush_if_idle c1" W] flush_idle_end[OF assms(2)] assms by auto

text \<open>
  C6. A value set by a text command comes back byte for byte, whatever bytes it holds, up to one
  megabyte: a set of a key and a get of it in one stream, cut into packets in any way, are
  answered with \<open>STORED\<close> and the value, all of it flushed; the flags that were set come back as zero.
\<close>

theorem text_set_get_roundtrip:
  assumes q: "calm W" and inv: "conn_ok c" and k: "plain k" and fl: "ParseUint fl 32 = Inr x"
    and size: "int (length d) \<le> maxValueSize" "int (length d) \<le> max_alloc W"
    and ttl: "DefaultTTL (workers (conn_cache c) ! workerFor (conn_cache c) k) \<le> 0"
    and i: "input_left (rd c) = ''set '' @ k @ '' '' @ fl @ '' 0 '' @ FormatInt (int (length d)) @ CRLF @ d @ CRLF @
      ''get '' @ k @ CRLF"
  shows "\<exists>c'. handleText W c = Some (c', Closed) \<and> wbuf (wr c') = [] \<and>
    sent (wr c') = written (wr c) @ ''STORED'' @ CRLF @
      ''VALUE '' @ k @ '' 0 '' @ FormatInt (int (length d)) @ CRLF @ d @ CRLF @ ''END'' @ CRLF"
proof -
  obtain c1 cas where 1: "handleText W c = handleText W (flush_if_idle c1)" "conn_ok c1"
    "Set (envs W (clk c + 1)) k d 0 (conn_cache c) = Some (conn_cache c1, cas, None)"
    "input_left (rd c1) = ''get '' @ k @ CRLF @ []" "written (wr c1) = written (wr c) @ ''STORED'' @ CRLF"
    using text_set[OF q inv k fl size, of "''get '' @ k @ CRLF"] i by auto
  let ?c = "flush_if_idle c1"
  obtain sc where "Get (envs W (clk ?c)) k (others W (clk ?c) (conn_cache ?c)) = Some (sc, d, cas, 0, None)"
    using Set_then_Get[OF _ _ 1(3), of "envs W (clk c1)"] ttl inv q by (auto simp: conn_ok_def calm_def effective_ttl_def)
  from text_get[OF k _ this, of False "[]"] 1(4) obtain c2 where 2: "handleText W ?c = handleText W (flush_if_idle c2)"
    "input_left (rd c2) = []" "written (wr c2) = written (wr c1) @ value_line False k d cas @ ''END'' @ CRLF"
    by auto
  from handleText_last[OF 2(1,2)] 1(1,5) 2(3) show ?thesis by (auto simp: value_line_def)
qed

theorem text_set_get_roundtrip_witness:
  "\<exists>c'. handleText quiet_world (client [''set k 5 0 3'' @ CRLF, ''a'' @ CRLF @ CRLF @ ''g'', ''et k'' @ CRLF]) = Some (c', Closed) \<and>
     sent (wr c') = ''STORED'' @ CRLF @ ''VALUE k 0 3'' @ CRLF @ ''a'' @ CRLF @ CRLF @ ''END'' @ CRLF"
proof -
  let ?c = "client [''set k 5 0 3'' @ CRLF, ''a'' @ CRLF @ CRLF @ ''g'', ''et k'' @ CRLF]"
  have n: "FormatInt (int (length (''a'' @ CRLF))) = ''3''" by code_simp
  have k: "plain ''k''" and f: "ParseUint ''5'' 32 = Inr 5" by code_simp+
  have s: "int (length (''a'' @ CRLF)) \<le> maxValueSize" "int (length (''a'' @ CRLF)) \<le> max_alloc quiet_world"
    by (simp_all add: quiet_world_def CRLF_def maxValueSize_def)
  have t: "DefaultTTL (workers two_shards ! workerFor two_shards ''k'') \<le> 0" by code_simp
  have i: "input_left (rd ?c) = ''set '' @ ''k'' @ '' '' @ ''5'' @ '' 0 '' @ FormatInt (int (length (''a'' @ CRLF))) @ CRLF @
      (''a'' @ CRLF) @ CRLF @ ''get '' @ ''k'' @ CRLF"
    unfolding n by (simp add: client_def input_left_def)
  have w: "written (wr ?c) = []" by (simp add: client_def written_def)
  have "DefaultTTL (workers (conn_cache ?c) ! workerFor (conn_cache ?c) ''k'') \<le> 0" using t by (simp add: client_def)
  from text_set_get_roundtrip[OF client_ok(1,3) k f s this i] show ?thesis unfolding n w by auto
qed

section \<open>Responses left unsent\<close>

lemma ReadString_buffered:
  "LF \<notin> set l \<Longrightarrow> rbuf r = l @ LF # s \<Longrightarrow> ReadString r = (Some (l @ [LF]), r\<lparr>rbuf := s\<rparr>)"
  using after_line_first[of l s] by (cases "chunks r") (simp_all add: ReadString_def)

lemma handleText_buffered:
  assumes i: "rbuf (rd c) = join_fields parts @ CRLF @ rest" and p: "list_all plain parts" "parts \<noteq> []"
  shows "handleText W c =
    do { (c, out) \<leftarrow> text_command W parts (c\<lparr>rd := (rd c)\<lparr>rbuf := rest\<rparr>\<rparr>);
         if out = Done then handleText W (flush_if_idle c) else Some (c, out) }"
proof -
  let ?l = "join_fields parts"
  have "LF \<notin> set (?l @ [CR])" using join_fields_no_newline[OF p(1)] by simp
  from ReadString_buffered[OF this, of "rd c" rest] i
  have l: "ReadString (rd c) = (Some (?l @ [CR, LF]), (rd c)\<lparr>rbuf := rest\<rparr>)" by (simp add: CRLF_def)
  have t: "TrimSpace (?l @ [CR, LF]) = ?l" and ne: "?l \<noteq> []"
    using TrimSpace_line join_fields_ends[OF p] by auto
  show ?thesis by (simp add: handleText.simps[of W c] l Let_def t ne Fields_join[OF p(1)] p(2))
qed

lemma TrimSpace_blank: "TrimSpace CRLF = []"
  by code_simp

lemma handleText_blank:
  assumes "rbuf (rd c) = CRLF @ rest"
  shows "handleText W c = handleText W (c\<lparr>rd := (rd c)\<lparr>rbuf := rest\<rparr>\<rparr>)"
proof -
  have l: "ReadString (rd c) = (Some CRLF, (rd c)\<lparr>rbuf := rest\<rparr>)"
    using ReadString_buffered[of "[CR]" "rd c" rest] assms by (simp add: CRLF_def)
  show ?thesis by (simp add: handleText.simps[of W c] l Let_def TrimSpace_blank)
qed

text \<open>
  C35. A response is not always sent. When a command arrives in one packet with a \<open>quit\<close> behind it,
  the connection closes with the writer as the command left it, its response still in the buffer;
  with a blank line behind it, the server goes on to wait for input, nothing of which is buffered,
  with the response still in the buffer.
\<close>

theorem response_left_unsent:
  assumes p: "list_all plain parts" "parts \<noteq> []"
    and cmd: "text_command W parts (c\<lparr>rd := \<lparr>rbuf = rest, chunks = cs\<rparr>\<rparr>) = Some (d, Done)"
    and unread: "rd d = \<lparr>rbuf = rest, chunks = cs\<rparr>"
    and c: "rd c = \<lparr>rbuf = join_fields parts @ CRLF @ rest, chunks = cs\<rparr>"
  shows "(rest = ''quit'' @ CRLF \<longrightarrow>
      (\<exists>c'. handleText W c = Some (c', Closed) \<and> wr c' = wr d \<and> conn_cache c' = conn_cache d)) \<and>
    (rest = CRLF \<longrightarrow> handleText W c = handleText W (d\<lparr>rd := \<lparr>rbuf = [], chunks = cs\<rparr>\<rparr>))"
proof -
  have h: "handleText W c = handleText W (flush_if_idle d)"
    using handleText_buffered[OF _ p, of c rest W] c cmd by simp
  have q: "rest \<noteq> [] \<Longrightarrow> flush_if_idle d = d" by (simp add: flush_if_idle_def Buffered_def unread)
  have w: "list_all plain [''quit'']" "ToUpper ''quit'' = ''QUIT''" by code_simp+
  have "text_command W [''quit''] e = Some (e, Closed)" for e
    by (simp add: text_command_def w(2) del: ToUpper.simps)
  then have "rest = ''quit'' @ CRLF \<Longrightarrow> handleText W d = Some (d\<lparr>rd := \<lparr>rbuf = [], chunks = cs\<rparr>\<rparr>, Closed)"
    using handleText_buffered[OF _ w(1), of d "[]" W] unread by simp
  moreover have "rest = CRLF \<Longrightarrow> handleText W d = handleText W (d\<lparr>rd := \<lparr>rbuf = [], chunks = cs\<rparr>\<rparr>)"
    using handleText_blank[of d "[]" W] unread by simp
  ultimately show ?thesis using h q by (auto simp: CRLF_def)
qed

theorem response_left_unsent_witness:
  "\<exists>c'. handleText quiet_world ((client [])\<lparr>rd := \<lparr>rbuf = ''version'' @ CRLF @ ''quit'' @ CRLF, chunks = []\<rparr>\<rparr>) =
     Some (c', Closed) \<and> sent (wr c') = [] \<and> wbuf (wr c') = ''VERSION 1.0.0'' @ CRLF"
proof -
  let ?c = "(client [])\<lparr>rd := \<lparr>rbuf = ''version'' @ CRLF @ ''quit'' @ CRLF, chunks = []\<rparr>\<rparr>"
  let ?d = "emit (''VERSION 1.0.0'' @ CRLF) ((client [])\<lparr>rd := \<lparr>rbuf = ''quit'' @ CRLF, chunks = []\<rparr>\<rparr>)"
  have v: "list_all plain [''version'']" "ToUpper ''version'' = ''VERSION''" by code_simp+
  have "text_command quiet_world [''version''] (?c\<lparr>rd := \<lparr>rbuf = ''quit'' @ CRLF, chunks = []\<rparr>\<rparr>) = Some (?d, Done)"
    by (simp add: text_command_def v(2) finish_def del: ToUpper.simps)
  from response_left_unsent[OF v(1) _ this] obtain c' where "handleText quiet_world ?c = Some (c', Closed)" "wr c' = wr ?d"
    by auto
  moreover have "wr ?d = \<lparr>wbuf = ''VERSION 1.0.0'' @ CRLF, sent = []\<rparr>"
    by (simp add: client_def emit_def CRLF_def bufsize_def WriteString.simps[of "_ # _"])
  ultimately show ?thesis by auto
qed

end
