(* ===== verification/GoBinary.thy ===== *)
theory GoBinary
  imports Prelude
begin

text \<open>
  Big-endian numbers in byte slices, Go's \<^verbatim>\<open>encoding/binary\<close>: \<open>BigEndian.Uint16\<close>, \<open>Uint32\<close> and
  \<open>Uint64\<close> read the first bytes of a slice, \<open>PutUint16\<close>, \<open>PutUint32\<close> and \<open>PutUint64\<close> write them.
\<close>

fun be_value :: "int \<Rightarrow> bytes \<Rightarrow> int" where
  "be_value a [] = a"
| "be_value a (c # cs) = be_value (a * 256 + of_char c) cs"

fun be_bytes :: "nat \<Rightarrow> int \<Rightarrow> bytes" where
  "be_bytes 0 v = []"
| "be_bytes (Suc n) v = be_bytes n (v div 256) @ [char_of (v mod 256)]"

definition BE_Uint16 :: "bytes \<Rightarrow> 16 word" where "BE_Uint16 b = of_int (be_value 0 (take 2 b))"
definition BE_Uint32 :: "bytes \<Rightarrow> 32 word" where "BE_Uint32 b = of_int (be_value 0 (take 4 b))"
definition BE_Uint64 :: "bytes \<Rightarrow> 64 word" where "BE_Uint64 b = of_int (be_value 0 (take 8 b))"

definition BE_PutUint16 :: "16 word \<Rightarrow> bytes" where "BE_PutUint16 v = be_bytes 2 (uint v)"
definition BE_PutUint32 :: "32 word \<Rightarrow> bytes" where "BE_PutUint32 v = be_bytes 4 (uint v)"
definition BE_PutUint64 :: "64 word \<Rightarrow> bytes" where "BE_PutUint64 v = be_bytes 8 (uint v)"

section \<open>Round trip\<close>

lemma length_be_bytes [simp]: "length (be_bytes n v) = n"
  by (induction n arbitrary: v) simp_all

lemma length_BE_Put [simp]:
  "length (BE_PutUint16 v) = 2" "length (BE_PutUint32 w) = 4" "length (BE_PutUint64 x) = 8"
  by (simp_all add: BE_PutUint16_def BE_PutUint32_def BE_PutUint64_def)

lemma be_value_append: "be_value a (xs @ ys) = be_value (be_value a xs) ys"
  by (induction xs arbitrary: a) simp_all

lemma be_value_bytes: "0 \<le> v \<Longrightarrow> be_value 0 (be_bytes n v) = v mod 256 ^ n"
proof (induction n arbitrary: v)
  case (Suc n)
  then have "be_value 0 (be_bytes n (v div 256)) = v div 256 mod 256 ^ n" by simp
  then have "be_value 0 (be_bytes (Suc n) v) = (v div 256 mod 256 ^ n) * 256 + v mod 256"
    by (simp add: be_value_append)
  also have "\<dots> = v mod (256 * 256 ^ n)" by (simp add: mod_mult2_eq zmod_zmult2_eq)
  finally show ?case by simp
qed simp

lemma BE_Uint16_Put [simp]: "BE_Uint16 (BE_PutUint16 v @ s) = v"
proof -
  have "uint v mod 256 ^ 2 = uint v" using uint_lt2p[of v] by (intro mod_pos_pos_trivial) simp_all
  then show ?thesis by (simp add: BE_Uint16_def BE_PutUint16_def be_value_bytes)
qed

lemma BE_Uint32_Put [simp]: "BE_Uint32 (BE_PutUint32 v @ s) = v"
proof -
  have "uint v mod 256 ^ 4 = uint v" using uint_lt2p[of v] by (intro mod_pos_pos_trivial) simp_all
  then show ?thesis by (simp add: BE_Uint32_def BE_PutUint32_def be_value_bytes)
qed

lemma BE_Uint64_Put [simp]: "BE_Uint64 (BE_PutUint64 v @ s) = v"
proof -
  have "uint v mod 256 ^ 8 = uint v" using uint_lt2p[of v] by (intro mod_pos_pos_trivial) simp_all
  then show ?thesis by (simp add: BE_Uint64_def BE_PutUint64_def be_value_bytes)
qed

lemma BE_Uint_Put_all [simp]: "BE_Uint16 (BE_PutUint16 v) = v" "BE_Uint32 (BE_PutUint32 w) = w" "BE_Uint64 (BE_PutUint64 x) = x"
  using BE_Uint16_Put[of v "[]"] BE_Uint32_Put[of w "[]"] BE_Uint64_Put[of x "[]"] by simp_all

end
