(* ===== verification/BinaryProto.thy ===== *)
theory BinaryProto
  imports Connection GoBinary
begin

text \<open>
  The binary protocol, \<^verbatim>\<open>pkg/server/binary.go\<close>: the request header, one definition per handler,
  \<open>sendBinaryResponse\<close> and the connection's loop \<open>handleBinary\<close>, on the same connection state as
  the text protocol. The body of a request is a value here; theory \<open>BufferPool\<close> has the
  pooled buffers and shows that they make no difference.
\<close>

type_synonym uint8 = "8 word"
type_synonym uint16 = "16 word"

definition reqMagic :: uint8 where "reqMagic = 0x80"
definition resMagic :: uint8 where "resMagic = 0x81"

definition opGet :: uint8 where "opGet = 0x00"
definition opSet :: uint8 where "opSet = 0x01"
definition opAdd :: uint8 where "opAdd = 0x02"
definition opReplace :: uint8 where "opReplace = 0x03"
definition opDelete :: uint8 where "opDelete = 0x04"
definition opIncrement :: uint8 where "opIncrement = 0x05"
definition opDecrement :: uint8 where "opDecrement = 0x06"
definition opQuit :: uint8 where "opQuit = 0x07"
definition opFlush :: uint8 where "opFlush = 0x08"
definition opGetQ :: uint8 where "opGetQ = 0x09"
definition opNoop :: uint8 where "opNoop = 0x0a"
definition opVersion :: uint8 where "opVersion = 0x0b"
definition opGetK :: uint8 where "opGetK = 0x0c"
definition opGetKQ :: uint8 where "opGetKQ = 0x0d"
definition opAppend :: uint8 where "opAppend = 0x0e"
definition opPrepend :: uint8 where "opPrepend = 0x0f"
definition opStat :: uint8 where "opStat = 0x10"
definition opTouch :: uint8 where "opTouch = 0x1c"
definition opGAT :: uint8 where "opGAT = 0x1d"
definition opGATK :: uint8 where "opGATK = 0x1e"

definition resSuccess :: uint16 where "resSuccess = 0x0000"
definition resKeyNotFound :: uint16 where "resKeyNotFound = 0x0001"
definition resKeyExists :: uint16 where "resKeyExists = 0x0002"
definition resValueTooLarge :: uint16 where "resValueTooLarge = 0x0003"
definition resInvalidArgs :: uint16 where "resInvalidArgs = 0x0004"
definition resItemNotStored :: uint16 where "resItemNotStored = 0x0005"
definition resUnknownCmd :: uint16 where "resUnknownCmd = 0x0081"
definition resOOM :: uint16 where "resOOM = 0x0082"

record binaryHeader =
  Magic :: uint8
  Opcode :: uint8
  KeyLen :: uint16
  ExtraLen :: uint8
  DataType :: uint8
  VBucket :: uint16
  BodyLen :: uint32
  Opaque :: uint32
  CAS :: uint64

text \<open>\<open>s[lo:hi]\<close>, in range.\<close>

definition cut :: "nat \<Rightarrow> nat \<Rightarrow> bytes \<Rightarrow> bytes" where
  "cut lo hi s = take (hi - lo) (drop lo s)"

definition parse_header :: "bytes \<Rightarrow> binaryHeader" where
  "parse_header h =
    \<lparr>Magic = of_char (h ! 0), Opcode = of_char (h ! 1), KeyLen = BE_Uint16 (cut 2 4 h),
     ExtraLen = of_char (h ! 4), DataType = of_char (h ! 5), VBucket = BE_Uint16 (cut 6 8 h),
     BodyLen = BE_Uint32 (cut 8 12 h), Opaque = BE_Uint32 (cut 12 16 h),
     CAS = BE_Uint64 (cut 16 24 h)\<rparr>"

section \<open>Responses\<close>

definition byte_char :: "uint8 \<Rightarrow> char" where
  "byte_char b = char_of (uint b)"

definition response_header :: "binaryHeader \<Rightarrow> uint16 \<Rightarrow> bytes \<Rightarrow> bytes \<Rightarrow> bytes \<Rightarrow> uint64 \<Rightarrow> bytes" where
  "response_header req status extras key val cas =
    [byte_char resMagic, byte_char (Opcode req)] @ BE_PutUint16 (of_nat (length key)) @
    [byte_char (of_nat (length extras)), byte_char 0] @ BE_PutUint16 status @
    BE_PutUint32 (of_nat (length extras + length key + length val)) @
    BE_PutUint32 (Opaque req) @ BE_PutUint64 cas"

definition sendBinaryResponse ::
  "binaryHeader \<Rightarrow> uint16 \<Rightarrow> bytes \<Rightarrow> bytes \<Rightarrow> bytes \<Rightarrow> uint64 \<Rightarrow> Conn \<Rightarrow> Conn" where
  "sendBinaryResponse req status extras key val cas c =
    (let c = emit_bytes (response_header req status extras key val cas) c;
         c = (if length extras > 0 then emit_bytes extras c else c);
         c = (if length key > 0 then emit_bytes key c else c)
     in if length val > 0 then emit_bytes val c else c)"

definition respond ::
  "binaryHeader \<Rightarrow> uint16 \<Rightarrow> bytes \<Rightarrow> bytes \<Rightarrow> bytes \<Rightarrow> uint64 \<Rightarrow> Conn \<Rightarrow> handled" where
  "respond req status extras key val cas c = Some (sendBinaryResponse req status extras key val cas c, Done)"

abbreviation status_only :: "binaryHeader \<Rightarrow> uint16 \<Rightarrow> Conn \<Rightarrow> handled" where
  "status_only req status c \<equiv> respond req status [] [] [] 0 c"

section \<open>Handlers\<close>

text \<open>The time to live for an expiry field, the same lines in every handler that has one.\<close>

definition binary_ttl :: "int \<Rightarrow> uint32 \<Rightarrow> int" where
  "binary_ttl now expiry =
    (if expiry > 0 then
       (if expiry > 2592000 then Time_Until now (Time_Unix (uint expiry)) else uint expiry * Second)
     else 0)"

text \<open>
  The handlers compare the cache's errors with two errors of package \<^verbatim>\<open>os\<close>, which are different
  values.
\<close>

datatype go_error = CacheError cache_error | os_ErrExist | os_ErrNotExist

definition handleBinaryStorage ::
  "World \<Rightarrow> binaryHeader \<Rightarrow> bytes \<Rightarrow> string \<Rightarrow> bytes \<Rightarrow> store_op \<Rightarrow> Conn \<Rightarrow> handled" where
  "handleBinaryStorage W req extras key val oper c =
    (if length extras \<noteq> 8 then status_only req resInvalidArgs c
     else case read_clock W c of (c, now) \<Rightarrow>
       (let ttl = binary_ttl now (BE_Uint32 (cut 4 8 extras)) in do {
         (c, newCas, err) \<leftarrow> cache_op W (\<lambda>en. if CAS req > 0 then CompareAndSwap en key val ttl (CAS req)
           else store_call oper key val ttl en) c;
         case map_option CacheError err of
           None \<Rightarrow> respond req resSuccess [] [] [] newCas c
         | Some e \<Rightarrow>
             if e = CacheError ErrValueTooLarge then status_only req resValueTooLarge c
             else if e = os_ErrExist then status_only req resKeyExists c
             else if e = os_ErrNotExist then status_only req resKeyNotFound c
             else status_only req resItemNotStored c
       }))"

definition flag_extras :: "int \<Rightarrow> bytes" where
  "flag_extras flags = [byte_char 0, byte_char 0, byte_char 0, byte_char (of_int flags)]"

definition handleBinaryGet :: "World \<Rightarrow> binaryHeader \<Rightarrow> string \<Rightarrow> bool \<Rightarrow> Conn \<Rightarrow> handled" where
  "handleBinaryGet W req key quiet c = do {
     (c, val, cas, flags, err) \<leftarrow> cache_op W (\<lambda>en. Get en key) c;
     if err \<noteq> None then (if quiet then Some (c, Done) else status_only req resKeyNotFound c)
     else respond req resSuccess (flag_extras flags) [] val cas c
   }"

definition handleBinaryGetK :: "World \<Rightarrow> binaryHeader \<Rightarrow> string \<Rightarrow> bool \<Rightarrow> Conn \<Rightarrow> handled" where
  "handleBinaryGetK W req key quiet c = do {
     (c, val, cas, flags, err) \<leftarrow> cache_op W (\<lambda>en. Get en key) c;
     if err \<noteq> None then (if quiet then Some (c, Done) else status_only req resKeyNotFound c)
     else respond req resSuccess (flag_extras flags) key val cas c
   }"

definition handleBinaryDelete :: "World \<Rightarrow> binaryHeader \<Rightarrow> string \<Rightarrow> Conn \<Rightarrow> handled" where
  "handleBinaryDelete W req key c = do {
     (c, err) \<leftarrow> cache_op W (\<lambda>en. Delete en key) c;
     if err = None then status_only req resSuccess c else status_only req resKeyNotFound c
   }"

definition handleBinaryIncrDecr ::
  "World \<Rightarrow> binaryHeader \<Rightarrow> bytes \<Rightarrow> string \<Rightarrow> bool \<Rightarrow> Conn \<Rightarrow> handled" where
  "handleBinaryIncrDecr W req extras key incr c =
    (if length extras < 20 then status_only req resInvalidArgs c
     else let d = BE_Uint64 (cut 0 8 extras); initial = BE_Uint64 (cut 8 16 extras);
              expiry = BE_Uint32 (cut 16 20 extras) in do {
       (c, newVal, cas, err) \<leftarrow> cache_op W (\<lambda>en. if incr then Increment en key d else Decrement en key d) c;
       (let err = map_option CacheError err in
        if err = Some os_ErrNotExist then
          (if expiry = 0xFFFFFFFF then status_only req resKeyNotFound c
           else case read_clock W c of (c, now) \<Rightarrow> do {
             (c, cas, err) \<leftarrow> cache_op W (\<lambda>en. Set en key (FormatUint (uint initial)) (binary_ttl now expiry)) c;
             if err \<noteq> None then status_only req resItemNotStored c
             else respond req resSuccess [] [] (BE_PutUint64 initial) cas c
           })
        else if err \<noteq> None then status_only req resInvalidArgs c
        else respond req resSuccess [] [] (BE_PutUint64 newVal) cas c)
     })"

definition handleBinaryFlush :: "World \<Rightarrow> binaryHeader \<Rightarrow> Conn \<Rightarrow> handled" where
  "handleBinaryFlush W req c = do {
     c \<leftarrow> cache_flush W c;
     status_only req resSuccess c
   }"

definition handleBinaryAppendPrepend ::
  "World \<Rightarrow> binaryHeader \<Rightarrow> string \<Rightarrow> bytes \<Rightarrow> bool \<Rightarrow> Conn \<Rightarrow> handled" where
  "handleBinaryAppendPrepend W req key val isAppend c =
    (if ExtraLen req \<noteq> 0 then status_only req resInvalidArgs c
     else do {
       (c, cas, err) \<leftarrow> cache_op W (\<lambda>en. if isAppend then Append en key val else Prepend en key val) c;
       case map_option CacheError err of
         None \<Rightarrow> respond req resSuccess [] [] [] cas c
       | Some e \<Rightarrow>
           if e = CacheError ErrValueTooLarge then status_only req resValueTooLarge c
           else if e = os_ErrNotExist then status_only req resItemNotStored c
           else status_only req resItemNotStored c
     })"

definition handleBinaryVersion :: "binaryHeader \<Rightarrow> Conn \<Rightarrow> handled" where
  "handleBinaryVersion req c = respond req resSuccess [] [] ''1.0.0'' 0 c"

definition handleBinaryStats :: "World \<Rightarrow> binaryHeader \<Rightarrow> Conn \<Rightarrow> handled" where
  "handleBinaryStats W req c = do {
     (c, stats) \<leftarrow> cache_stats W c;
     status_only req resSuccess (fold (\<lambda>(k, v). sendBinaryResponse req resSuccess [] k v 0) stats c)
   }"

definition handleBinaryTouch :: "World \<Rightarrow> binaryHeader \<Rightarrow> bytes \<Rightarrow> string \<Rightarrow> Conn \<Rightarrow> handled" where
  "handleBinaryTouch W req extras key c =
    (if length extras \<noteq> 4 then status_only req resInvalidArgs c
     else case read_clock W c of (c, now) \<Rightarrow> do {
       (c, cas, err) \<leftarrow> cache_op W (\<lambda>en. Touch en key (binary_ttl now (BE_Uint32 (cut 0 4 extras)))) c;
       if err \<noteq> None then status_only req resKeyNotFound c
       else respond req resSuccess [] [] [] cas c
     })"

definition handleBinaryGATCommon ::
  "World \<Rightarrow> binaryHeader \<Rightarrow> bytes \<Rightarrow> string \<Rightarrow> bool \<Rightarrow> Conn \<Rightarrow> handled" where
  "handleBinaryGATCommon W req extras key returnKey c =
    (if length extras \<noteq> 4 then status_only req resInvalidArgs c
     else case read_clock W c of (c, now) \<Rightarrow> do {
       (c, cas, err) \<leftarrow> cache_op W (\<lambda>en. Touch en key (binary_ttl now (BE_Uint32 (cut 0 4 extras)))) c;
       if err \<noteq> None then status_only req resKeyNotFound c
       else do {
         (c, val, _, _, err) \<leftarrow> cache_op W (\<lambda>en. Get en key) c;
         if err \<noteq> None then status_only req resKeyNotFound c
         else respond req resSuccess (replicate 4 (byte_char 0)) (if returnKey then key else []) val cas c
       }
     })"

definition handleBinaryGAT :: "World \<Rightarrow> binaryHeader \<Rightarrow> bytes \<Rightarrow> string \<Rightarrow> Conn \<Rightarrow> handled" where
  "handleBinaryGAT W req extras key c = handleBinaryGATCommon W req extras key False c"

definition handleBinaryGATK :: "World \<Rightarrow> binaryHeader \<Rightarrow> bytes \<Rightarrow> string \<Rightarrow> Conn \<Rightarrow> handled" where
  "handleBinaryGATK W req extras key c = handleBinaryGATCommon W req extras key True c"

section \<open>The loop\<close>

definition binary_command ::
  "World \<Rightarrow> binaryHeader \<Rightarrow> bytes \<Rightarrow> string \<Rightarrow> bytes \<Rightarrow> Conn \<Rightarrow> handled" where
  "binary_command W req extras key val c =
    (let oper = Opcode req
     in if oper = opSet then handleBinaryStorage W req extras key val SET c
        else if oper = opAdd then handleBinaryStorage W req extras key val ADD c
        else if oper = opReplace then handleBinaryStorage W req extras key val REPLACE c
        else if oper = opDelete then handleBinaryDelete W req key c
        else if oper = opIncrement then handleBinaryIncrDecr W req extras key True c
        else if oper = opDecrement then handleBinaryIncrDecr W req extras key False c
        else if oper = opFlush then handleBinaryFlush W req c
        else if oper = opGet then handleBinaryGet W req key False c
        else if oper = opGetQ then handleBinaryGet W req key True c
        else if oper = opGetK then handleBinaryGetK W req key False c
        else if oper = opGetKQ then handleBinaryGetK W req key True c
        else if oper = opVersion then handleBinaryVersion req c
        else if oper = opQuit then Some (c, Closed)
        else if oper = opNoop then status_only req resSuccess c
        else if oper = opAppend then handleBinaryAppendPrepend W req key val True c
        else if oper = opPrepend then handleBinaryAppendPrepend W req key val False c
        else if oper = opStat then handleBinaryStats W req c
        else if oper = opTouch then handleBinaryTouch W req extras key c
        else if oper = opGAT then handleBinaryGAT W req extras key c
        else if oper = opGATK then handleBinaryGATK W req extras key c
        else status_only req resUnknownCmd c)"

text \<open>
  The body is cut into extras, key and value. The cut expressions for the first two are only
  checked against the capacity of the buffer, but that for the value panics when it would start
  after the end of the body, so the first two are in range whenever they are used.
\<close>

definition binary_request :: "World \<Rightarrow> binaryHeader \<Rightarrow> bytes \<Rightarrow> Conn \<Rightarrow> handled" where
  "binary_request W req body c =
    (let e = nat (uint (ExtraLen req)); k = nat (uint (KeyLen req))
     in if e + k > length body then Some (c, Panicked)
        else binary_command W req (cut 0 e body) (cut e (e + k) body) (drop (e + k) body) c)"

partial_function (option) handleBinary :: "World \<Rightarrow> Conn \<Rightarrow> handled" where
  "handleBinary W c =
    (case ReadFull 24 (rd c) of
      (None, r) \<Rightarrow> Some (c\<lparr>rd := r\<rparr>, Closed)
    | (Some headerBuf, r) \<Rightarrow>
        (let c = c\<lparr>rd := r\<rparr>; req = parse_header headerBuf; bodyLen = uint (BodyLen req)
         in if Magic req \<noteq> reqMagic then Some (c, Closed)
            else if bodyLen > 65536 \<and> \<not> make_ok W bodyLen then Some (c, Panicked)
            else (case ReadFull (nat bodyLen) (rd c) of
              (None, r) \<Rightarrow> Some (c\<lparr>rd := r\<rparr>, Closed)
            | (Some body, r) \<Rightarrow> do {
                (c, out) \<leftarrow> binary_request W req body (c\<lparr>rd := r\<rparr>);
                if out = Done then handleBinary W (flush_if_idle c) else Some (c, out)
              })))"

declare handleBinary.simps [code]

end
