(* ===== verification/BinaryProps.thy ===== *)
theory BinaryProps
  imports BinaryProto
begin

text \<open>
  Properties of the binary protocol: the coding of headers, the handlers' responses, and the
  loop, which like that of the text protocol sees the stream only.
\<close>

section \<open>Responses on the wire\<close>

text \<open>A response as the client sees it, and its bytes.\<close>

record reply =
  rStatus :: uint16
  rExtras :: bytes
  rKey :: bytes
  rValue :: bytes
  rCas :: uint64

definition reply_bytes :: "binaryHeader \<Rightarrow> reply \<Rightarrow> bytes" where
  "reply_bytes req a =
    response_header req (rStatus a) (rExtras a) (rKey a) (rValue a) (rCas a) @ rExtras a @ rKey a @ rValue a"

lemma send_fields [simp]:
  "conn_cache (sendBinaryResponse req st e k v cas c) = conn_cache c"
  "rd (sendBinaryResponse req st e k v cas c) = rd c"
  "clk (sendBinaryResponse req st e k v cas c) = clk c"
  "conn_ok (sendBinaryResponse req st e k v cas c) = conn_ok c"
  by (simp_all add: sendBinaryResponse_def Let_def conn_ok_def)

lemma written_send [simp]:
  "written (wr (sendBinaryResponse req st e k v cas c)) =
    written (wr c) @ reply_bytes req \<lparr>rStatus = st, rExtras = e, rKey = k, rValue = v, rCas = cas\<rparr>"
  by (simp add: sendBinaryResponse_def Let_def reply_bytes_def)

section \<open>The handlers see the stream only\<close>

lemma rel_send: "rel n c d \<Longrightarrow> rel n (sendBinaryResponse req st e k v cas c) (sendBinaryResponse req st e k v cas d)"
  by (auto simp: rel_def)

lemma agree_respond [agree_rules]:
  "rel n c d \<Longrightarrow> agree n (respond req st e k v cas c) (respond req st e k v cas d)"
  by (simp add: respond_def agree_Some rel_send)

lemma agree_let [agree_rules]: "agree n (f x) (g x) \<Longrightarrow> agree n (Let x f) (Let x g)"
  by simp

lemmas agree_clock_case = agree_read_clock[where k = "case_prod f" and k' = "case_prod f" for f, simplified]
lemmas binary_rules = agree_rules agree_clock_case agree_cache_op agree_flush agree_stats total_ops

lemma rel_fold_send:
  "rel n c d \<Longrightarrow> rel n (fold (\<lambda>(k, v). sendBinaryResponse req st [] k v 0) xs c)
     (fold (\<lambda>(k, v). sendBinaryResponse req st [] k v 0) xs d)"
  by (induction xs arbitrary: c d) (auto simp: rel_send)

lemma agree_handlers:
  assumes w: "world_ok W" and r: "rel n c d"
  shows "agree n (handleBinaryStorage W req extras key val oper c) (handleBinaryStorage W req extras key val oper d)"
    "agree n (handleBinaryGet W req key b c) (handleBinaryGet W req key b d)"
    "agree n (handleBinaryGetK W req key b c) (handleBinaryGetK W req key b d)"
    "agree n (handleBinaryDelete W req key c) (handleBinaryDelete W req key d)"
    "agree n (handleBinaryIncrDecr W req extras key b c) (handleBinaryIncrDecr W req extras key b d)"
    "agree n (handleBinaryFlush W req c) (handleBinaryFlush W req d)"
    "agree n (handleBinaryAppendPrepend W req key val b c) (handleBinaryAppendPrepend W req key val b d)"
    "agree n (handleBinaryStats W req c) (handleBinaryStats W req d)"
    "agree n (handleBinaryTouch W req extras key c) (handleBinaryTouch W req extras key d)"
    "agree n (handleBinaryGATCommon W req extras key b c) (handleBinaryGATCommon W req extras key b d)"
  unfolding handleBinaryStorage_def handleBinaryGet_def handleBinaryGetK_def handleBinaryDelete_def
    handleBinaryIncrDecr_def handleBinaryFlush_def handleBinaryAppendPrepend_def handleBinaryStats_def
    handleBinaryTouch_def handleBinaryGATCommon_def
  by (intro binary_rules rel_fold_send r w; assumption)+

lemma agree_binary_command:
  assumes w: "world_ok W" and r: "rel n c d"
  shows "agree n (binary_command W req extras key val c) (binary_command W req extras key val d)"
  unfolding binary_command_def Let_def handleBinaryVersion_def handleBinaryGAT_def handleBinaryGATK_def
  by (intro agree_if agree_handlers agree_respond agree_Some r w)

lemma agree_binary_request:
  assumes w: "world_ok W" and r: "rel n c d"
  shows "agree n (binary_request W req body c) (binary_request W req body d)"
  unfolding binary_request_def Let_def by (intro agree_if agree_binary_command agree_Some r w)

lemma agree_handleBinary:
  "world_ok W \<Longrightarrow> rel n c d \<Longrightarrow> agree n (handleBinary W c) (handleBinary W d)"
proof (induction "length (input_left (rd c))" arbitrary: c d n rule: less_induct)
  case less
  obtain h r where c: "ReadFull 24 (rd c) = (h, r)" by fastforce
  obtain h' r' where d: "ReadFull 24 (rd d) = (h', r')" by fastforce
  note cs = ReadFull_spec[OF c] and ds = ReadFull_spec[OF d]
  have eq: "input_left (rd c) = input_left (rd d)" using less.prems by (simp add: rel_def)
  then have h: "h' = h" and ir: "input_left r = input_left r'" using cs ds by simp_all
  have lr: "length (input_left r) \<le> n" using cs less.prems(2) by (auto simp: rel_def)
  have rel: "rel n (c\<lparr>rd := r\<rparr>) (d\<lparr>rd := r'\<rparr>)" using less.prems(2) ir lr by (rule rel_reader)
  show ?case
  proof (cases h)
    case None
    then show ?thesis
      using c d h rel by (simp add: handleBinary.simps[of W c] handleBinary.simps[of W d] agree_Some)
  next
    case (Some header)
    let ?req = "parse_header header"
    let ?n = "nat (uint (BodyLen ?req))"
    have short: "length (input_left r) < length (input_left (rd c))"
      using cs Some by (auto split: if_splits)
    obtain b s where bc: "ReadFull ?n r = (b, s)" by fastforce
    obtain b' s' where bd: "ReadFull ?n r' = (b', s')" by fastforce
    note bcs = ReadFull_spec[OF bc] and bds = ReadFull_spec[OF bd]
    have b: "b' = b" and si: "input_left s = input_left s'" using bcs bds ir by simp_all
    have ls: "length (input_left s) \<le> length (input_left r)" using bcs by auto
    have rel2: "rel n (c\<lparr>rd := s\<rparr>) (d\<lparr>rd := s'\<rparr>)"
      using less.prems(2) si ls lr by (intro rel_reader) auto
    have rel3: "rel (length (input_left s)) (c\<lparr>rd := s\<rparr>) (d\<lparr>rd := s'\<rparr>)"
      using rel2 by (simp add: rel_def)
    have cmd: "agree n
        (do { (c, out) \<leftarrow> binary_request W ?req body (c\<lparr>rd := s\<rparr>);
              if out = Done then handleBinary W (flush_if_idle c) else Some (c, out) })
        (do { (c, out) \<leftarrow> binary_request W ?req body (d\<lparr>rd := s'\<rparr>);
              if out = Done then handleBinary W (flush_if_idle c) else Some (c, out) })" for body
    proof (rule agree_mono[OF agree_continue[OF agree_binary_request[OF less.prems(1) rel3]]])
      fix c' d' assume r': "rel (length (input_left s)) c' d'"
      then have "length (input_left (rd (flush_if_idle c'))) < length (input_left (rd c))"
        using short ls by (auto simp: rel_def)
      from less.hyps[OF this less.prems(1) rel_flush[OF r']]
      show "agree (length (input_left s)) (handleBinary W (flush_if_idle c')) (handleBinary W (flush_if_idle d'))" .
    qed (use ls lr in simp)
    show ?thesis
      using c d h Some bc bd b rel rel2 cmd
      by (auto simp: handleBinary.simps[of W c] handleBinary.simps[of W d] Let_def agree_Some split: option.split)
  qed
qed

interpretation binary_loop: protocol handleBinary
  by unfold_locales (rule agree_handleBinary)

end
