(* ===== verification/BinaryClaims.thy ===== *)
theory BinaryClaims
  imports BinaryProps
begin

text \<open>
  What a client of the binary protocol can rely on, and where it cannot.
\<close>

section \<open>Requests on the wire\<close>

text \<open>How a client writes a request: the specification of the protocol, for the claims.\<close>

definition request_header :: "uint8 \<Rightarrow> bytes \<Rightarrow> string \<Rightarrow> bytes \<Rightarrow> uint32 \<Rightarrow> uint64 \<Rightarrow> bytes" where
  "request_header oper extras key val opq cas =
    [byte_char reqMagic, byte_char oper] @ BE_PutUint16 (of_nat (length key)) @
    [byte_char (of_nat (length extras)), byte_char 0] @ BE_PutUint16 0 @
    BE_PutUint32 (of_nat (length extras + length key + length val)) @ BE_PutUint32 opq @ BE_PutUint64 cas"

definition request_bytes :: "uint8 \<Rightarrow> bytes \<Rightarrow> string \<Rightarrow> bytes \<Rightarrow> uint32 \<Rightarrow> uint64 \<Rightarrow> bytes" where
  "request_bytes oper extras key val opq cas = request_header oper extras key val opq cas @ extras @ key @ val"

definition request :: "uint8 \<Rightarrow> bytes \<Rightarrow> string \<Rightarrow> bytes \<Rightarrow> uint32 \<Rightarrow> uint64 \<Rightarrow> binaryHeader" where
  "request oper extras key val opq cas =
    \<lparr>Magic = reqMagic, Opcode = oper, KeyLen = of_nat (length key), ExtraLen = of_nat (length extras),
     DataType = 0, VBucket = 0, BodyLen = of_nat (length extras + length key + length val), Opaque = opq, CAS = cas\<rparr>"

definition fits :: "bytes \<Rightarrow> string \<Rightarrow> bytes \<Rightarrow> bool" where
  "fits extras key val \<longleftrightarrow> length extras < 2 ^ 8 \<and> length key < 2 ^ 16 \<and>
     int (length extras) + int (length key) + int (length val) < 2 ^ 32"

lemma of_char_byte [simp]: "of_char (byte_char b) = b"
proof -
  have "uint b mod 256 = uint b" using uint_lt2p[of b] by (intro mod_pos_pos_trivial) simp_all
  then have "(of_char (byte_char b) :: int) = uint b" by (simp add: byte_char_def)
  then show ?thesis using of_int_of_char[of "byte_char b", where ?'a = "8 word"] by simp
qed

lemma cut_append:
  "cut lo hi (xs @ ys) = (if length xs \<le> lo then cut (lo - length xs) (hi - length xs) ys
     else if hi \<le> length xs then cut lo hi xs else cut lo (length xs) xs @ take (hi - length xs) ys)"
  by (auto simp: cut_def diff_diff_eq)

lemma cut_all [simp]: "length xs = n \<Longrightarrow> cut 0 n xs = xs"
  by (simp add: cut_def)

lemma parse_request_header:
  "length (request_header oper extras key val opq cas) = 24 \<and>
   parse_header (request_header oper extras key val opq cas) = request oper extras key val opq cas"
  by (simp add: request_header_def parse_header_def request_def cut_append nth_append cut_def numeral_eq_Suc)

text \<open>The loop takes a request off the stream and carries it out.\<close>

lemma handleBinary_request:
  assumes i: "input_left (rd c) = request_bytes oper extras key val opq cas @ rest" and f: "fits extras key val"
    and a: "int (length extras + length key + length val) \<le> max_alloc W"
  shows "\<exists>r. input_left r = rest \<and> handleBinary W c =
    do { (c, out) \<leftarrow> binary_command W (request oper extras key val opq cas) extras key val (c\<lparr>rd := r\<rparr>);
         if out = Done then handleBinary W (flush_if_idle c) else Some (c, out) }"
proof -
  let ?h = "request_header oper extras key val opq cas" and ?req = "request oper extras key val opq cas"
  let ?b = "extras @ key @ val"
  have h: "length ?h = 24" "parse_header ?h = ?req" using parse_request_header by blast+
  have e: "nat (uint (ExtraLen ?req)) = length extras" and k: "nat (uint (KeyLen ?req)) = length key"
    and m: "Magic ?req = reqMagic"
    using f by (simp_all add: request_def fits_def unsigned_of_nat take_bit_nat_eq_self)
  have "uint (of_nat n :: 32 word) = int n" if "n < 2 ^ 32" for n
    using that by (simp add: unsigned_of_nat take_bit_nat_eq_self)
  from this[of "length extras + length key + length val"] have l: "uint (BodyLen ?req) = int (length ?b)"
    using f by (simp add: request_def fits_def add.assoc del: of_nat_add)
  obtain v r where r: "ReadFull 24 (rd c) = (v, r)" by fastforce
  have v: "v = Some ?h" "input_left r = ?b @ rest"
    using ReadFull_spec[OF r] i h(1) by (simp_all add: request_bytes_def)
  obtain w s where s: "ReadFull (length ?b) r = (w, s)" by fastforce
  have w: "w = Some ?b" "input_left s = rest" using ReadFull_spec[OF s] v(2) by simp_all
  have cuts: "cut 0 (length extras) ?b = extras" "cut (length extras) (length extras + length key) ?b = key"
    "drop (length extras + length key) ?b = val"
    by (simp_all add: cut_def)
  have "binary_request W ?req ?b d = binary_command W ?req extras key val d" for d
    unfolding binary_request_def Let_def e k cuts by simp
  moreover have "make_ok W (uint (BodyLen ?req))" using a l by (simp add: make_ok_def)
  moreover have "nat (uint (BodyLen ?req)) = length ?b" unfolding l by simp
  ultimately show ?thesis
    using w s r v h m by (intro exI[of _ s]) (simp add: handleBinary.simps[of W c] Let_def)
qed

lemma handleBinary_end:
  assumes "input_left (rd c) = []"
  shows "\<exists>r. handleBinary W c = Some (c\<lparr>rd := r\<rparr>, Closed)"
proof -
  obtain v r where r: "ReadFull 24 (rd c) = (v, r)" by fastforce
  have "v = None" using ReadFull_spec[OF r] assms by simp
  then show ?thesis by (intro exI[of _ r]) (simp add: handleBinary.simps[of W c] r)
qed

section \<open>Responses\<close>

text \<open>A client reading one response off its stream.\<close>

definition read_reply :: "bytes \<Rightarrow> ((uint8 \<times> uint32 \<times> reply) \<times> bytes) option" where
  "read_reply s =
    (let h = take 24 s; e = nat (uint (of_char (h ! 4) :: uint8)); k = nat (uint (BE_Uint16 (cut 2 4 h)));
         n = nat (uint (BE_Uint32 (cut 8 12 h))); body = take n (drop 24 s)
     in if length h < 24 \<or> h ! 0 \<noteq> byte_char resMagic \<or> length body < n \<or> n < e + k then None
        else Some ((of_char (h ! 1), BE_Uint32 (cut 12 16 h),
          \<lparr>rStatus = BE_Uint16 (cut 6 8 h), rExtras = cut 0 e body, rKey = cut e (e + k) body,
           rValue = drop (e + k) body, rCas = BE_Uint64 (cut 16 24 h)\<rparr>), drop (24 + n) s))"

lemma fits_lengths:
  assumes "fits extras key val"
  shows "nat (uint (of_nat (length extras) :: uint8)) = length extras" "nat (uint (of_nat (length key) :: uint16)) = length key"
    "nat (uint (of_nat (length extras + length key + length val) :: uint32)) = length extras + length key + length val"
proof -
  show "nat (uint (of_nat (length extras) :: uint8)) = length extras" "nat (uint (of_nat (length key) :: uint16)) = length key"
    using assms by (simp_all add: fits_def unsigned_of_nat take_bit_nat_eq_self)
  have "uint (of_nat n :: uint32) = int n" if "n < 2 ^ 32" for n
    using that by (simp add: unsigned_of_nat take_bit_nat_eq_self)
  from this[of "length extras + length key + length val"]
  show "nat (uint (of_nat (length extras + length key + length val) :: uint32)) = length extras + length key + length val"
    using assms by (simp add: fits_def add.assoc del: of_nat_add)
qed

text \<open>
  What the server writes as a response reads back, by the layout of the protocol, as exactly
  the status, extras, key, value and token it was given and the opcode and opaque number of the
  request, with the next response after it.
\<close>

theorem binary_response_roundtrip:
  assumes f: "fits extras key val"
    and c: "c' = sendBinaryResponse req status extras key val cas c"
  shows "\<exists>bs. written (wr c') = written (wr c) @ bs \<and> (\<forall>rest. read_reply (bs @ rest) =
    Some ((Opcode req, Opaque req,
      \<lparr>rStatus = status, rExtras = extras, rKey = key, rValue = val, rCas = cas\<rparr>), rest))"
proof -
  let ?a = "\<lparr>rStatus = status, rExtras = extras, rKey = key, rValue = val, rCas = cas\<rparr>"
  let ?h = "response_header req status extras key val cas"
  have h: "length ?h = 24" "?h ! 0 = byte_char resMagic" "of_char (?h ! 1) = Opcode req"
    "of_char (?h ! 4) = (of_nat (length extras) :: uint8)" "BE_Uint16 (cut 2 4 ?h) = of_nat (length key)"
    "BE_Uint16 (cut 6 8 ?h) = status" "BE_Uint32 (cut 8 12 ?h) = of_nat (length extras + length key + length val)"
    "BE_Uint32 (cut 12 16 ?h) = Opaque req" "BE_Uint64 (cut 16 24 ?h) = cas"
    by (simp_all add: response_header_def cut_append nth_append cut_def numeral_eq_Suc)
  have t: "take 24 (?h @ s) = ?h" "drop 24 (?h @ s) = s" for s using h(1) by simp_all
  have "read_reply (reply_bytes req ?a @ rest) = Some ((Opcode req, Opaque req, ?a), rest)" for rest
    unfolding read_reply_def reply_bytes_def Let_def append_assoc reply.simps t h fits_lengths[OF f]
    by (simp add: cut_def h(1) flip: drop_drop)
  then show ?thesis by (simp add: c)
qed

theorem binary_response_roundtrip_witness:
  "\<exists>bs. written (wr (sendBinaryResponse (request opGetK [] ''k'' [] 9 0) resSuccess (flag_extras 0) ''k'' ''v'' 3 (client []))) = bs \<and>
     read_reply bs = Some ((opGetK, 9,
      \<lparr>rStatus = resSuccess, rExtras = flag_extras 0, rKey = ''k'', rValue = ''v'', rCas = 3\<rparr>), [])"
proof -
  have f: "fits (flag_extras 0) ''k'' ''v''" by (simp add: fits_def flag_extras_def)
  have "written (wr (client [])) = []" by (simp add: client_def written_def)
  with binary_response_roundtrip[OF f refl, of "request opGetK [] ''k'' [] 9 0" resSuccess 3 "client []"]
  show ?thesis by (fastforce simp: request_def dest: spec[of _ "[]"])
qed

section \<open>One response for each request\<close>

lemma answer_not_large: "worker_inv w \<Longrightarrow> Err (answer en req w) \<noteq> Some ErrValueTooLarge"
  by (auto simp: answer_abs a_step_def a_get_def a_remove_def a_retime_def a_count_def a_extend_def a_store_parts
      err_resp_def ok_resp_def Let_def split: OpType.splits option.splits sum.splits prod.splits)

definition never_large :: "(env \<Rightarrow> ShardedCache \<Rightarrow> (ShardedCache \<times> uint64 \<times> cache_error option) option) \<Rightarrow> bool" where
  "never_large f \<longleftrightarrow> (\<forall>en sc sc' cas e. sharded_inv sc \<longrightarrow> f en sc = Some (sc', cas, e) \<longrightarrow> e \<noteq> Some ErrValueTooLarge)"

lemma never_large_call:
  assumes "\<And>en sc. f en sc = cas_err (sendRequest en (workerFor sc key) req sc)" and "reqKey req = key"
  shows "never_large f"
  unfolding never_large_def
proof (intro allI impI)
  fix en sc sc' cas e assume inv: "sharded_inv sc" and f: "f en sc = Some (sc', cas, e)"
  have "e = Err (answer en req (workers sc ! workerFor sc key))"
    using cache_call_Some[OF inv, where req = req and en = en] f by (auto simp: assms cas_err_def cache_call_def)
  then show "e \<noteq> Some ErrValueTooLarge" using answer_not_large[OF sharded_invD(2)[OF inv]] by simp
qed

lemma never_large_ops:
  "never_large (\<lambda>en. if b then CompareAndSwap en key val ttl cas else store_call oper key val ttl en)"
  "never_large (\<lambda>en. if b then Append en key val else Prepend en key val)"
proof -
  have "never_large (\<lambda>en. CompareAndSwap en key val ttl cas)"
    by (rule never_large_call[OF CompareAndSwap_def]) (simp add: key_req_def)
  moreover have "never_large (store_call oper key val ttl)"
  proof (cases oper)
    case SET
    then show ?thesis
      by (intro never_large_call[where key = key and req = "(key_req OpSet key)\<lparr>reqValue := val, TTL := ttl\<rparr>"])
        (simp_all add: store_call_def Set_def key_req_def)
  next
    case ADD
    then show ?thesis
      by (intro never_large_call[where key = key and req = "(key_req OpAdd key)\<lparr>reqValue := val, TTL := ttl\<rparr>"])
        (simp_all add: store_call_def Add_def key_req_def)
  next
    case REPLACE
    then show ?thesis
      by (intro never_large_call[where key = key and req = "(key_req OpReplace key)\<lparr>reqValue := val, TTL := ttl\<rparr>"])
        (simp_all add: store_call_def Replace_def key_req_def)
  qed
  ultimately show "never_large (\<lambda>en. if b then CompareAndSwap en key val ttl cas else store_call oper key val ttl en)"
    by (cases b) simp_all
  have "never_large (\<lambda>en. Append en key val)" "never_large (\<lambda>en. Prepend en key val)"
    by (simp_all add: never_large_call[OF Append_def] never_large_call[OF Prepend_def] key_req_def)
  then show "never_large (\<lambda>en. if b then Append en key val else Prepend en key val)" by (cases b) simp_all
qed

lemma ends_never_large:
  assumes "world_ok W" and "conn_ok c" and "total_op f" and "never_large f"
    and "\<And>sc n cas err. sharded_inv sc \<Longrightarrow> err \<noteq> Some ErrValueTooLarge \<Longrightarrow>
      ends P (k (c\<lparr>conn_cache := sc, clk := n\<rparr>) cas err)"
  shows "ends P (Option.bind (cache_op W f c) (\<lambda>(c, cas, err). k c cas err))"
proof -
  have inv: "sharded_inv (others W (clk c) (conn_cache c))" using assms(1,2) by (simp add: world_ok_def conn_ok_def)
  with assms(3) obtain sc cas err where f: "f (envs W (clk c)) (others W (clk c) (conn_cache c)) = Some (sc, cas, err)"
    and "sharded_inv sc" unfolding total_op_def by fast
  moreover from f inv assms(4) have "err \<noteq> Some ErrValueTooLarge" unfolding never_large_def by blast
  ultimately show ?thesis using assms(5) by (simp add: cache_op_def)
qed

text \<open>What a handler may answer, and that it has answered so and read nothing more.\<close>

definition answered :: "uint8 \<Rightarrow> reply list \<Rightarrow> bool" where
  "answered oper rs \<longleftrightarrow>
    (\<forall>a \<in> set rs. rStatus a \<in> {resSuccess, resKeyNotFound, resInvalidArgs, resItemNotStored, resUnknownCmd}) \<and>
    (if oper = opStat then length rs = 2
     else if oper \<in> {opGetQ, opGetKQ} then list_all (\<lambda>a. rStatus a = resSuccess) rs \<and> length rs \<le> 1
     else length rs = 1)"

definition answers :: "binaryHeader \<Rightarrow> Conn \<Rightarrow> Conn \<Rightarrow> outcome \<Rightarrow> bool" where
  "answers req c0 c out \<longleftrightarrow> out = Done \<and> rd c = rd c0 \<and>
    (\<exists>rs. answered (Opcode req) rs \<and> written (wr c) = written (wr c0) @ concat (map (reply_bytes req) rs))"

lemma answers_one:
  "rd c = rd c0 \<Longrightarrow> written (wr c) = written (wr c0) \<Longrightarrow> Opcode req \<noteq> opStat \<Longrightarrow>
   st \<in> {resSuccess, resKeyNotFound, resInvalidArgs, resItemNotStored, resUnknownCmd} \<Longrightarrow>
   Opcode req \<in> {opGetQ, opGetKQ} \<longrightarrow> st = resSuccess \<Longrightarrow> conn_ok c \<Longrightarrow>
   ends (answers req c0) (respond req st e k v cas c)"
  unfolding respond_def
  by (intro ends_Some) (auto simp: answers_def answered_def intro!: exI[of _ "[\<lparr>rStatus = st, rExtras = e, rKey = k, rValue = v, rCas = cas\<rparr>]"])

lemma answers_none:
  "rd c = rd c0 \<Longrightarrow> written (wr c) = written (wr c0) \<Longrightarrow> Opcode req \<in> {opGetQ, opGetKQ} \<Longrightarrow> conn_ok c \<Longrightarrow>
   ends (answers req c0) (Some (c, Done))"
  by (intro ends_Some) (auto simp: answers_def answered_def opGetQ_def opGetKQ_def opStat_def intro!: exI[of _ "[]"])

lemma written_clk [simp]: "wr (c\<lparr>clk := n\<rparr>) = wr c" "wr (c\<lparr>conn_cache := sc\<rparr>) = wr c"
  by simp_all

lemma answers_Storage:
  assumes "world_ok W" and "conn_ok c" and "Opcode req \<notin> {opStat, opGetQ, opGetKQ}"
  shows "ends (answers req c) (handleBinaryStorage W req extras key val oper c)"
  unfolding handleBinaryStorage_def Let_def
  by (intro ends_if ends_clock ends_never_large never_large_ops total_ops ends_opt answers_one assms(1))
    (use assms in auto)

lemma answers_AppendPrepend:
  assumes "world_ok W" and "conn_ok c" and "Opcode req \<notin> {opStat, opGetQ, opGetKQ}"
  shows "ends (answers req c) (handleBinaryAppendPrepend W req key val b c)"
  unfolding handleBinaryAppendPrepend_def
  by (intro ends_if ends_never_large never_large_ops total_ops ends_opt answers_one assms(1))
    (use assms in auto)

lemma answers_IncrDecr:
  assumes "world_ok W" and "conn_ok c" and "Opcode req \<notin> {opStat, opGetQ, opGetKQ}"
  shows "ends (answers req c) (handleBinaryIncrDecr W req extras key b c)"
  unfolding handleBinaryIncrDecr_def Let_def
  by (intro ends_if ends_clock ends_cache_op total_ops ends_prod answers_one assms(1)) (use assms in auto)

lemma answers_Get:
  assumes "world_ok W" and "conn_ok c" and "Opcode req \<noteq> opStat" and "quiet = (Opcode req \<in> {opGetQ, opGetKQ})"
  shows "ends (answers req c) (handleBinaryGet W req key quiet c)"
    "ends (answers req c) (handleBinaryGetK W req key quiet c)"
  unfolding handleBinaryGet_def handleBinaryGetK_def
  by (intro ends_if ends_cache_op total_ops ends_prod answers_one answers_none assms(1); use assms in auto)+

lemma answers_Delete:
  assumes "world_ok W" and "conn_ok c" and "Opcode req \<notin> {opStat, opGetQ, opGetKQ}"
  shows "ends (answers req c) (handleBinaryDelete W req key c)"
  unfolding handleBinaryDelete_def
  by (intro ends_if ends_cache_op total_ops answers_one assms(1)) (use assms in auto)

lemma answers_Flush:
  assumes "world_ok W" and "conn_ok c" and "Opcode req \<notin> {opStat, opGetQ, opGetKQ}"
  shows "ends (answers req c) (handleBinaryFlush W req c)"
  unfolding handleBinaryFlush_def
  by (intro ends_if ends_flush answers_one assms(1)) (use assms in auto)

lemma answers_Touch:
  assumes "world_ok W" and "conn_ok c" and "Opcode req \<notin> {opStat, opGetQ, opGetKQ}"
  shows "ends (answers req c) (handleBinaryTouch W req extras key c)"
    "ends (answers req c) (handleBinaryGATCommon W req extras key b c)"
  unfolding handleBinaryTouch_def handleBinaryGATCommon_def
  by (intro ends_if ends_clock ends_cache_op total_ops ends_prod answers_one assms(1); use assms in auto)+

lemma answers_Stats:
  assumes "world_ok W" and "conn_ok c" and "Opcode req = opStat"
  shows "ends (answers req c) (handleBinaryStats W req c)"
proof -
  obtain sc n v where "sharded_inv sc" and "\<And>d. conn_cache d = conn_cache c \<Longrightarrow> clk d = clk c \<Longrightarrow>
    cache_stats W d = Some (d\<lparr>conn_cache := sc, clk := n\<rparr>, [(''curr_items'', v)])"
    using cache_stats_Some[OF assms(1,2)] by metis
  then show ?thesis
    using assms(3)
    by (auto simp: handleBinaryStats_def respond_def ends_def answers_def answered_def
        intro!: exI[of _ "[\<lparr>rStatus = resSuccess, rExtras = [], rKey = ''curr_items'', rValue = v, rCas = 0\<rparr>,
          \<lparr>rStatus = resSuccess, rExtras = [], rKey = [], rValue = [], rCas = 0\<rparr>]"])
qed

lemmas opcode_defs = opGet_def opSet_def opAdd_def opReplace_def opDelete_def opIncrement_def opDecrement_def
  opQuit_def opFlush_def opGetQ_def opNoop_def opVersion_def opGetK_def opGetKQ_def opAppend_def opPrepend_def
  opStat_def opTouch_def opGAT_def opGATK_def

lemma answers_command:
  assumes "world_ok W" and "conn_ok c" and "Opcode req \<noteq> opQuit"
  shows "ends (answers req c) (binary_command W req extras key val c)"
  unfolding binary_command_def Let_def handleBinaryVersion_def handleBinaryGAT_def handleBinaryGATK_def
  by (intro ends_if answers_Storage answers_AppendPrepend answers_IncrDecr answers_Get answers_Delete
      answers_Flush answers_Touch answers_Stats answers_one assms(1,2))
    (use assms(2,3) in \<open>simp_all add: opcode_defs\<close>)

text \<open>
  C26. Every command but quit is answered, in the order of the requests: with two responses for
  statistics, with none or a successful one for a quiet get, with exactly one otherwise. It
  reads nothing more from the stream, and the statuses for an existing key, for a value that is
  too large and for exhausted memory are never used.
\<close>

theorem binary_one_response:
  assumes "world_ok W" and "conn_ok c" and "Opcode req \<noteq> opQuit"
  shows "\<exists>c' rs. binary_command W req extras key val c = Some (c', Done) \<and> answered (Opcode req) rs \<and>
    written (wr c') = written (wr c) @ concat (map (reply_bytes req) rs) \<and> rd c' = rd c \<and> conn_ok c'"
  using answers_command[OF assms, of extras key val] by (auto simp: ends_def answers_def)

theorem binary_one_response_witness:
  "\<exists>c' rs. binary_command quiet_world (request opGetQ [] ''k'' [] 1 0) [] ''k'' [] (client []) = Some (c', Done) \<and>
     answered opGetQ rs \<and> written (wr c') = concat (map (reply_bytes (request opGetQ [] ''k'' [] 1 0)) rs)"
  using binary_one_response[OF client_ok(2,3), of "request opGetQ [] ''k'' [] 1 0" "[]" "''k''" "[]" "[]"]
  by (force simp: request_def opcode_defs client_def written_def)

text \<open>
  C28. A complete request panics, and so ends the whole server, exactly when its header gives
  lengths of extras and key that add up to more than the length of the body; otherwise it is
  carried out, and only a quit closes the connection.
\<close>

theorem binary_request_panics:
  assumes "world_ok W" and "conn_ok c"
  shows "\<exists>c' out. binary_request W req body c = Some (c', out) \<and> conn_ok c' \<and>
    (out = Panicked) = (int (length body) < uint (ExtraLen req) + uint (KeyLen req)) \<and>
    (out = Closed) = (uint (ExtraLen req) + uint (KeyLen req) \<le> int (length body) \<and> Opcode req = opQuit)"
proof -
  let ?e = "nat (uint (ExtraLen req))" and ?k = "nat (uint (KeyLen req))"
  have n: "(length body < ?e + ?k) = (int (length body) < uint (ExtraLen req) + uint (KeyLen req))"
  proof -
    have "int (?e + ?k) = uint (ExtraLen req) + uint (KeyLen req)" by simp
    then show ?thesis by linarith
  qed
  have q: "Opcode req = opQuit \<Longrightarrow> binary_command W req e k v c = Some (c, Closed)" for e k v
    by (simp add: binary_command_def Let_def opcode_defs)
  obtain c' where "Opcode req \<noteq> opQuit \<Longrightarrow>
      binary_command W req (cut 0 ?e body) (cut ?e (?e + ?k) body) (drop (?e + ?k) body) c = Some (c', Done) \<and> conn_ok c'"
    using answers_command[OF assms] by (fastforce simp: ends_def answers_def)
  then show ?thesis
    using n q assms(2) by (cases "Opcode req = opQuit") (auto simp: binary_request_def Let_def)
qed

definition noop_request :: bytes where
  "noop_request = request_bytes opNoop [] [] [] 5 0"

theorem binary_request_panics_witness:
  "\<exists>c'. binary_request quiet_world (parse_header (take 4 noop_request @ [CHR 0x08] @ drop 5 noop_request)) [] (client []) =
     Some (c', Panicked)"
proof -
  let ?req = "parse_header (take 4 noop_request @ [CHR 0x08] @ drop 5 noop_request)"
  have "int (length ([] :: bytes)) < uint (ExtraLen ?req) + uint (KeyLen ?req)" by code_simp
  with binary_request_panics[OF client_ok(2,3), of ?req "[]" "[]"] show ?thesis by auto
qed

section \<open>Set, then get\<close>

lemma binary_get_hit:
  assumes "Get (envs W (clk c)) key (others W (clk c) (conn_cache c)) = Some (sc, v, cas, flags, None)"
    and "Opcode req = opGet"
  shows "binary_command W req extras key val c =
    Some (sendBinaryResponse req resSuccess (flag_extras flags) [] v cas (c\<lparr>conn_cache := sc, clk := clk c + 1\<rparr>), Done)"
  using assms by (simp add: binary_command_def opcode_defs handleBinaryGet_def cache_op_def respond_def)

lemma binary_set_ok:
  assumes "length extras = 8" and "CAS req = 0" and "Opcode req = opSet"
    and "Set (envs W (clk c + 1)) key val (binary_ttl (store_now (envs W (clk c))) (BE_Uint32 (cut 4 8 extras)))
      (others W (clk c + 1) (conn_cache c)) = Some (sc, cas, None)"
  shows "binary_command W req extras key val c =
    Some (sendBinaryResponse req resSuccess [] [] [] cas (c\<lparr>conn_cache := sc, clk := clk c + 2\<rparr>), Done)"
  using assms
  by (simp add: binary_command_def opcode_defs handleBinaryStorage_def read_clock_def cache_op_def store_call_def
      respond_def)

lemma binary_set:
  assumes q: "calm W" and inv: "conn_ok c"
    and e: "length extras = 8" "BE_Uint32 (cut 4 8 extras) = 0" and f: "fits extras key val"
    and a: "int (length extras + length key + length val) \<le> max_alloc W"
    and i: "input_left (rd c) = request_bytes opSet extras key val opq 0 @ rest"
  shows "\<exists>c' cas. handleBinary W c = handleBinary W (flush_if_idle c') \<and> conn_ok c' \<and>
    Set (envs W (clk c + 1)) key val 0 (conn_cache c) = Some (conn_cache c', cas, None) \<and>
    input_left (rd c') = rest \<and> written (wr c') = written (wr c) @ reply_bytes (request opSet extras key val opq 0)
      \<lparr>rStatus = resSuccess, rExtras = [], rKey = [], rValue = [], rCas = cas\<rparr>"
proof -
  let ?s = "request opSet extras key val opq 0"
  have sc: "sharded_inv (conn_cache c)" using inv by (simp add: conn_ok_def)
  obtain sc1 cas where set: "Set (envs W (clk c + 1)) key val 0 (conn_cache c) = Some (sc1, cas, None)"
    using Set_result[OF sc, of "envs W (clk c + 1)" key val 0] by blast
  have sc1: "sharded_inv sc1" by (rule total_opD[OF total_Set sc set])
  obtain r where r: "input_left r = rest" and h: "handleBinary W c =
    do { (c, out) \<leftarrow> binary_command W ?s extras key val (c\<lparr>rd := r\<rparr>);
         if out = Done then handleBinary W (flush_if_idle c) else Some (c, out) }"
    using handleBinary_request[OF i f a] by auto
  define c1 where "c1 = sendBinaryResponse ?s resSuccess [] [] [] cas (c\<lparr>rd := r, conn_cache := sc1, clk := clk c + 2\<rparr>)"
  have "binary_command W ?s extras key val (c\<lparr>rd := r\<rparr>) = Some (c1, Done)"
    using binary_set_ok[of extras ?s W "c\<lparr>rd := r\<rparr>" key val sc1 cas] set q e
    by (simp add: request_def calm_def binary_ttl_def c1_def)
  with h r set sc1 show ?thesis by (intro exI[of _ c1] exI[of _ cas]) (simp add: c1_def conn_ok_def)
qed

lemma binary_get:
  assumes f: "fits [] key []" and a: "int (length key) \<le> max_alloc W"
    and i: "input_left (rd c) = request_bytes opGet [] key [] opq 0 @ rest"
    and g: "Get (envs W (clk c)) key (others W (clk c) (conn_cache c)) = Some (sc, v, cas, 0, None)"
  shows "\<exists>c'. handleBinary W c = handleBinary W (flush_if_idle c') \<and> conn_cache c' = sc \<and>
    input_left (rd c') = rest \<and> written (wr c') = written (wr c) @ reply_bytes (request opGet [] key [] opq 0)
      \<lparr>rStatus = resSuccess, rExtras = flag_extras 0, rKey = [], rValue = v, rCas = cas\<rparr>"
proof -
  let ?g = "request opGet [] key [] opq 0"
  have a': "int (length ([] :: bytes) + length key + length ([] :: bytes)) \<le> max_alloc W" using a by simp
  obtain r where r: "input_left r = rest" and h: "handleBinary W c =
    do { (c, out) \<leftarrow> binary_command W ?g [] key [] (c\<lparr>rd := r\<rparr>);
         if out = Done then handleBinary W (flush_if_idle c) else Some (c, out) }"
    using handleBinary_request[OF i f a'] by blast
  have "binary_command W ?g [] key [] (c\<lparr>rd := r\<rparr>) =
      Some (sendBinaryResponse ?g resSuccess (flag_extras 0) [] v cas (c\<lparr>rd := r, conn_cache := sc, clk := clk c + 1\<rparr>), Done)"
    using binary_get_hit[of W "c\<lparr>rd := r\<rparr>" key sc v cas 0 ?g "[]" "[]"] g by (simp add: request_def)
  with h r show ?thesis by auto
qed

lemma handleBinary_last:
  assumes "handleBinary W c = handleBinary W (flush_if_idle c1)" and "input_left (rd c1) = []"
  shows "\<exists>c'. handleBinary W c = Some (c', Closed) \<and> wbuf (wr c') = [] \<and> sent (wr c') = written (wr c1) \<and>
    conn_cache c' = conn_cache c1"
  using handleBinary_end[of "flush_if_idle c1" W] flush_idle_end[OF assms(2)] assms by auto

text \<open>
  C7. A value set by a binary request comes back byte for byte, with the token that the set was
  answered with and with zero flags, however the two requests are cut into packets; both
  responses are flushed.
\<close>

theorem binary_set_get_roundtrip:
  assumes q: "calm W" and inv: "conn_ok c"
    and e: "length extras = 8" "BE_Uint32 (cut 4 8 extras) = 0" and f: "fits extras key val"
    and a: "int (length extras + length key + length val) \<le> max_alloc W"
    and ttl: "DefaultTTL (workers (conn_cache c) ! workerFor (conn_cache c) key) \<le> 0"
    and i: "input_left (rd c) = request_bytes opSet extras key val opq 0 @ request_bytes opGet [] key [] opq' 0"
  shows "\<exists>c' cas. handleBinary W c = Some (c', Closed) \<and> wbuf (wr c') = [] \<and> sent (wr c') = written (wr c) @
    reply_bytes (request opSet extras key val opq 0)
      \<lparr>rStatus = resSuccess, rExtras = [], rKey = [], rValue = [], rCas = cas\<rparr> @
    reply_bytes (request opGet [] key [] opq' 0)
      \<lparr>rStatus = resSuccess, rExtras = flag_extras 0, rKey = [], rValue = val, rCas = cas\<rparr>"
proof -
  obtain c1 cas where 1: "handleBinary W c = handleBinary W (flush_if_idle c1)" "conn_ok c1"
    "Set (envs W (clk c + 1)) key val 0 (conn_cache c) = Some (conn_cache c1, cas, None)"
    "input_left (rd c1) = request_bytes opGet [] key [] opq' 0 @ []"
    "written (wr c1) = written (wr c) @ reply_bytes (request opSet extras key val opq 0)
      \<lparr>rStatus = resSuccess, rExtras = [], rKey = [], rValue = [], rCas = cas\<rparr>"
    using binary_set[OF q inv e f a i] by auto
  let ?c = "flush_if_idle c1"
  have k: "fits [] key []" "int (length key) \<le> max_alloc W" using f a by (simp_all add: fits_def)
  obtain sc where "Get (envs W (clk ?c)) key (others W (clk ?c) (conn_cache ?c)) = Some (sc, val, cas, 0, None)"
    using Set_then_Get[OF _ _ 1(3), of "envs W (clk c1)"] ttl inv q by (auto simp: conn_ok_def calm_def effective_ttl_def)
  from binary_get[OF k _ this, of opq' "[]"] 1(4) obtain c2 where 2: "handleBinary W ?c = handleBinary W (flush_if_idle c2)"
    "input_left (rd c2) = []" "written (wr c2) = written (wr c1) @ reply_bytes (request opGet [] key [] opq' 0)
      \<lparr>rStatus = resSuccess, rExtras = flag_extras 0, rKey = [], rValue = val, rCas = cas\<rparr>"
    by auto
  from handleBinary_last[OF 2(1,2)] 1(1,5) 2(3) show ?thesis by auto
qed

theorem binary_set_get_roundtrip_witness:
  "\<exists>c' cas. handleBinary quiet_world (client [request_bytes opSet (replicate 8 (CHR 0x00)) ''k'' ''v'' 1 0 @
       request_bytes opGet [] ''k'' [] 2 0]) = Some (c', Closed) \<and>
     sent (wr c') =
       reply_bytes (request opSet (replicate 8 (CHR 0x00)) ''k'' ''v'' 1 0)
         \<lparr>rStatus = resSuccess, rExtras = [], rKey = [], rValue = [], rCas = cas\<rparr> @
       reply_bytes (request opGet [] ''k'' [] 2 0)
         \<lparr>rStatus = resSuccess, rExtras = flag_extras 0, rKey = [], rValue = ''v'', rCas = cas\<rparr>"
proof -
  let ?e = "replicate 8 (CHR 0x00)"
  let ?c = "client [request_bytes opSet ?e ''k'' ''v'' 1 0 @ request_bytes opGet [] ''k'' [] 2 0]"
  have e: "length ?e = 8" "BE_Uint32 (cut 4 8 ?e) = 0" by code_simp+
  have f: "fits ?e ''k'' ''v''" and a: "int (length ?e + length ''k'' + length ''v'') \<le> max_alloc quiet_world"
    by (simp_all add: fits_def quiet_world_def)
  have "DefaultTTL (workers two_shards ! workerFor two_shards ''k'') \<le> 0" by code_simp
  then have t: "DefaultTTL (workers (conn_cache ?c) ! workerFor (conn_cache ?c) ''k'') \<le> 0" by (simp add: client_def)
  have i: "input_left (rd ?c) = request_bytes opSet ?e ''k'' ''v'' 1 0 @ request_bytes opGet [] ''k'' [] 2 0"
    by (simp add: client_def input_left_def)
  have w: "written (wr ?c) = []" by (simp add: client_def written_def)
  from binary_set_get_roundtrip[OF client_ok(1,3) e f a t i] show ?thesis unfolding w by auto
qed

section \<open>Counters\<close>

lemma count_missing:
  assumes inv: "sharded_inv sc" and k: "lookup sc key = None" and r: "reqKey req = key" "Op req \<in> {OpIncr, OpDecr}"
  shows "\<exists>sc'. cache_call en req sc = Some (sc', err_resp ErrKeyNotFound) \<and> lookup sc' key = None"
proof -
  let ?w = "workers sc ! workerFor sc key"
  have w: "worker_inv ?w" and n: "workerFor sc key < length (workers sc)" using sharded_invD(2,3)[OF inv] by auto
  have a: "a_find key (aitems (abs_worker ?w)) = None"
    using k stored_find[OF w] by (simp add: lookup_def abs_worker_def)
  then have s: "a_step en req (abs_worker ?w) = (abs_worker ?w, err_resp ErrKeyNotFound)"
    using r by (auto simp: a_step_def a_count_def a_live_def)
  have "answer en req ?w = err_resp ErrKeyNotFound" using s by (simp add: answer_abs[OF w])
  moreover have "stored (next_worker en req ?w) key = None"
    using stored_find[OF serve(2)[OF w, of en req]] next_fields(1)[OF w, of en req] s a by (simp add: next_worker_def)
  ultimately show ?thesis
    using cache_call_Some[OF inv, where req = req and en = en] n r by (simp add: lookup_def)
qed

text \<open>
  C34. An increment or decrement of a key that is not there is always refused as invalid, and the
  key is still not there: the initial value and the expiry of the request have no effect.
\<close>

theorem binary_counter_never_created:
  assumes w: "world_ok W" "conn_ok c" and l: "20 \<le> length extras"
    and k: "lookup (others W (clk c) (conn_cache c)) key = None"
  shows "\<exists>c'. handleBinaryIncrDecr W req extras key incr c = Some (sendBinaryResponse req resInvalidArgs [] [] [] 0 c', Done) \<and>
    lookup (conn_cache c') key = None \<and> wr c' = wr c"
proof -
  let ?sc = "others W (clk c) (conn_cache c)" and ?d = "BE_Uint64 (cut 0 8 extras)"
  let ?req = "(key_req (if incr then OpIncr else OpDecr) key)\<lparr>Delta := ?d\<rparr>"
  have sc: "sharded_inv ?sc" using w by (simp add: world_ok_def conn_ok_def)
  obtain sc' where sc': "cache_call (envs W (clk c)) ?req ?sc = Some (sc', err_resp ErrKeyNotFound)" "lookup sc' key = None"
    using count_missing[OF sc k, of ?req "envs W (clk c)"] by (cases incr) (auto simp: key_req_def)
  then have "(if incr then Increment (envs W (clk c)) key ?d ?sc else Decrement (envs W (clk c)) key ?d ?sc)
      = Some (sc', 0, 0, Some ErrKeyNotFound)"
    by (simp add: Increment_def Decrement_def count_result_def cache_call_def key_req_def err_resp_def ok_resp_def
        split: if_splits)
  then have "cache_op W (\<lambda>en. if incr then Increment en key ?d else Decrement en key ?d) c
      = Some (c\<lparr>conn_cache := sc', clk := clk c + 1\<rparr>, 0, 0, Some ErrKeyNotFound)"
    by (cases incr) (simp_all add: cache_op_def)
  with l sc'(2) show ?thesis
    by (intro exI[of _ "c\<lparr>conn_cache := sc', clk := clk c + 1\<rparr>"])
      (simp add: handleBinaryIncrDecr_def Let_def respond_def)
qed

theorem binary_counter_never_created_witness:
  "\<exists>c'. handleBinaryIncrDecr quiet_world (request opIncrement (replicate 20 (CHR 0x00)) ''n'' [] 1 0) (replicate 20 (CHR 0x00)) ''n'' True
      (client []) = Some (c', Done) \<and> lookup (conn_cache c') ''n'' = None"
proof -
  have "others quiet_world (clk (client [])) (conn_cache (client [])) = two_shards"
    by (simp add: quiet_world_def client_def)
  moreover have "lookup two_shards ''n'' = None"
    by code_simp
  ultimately show ?thesis
    using binary_counter_never_created[OF client_ok(2,3), of "replicate 20 (CHR 0x00)" "[]" "''n''"] by fastforce
qed

end
