(* ===== verification/Pools.thy ===== *)
theory Pools
  imports Prelude "HOL-Library.Multiset"
begin

text \<open>
  Go's \<^verbatim>\<open>sync.Pool\<close>, which the program uses for request bodies, response extras and reply
  channels. \<open>Get\<close> removes an arbitrary element of the pool or calls \<open>New\<close>, \<open>Put\<close> adds one, and the
  run-time system may remove elements at any time. What the users of a pool rely on is that an
  object is in one place: in the pool, once, or with one goroutine. The locale \<open>pooled\<close> gives
  this invariant to every system whose steps move objects by these rules. Runs of such systems
  are defined here once.
\<close>

section \<open>Runs of a labelled system\<close>

inductive runs :: "('s \<Rightarrow> 'l \<Rightarrow> 's \<Rightarrow> bool) \<Rightarrow> 's \<Rightarrow> 'l list \<Rightarrow> 's \<Rightarrow> bool" for stp s0 where
  begins: "runs stp s0 [] s0"
| goes_on: "runs stp s0 tr s \<Longrightarrow> stp s l s' \<Longrightarrow> runs stp s0 (tr @ [l]) s'"

lemma runs_invariant:
  "runs stp s0 tr s \<Longrightarrow> I s0 \<Longrightarrow> (\<And>s l s'. I s \<Longrightarrow> stp s l s' \<Longrightarrow> I s') \<Longrightarrow> I s"
  by (induction rule: runs.induct) blast+

lemma runs_append:
  assumes "runs stp s1 tr' s2" and "runs stp s0 tr s1"
  shows "runs stp s0 (tr @ tr') s2"
  using assms
proof (induction rule: runs.induct)
  case (goes_on tr' s l s')
  then show ?case using runs.goes_on[of stp s0 "tr @ tr'" s l s'] by simp
qed simp

lemma runs_one: "stp s l s' \<Longrightarrow> runs stp s [l] s'"
  using runs.goes_on[OF runs.begins, of stp s l s'] by simp

lemma runs_step_first: "stp s l s1 \<Longrightarrow> runs stp s1 tr s' \<Longrightarrow> runs stp s (l # tr) s'"
  using runs_append[OF _ runs_one, of stp s1 tr s' s l] by simp

section \<open>How objects move\<close>

text \<open>
  \<open>F\<close> is what lies in the pools, \<open>H\<close> what each user holds. A new object is one that nobody has a
  reference to.
\<close>

inductive pool_move :: "'a multiset \<Rightarrow> ('c \<Rightarrow> 'a option) \<Rightarrow> 'a multiset \<Rightarrow> ('c \<Rightarrow> 'a option) \<Rightarrow> bool" where
  stay: "pool_move F H F H"
| reuse: "H c = None \<Longrightarrow> a \<in># F \<Longrightarrow> pool_move F H (F - {#a#}) (H(c := Some a))"
| allocate: "H c = None \<Longrightarrow> a \<notin># F \<Longrightarrow> \<forall>d. H d \<noteq> Some a \<Longrightarrow> pool_move F H F (H(c := Some a))"
| give_back: "H c = Some a \<Longrightarrow> pool_move F H (add_mset a F) (H(c := None))"
| abandon: "H c = Some a \<Longrightarrow> pool_move F H F (H(c := None))"
| collect: "pool_move F H (F - {#a#}) H"

definition exclusive :: "'a multiset \<Rightarrow> ('c \<Rightarrow> 'a option) \<Rightarrow> bool" where
  "exclusive F H \<longleftrightarrow> (\<forall>a. count F a \<le> 1) \<and> (\<forall>c a. H c = Some a \<longrightarrow> count F a = 0) \<and>
    (\<forall>c d a. H c = Some a \<longrightarrow> H d = Some a \<longrightarrow> c = d)"

lemma exclusiveD:
  assumes "exclusive F H"
  shows "count F a \<le> 1" "H c = Some a \<Longrightarrow> a \<notin># F" "H c = Some a \<Longrightarrow> H d = Some a \<Longrightarrow> c = d"
  using assms by (auto simp: exclusive_def count_eq_zero_iff)

lemma exclusive_empty [simp]: "exclusive {#} (\<lambda>c. None)"
  by (simp add: exclusive_def)

lemma pool_move_exclusive: "pool_move F H F' H' \<Longrightarrow> exclusive F H \<Longrightarrow> exclusive F' H'"
proof (induction rule: pool_move.induct)
  case (reuse H c a F)
  have one: "count F x \<le> 1" for x using reuse.prems by (rule exclusiveD(1))
  then have "count F a = 1" using reuse.hyps(2) by (simp add: order_antisym count_greater_eq_one_iff)
  moreover have "H d \<noteq> Some a" for d using exclusiveD(2)[OF reuse.prems, of d a] reuse.hyps(2) by auto
  ultimately show ?case using reuse.prems one by (auto simp: exclusive_def)
next
  case (collect F H a)
  have "count (F - {#a#}) x \<le> count F x" for x by simp
  then show ?case using collect by (fastforce simp: exclusive_def intro: le_trans)
next
  case (give_back H c a F)
  then show ?case by (auto simp: exclusive_def)
qed (auto simp: exclusive_def count_eq_zero_iff)

section \<open>The interface\<close>

locale pooled =
  fixes stp :: "'s \<Rightarrow> 'l \<Rightarrow> 's \<Rightarrow> bool"
    and free :: "'s \<Rightarrow> 'a multiset"
    and held :: "'s \<Rightarrow> 'c \<Rightarrow> 'a option"
  assumes moves: "stp s l s' \<Longrightarrow> pool_move (free s) (held s) (free s') (held s')"
begin

definition owned :: "'s \<Rightarrow> bool" where
  "owned s \<longleftrightarrow> exclusive (free s) (held s)"

lemma owned_step: "owned s \<Longrightarrow> stp s l s' \<Longrightarrow> owned s'"
  using pool_move_exclusive[OF moves] by (simp add: owned_def)

lemma owned_runs: "runs stp s0 tr s \<Longrightarrow> owned s0 \<Longrightarrow> owned s"
  by (rule runs_invariant[where I = owned]) (use owned_step in blast)+

lemma one_holder: "owned s \<Longrightarrow> held s c = Some a \<Longrightarrow> held s d = Some a \<Longrightarrow> c = d"
  unfolding owned_def by (rule exclusiveD(3))

lemma not_free: "owned s \<Longrightarrow> held s c = Some a \<Longrightarrow> a \<notin># free s"
  unfolding owned_def by (rule exclusiveD(2))

end

end
