(* ===== verification/BufferPool.thy ===== *)
theory BufferPool
  imports BinaryProps Pools
begin

text \<open>
  The pooled buffers of \<^verbatim>\<open>pkg/server/binary.go\<close>. \<open>BinaryProto\<close> handles the body of a request as a
  value; here it is a slice of an array that comes out of a pool with whatever an earlier request
  left in it, cut by Go's slice expressions, which check against the capacity and not the length.
  The first part shows that the loop does the same on such slices, whatever they held. The second
  part is about many connections at once: no buffer is with two of them, so what one has read into
  its buffer is still there when it uses it.
\<close>

section \<open>Slices\<close>

record Slice =
  arr :: nat
  off :: nat
  len :: nat
  cap :: nat

type_synonym memory = "nat \<Rightarrow> bytes"

definition whole :: "nat \<Rightarrow> nat \<Rightarrow> Slice" where
  "whole a n = \<lparr>arr = a, off = 0, len = n, cap = n\<rparr>"

text \<open>\<open>s[:n]\<close>, \<open>s[lo:hi]\<close> and \<open>s[lo:]\<close>; \<open>None\<close> is a panic.\<close>

definition slice_to :: "nat \<Rightarrow> Slice \<Rightarrow> Slice option" where
  "slice_to n s = (if n \<le> cap s then Some (s\<lparr>len := n\<rparr>) else None)"

definition slice_between :: "nat \<Rightarrow> nat \<Rightarrow> Slice \<Rightarrow> Slice option" where
  "slice_between lo hi s =
    (if lo \<le> hi \<and> hi \<le> cap s then Some (s\<lparr>off := off s + lo, len := hi - lo, cap := cap s - lo\<rparr>) else None)"

definition slice_from :: "nat \<Rightarrow> Slice \<Rightarrow> Slice option" where
  "slice_from lo s =
    (if lo \<le> len s then Some (s\<lparr>off := off s + lo, len := len s - lo, cap := cap s - lo\<rparr>) else None)"

definition contents :: "memory \<Rightarrow> Slice \<Rightarrow> bytes" where
  "contents m s = take (len s) (drop (off s) (m (arr s)))"

text \<open>\<open>copy(s[at:], p)\<close>, for \<open>p\<close> that fits.\<close>

definition store_at :: "Slice \<Rightarrow> nat \<Rightarrow> bytes \<Rightarrow> memory \<Rightarrow> memory" where
  "store_at s i p m =
    m(arr s := take (off s + i) (m (arr s)) @ p @ drop (off s + i + length p) (m (arr s)))"

definition slice_ok :: "memory \<Rightarrow> Slice \<Rightarrow> bool" where
  "slice_ok m s \<longleftrightarrow> len s \<le> cap s \<and> off s + cap s \<le> length (m (arr s))"

lemma contents_store_all:
  "slice_ok m s \<Longrightarrow> length p = len s \<Longrightarrow> contents (store_at s 0 p m) s = p"
  by (simp add: contents_def store_at_def slice_ok_def)

lemma slice_ok_store: "slice_ok m s \<Longrightarrow> length p = len s \<Longrightarrow> slice_ok (store_at s 0 p m) s"
  by (simp add: slice_ok_def store_at_def)

section \<open>The pools\<close>

text \<open>The sizes of the buffers that the pools' \<open>New\<close> functions make.\<close>

datatype pool_id = ExtrasPool | SmallBodyPool | MediumBodyPool

fun pool_size :: "pool_id \<Rightarrow> nat" where
  "pool_size ExtrasPool = 4"
| "pool_size SmallBodyPool = 1024"
| "pool_size MediumBodyPool = 65536"

definition body_pool :: "int \<Rightarrow> pool_id option" where
  "body_pool bodyLen =
    (if bodyLen \<le> 1024 then Some SmallBodyPool else if bodyLen \<le> 65536 then Some MediumBodyPool else None)"

text \<open>
  The buffer of a request: \<open>Get().([]byte)[:bodyLen]\<close> of a pool, or a new one. \<open>stale p\<close> is what
  the pool's buffer holds.
\<close>

definition body_buffer :: "(pool_id \<Rightarrow> bytes) \<Rightarrow> int \<Rightarrow> (memory \<times> Slice) option" where
  "body_buffer stale bodyLen =
    (case body_pool bodyLen of
      Some p \<Rightarrow> map_option (\<lambda>s. (\<lambda>a. stale p, s)) (slice_to (nat bodyLen) (whole 0 (length (stale p))))
    | None \<Rightarrow> Some (\<lambda>a. replicate (nat bodyLen) (CHR 0x00), whole 0 (nat bodyLen)))"

definition cut_body :: "binaryHeader \<Rightarrow> Slice \<Rightarrow> (Slice \<times> Slice \<times> Slice) option" where
  "cut_body req bodyBuf =
    (let e = nat (uint (ExtraLen req)); k = nat (uint (KeyLen req)) in do {
       extras \<leftarrow> slice_to e bodyBuf;
       key \<leftarrow> slice_between e (e + k) bodyBuf;
       val \<leftarrow> slice_from (e + k) bodyBuf;
       Some (extras, key, val)
     })"

definition request_in_slice :: "World \<Rightarrow> binaryHeader \<Rightarrow> memory \<Rightarrow> Slice \<Rightarrow> Conn \<Rightarrow> handled" where
  "request_in_slice W req m bodyBuf c =
    (case cut_body req bodyBuf of
      None \<Rightarrow> Some (c, Panicked)
    | Some (extras, key, val) \<Rightarrow>
        binary_command W req (contents m extras) (contents m key) (contents m val) c)"

text \<open>The loop with pooled buffers; \<open>stale j\<close> is what the pools hold at the \<open>j\<close>-th request.\<close>

partial_function (option) handleBinary_pooled ::
  "World \<Rightarrow> (nat \<Rightarrow> pool_id \<Rightarrow> bytes) \<Rightarrow> nat \<Rightarrow> Conn \<Rightarrow> handled" where
  "handleBinary_pooled W stale j c =
    (case ReadFull 24 (rd c) of
      (None, r) \<Rightarrow> Some (c\<lparr>rd := r\<rparr>, Closed)
    | (Some headerBuf, r) \<Rightarrow>
        (let c = c\<lparr>rd := r\<rparr>; req = parse_header headerBuf; bodyLen = uint (BodyLen req)
         in if Magic req \<noteq> reqMagic then Some (c, Closed)
            else if body_pool bodyLen = None \<and> \<not> make_ok W bodyLen then Some (c, Panicked)
            else (case body_buffer (stale j) bodyLen of
              None \<Rightarrow> Some (c, Panicked)
            | Some (m, bodyBuf) \<Rightarrow>
                (case ReadFull (len bodyBuf) (rd c) of
                  (None, r) \<Rightarrow> Some (c\<lparr>rd := r\<rparr>, Closed)
                | (Some body, r) \<Rightarrow> do {
                    (c, out) \<leftarrow> request_in_slice W req (store_at bodyBuf 0 body m) bodyBuf (c\<lparr>rd := r\<rparr>);
                    if out = Done then handleBinary_pooled W stale (j + 1) (flush_if_idle c) else Some (c, out)
                  }))))"

text \<open>The extras of a get: a pooled buffer whose four bytes are assigned one by one.\<close>

definition pooled_extras :: "bytes \<Rightarrow> int \<Rightarrow> bytes" where
  "pooled_extras extras flags =
    extras[0 := byte_char 0, 1 := byte_char 0, 2 := byte_char 0, 3 := byte_char (of_int flags)]"

section \<open>Pooled buffers cannot be told from new ones\<close>

lemma request_in_slice_eq:
  assumes "slice_ok m s"
  shows "request_in_slice W req m s c = binary_request W req (contents m s) c"
proof -
  let ?e = "nat (uint (ExtraLen req))" and ?k = "nat (uint (KeyLen req))"
  have l: "length (contents m s) = len s" using assms by (auto simp: contents_def slice_ok_def)
  show ?thesis
  proof (cases "?e + ?k \<le> len s")
    case True
    then have "cut_body req s = Some (s\<lparr>len := ?e\<rparr>, s\<lparr>off := off s + ?e, len := ?k, cap := cap s - ?e\<rparr>,
        s\<lparr>off := off s + (?e + ?k), len := len s - (?e + ?k), cap := cap s - (?e + ?k)\<rparr>)"
      using assms by (simp add: cut_body_def slice_to_def slice_between_def slice_from_def slice_ok_def Let_def)
    moreover have "take ?e (drop (off s) (m (arr s))) = cut 0 ?e (contents m s)"
      "take ?k (drop (off s + ?e) (m (arr s))) = cut ?e (?e + ?k) (contents m s)"
      "take (len s - (?e + ?k)) (drop (off s + (?e + ?k)) (m (arr s))) = drop (?e + ?k) (contents m s)"
      using True by (simp_all add: cut_def contents_def drop_take min_def add.commute)
    ultimately show ?thesis using True l
      by (simp add: request_in_slice_def binary_request_def contents_def Let_def)
  next
    case False
    then have "cut_body req s = None"
      by (auto simp: cut_body_def slice_from_def Let_def split: Option.bind_splits)
    then show ?thesis using False l by (simp add: request_in_slice_def binary_request_def Let_def)
  qed
qed

lemma body_buffer_Some:
  assumes "\<forall>p. length (stale p) = pool_size p" and "0 \<le> n"
  obtains m s where "body_buffer stale n = Some (m, s)" "slice_ok m s" "len s = nat n"
proof (cases "body_pool n")
  case None
  show thesis
    by (rule that[of "\<lambda>a. replicate (nat n) (CHR 0x00)" "whole 0 (nat n)"])
      (simp_all add: body_buffer_def None slice_ok_def whole_def)
next
  case (Some p)
  then have "nat n \<le> pool_size p" using assms(2) by (auto simp: body_pool_def nat_le_iff split: if_splits)
  then show thesis
    by (intro that[of "\<lambda>a. stale p" "(whole 0 (length (stale p)))\<lparr>len := nat n\<rparr>"])
      (simp_all add: body_buffer_def Some assms(1) slice_to_def slice_ok_def whole_def)
qed

text \<open>One round of the loop, as a function of what follows it: the two loops differ in nothing else.\<close>

definition binary_round :: "World \<Rightarrow> (Conn \<Rightarrow> handled) \<Rightarrow> Conn \<Rightarrow> handled" where
  "binary_round W k c =
    (case ReadFull 24 (rd c) of
      (None, r) \<Rightarrow> Some (c\<lparr>rd := r\<rparr>, Closed)
    | (Some headerBuf, r) \<Rightarrow>
        (let c = c\<lparr>rd := r\<rparr>; req = parse_header headerBuf; bodyLen = uint (BodyLen req)
         in if Magic req \<noteq> reqMagic then Some (c, Closed)
            else if bodyLen > 65536 \<and> \<not> make_ok W bodyLen then Some (c, Panicked)
            else (case ReadFull (nat bodyLen) (rd c) of
              (None, r) \<Rightarrow> Some (c\<lparr>rd := r\<rparr>, Closed)
            | (Some body, r) \<Rightarrow> do {
                (c, out) \<leftarrow> binary_request W req body (c\<lparr>rd := r\<rparr>);
                if out = Done then k (flush_if_idle c) else Some (c, out)
              })))"

lemma bind_mono:
  "Option.bind x f = Some y \<Longrightarrow> (\<And>a z. f a = Some z \<Longrightarrow> g a = Some z) \<Longrightarrow> Option.bind x g = Some y"
  by (cases x) auto

lemma binary_round_mono:
  assumes "binary_round W k c = Some y" and "\<And>c z. k c = Some z \<Longrightarrow> k' c = Some z"
  shows "binary_round W k' c = Some y"
proof -
  have "Option.bind x (\<lambda>(c, out). if out = Done then k' (flush_if_idle c) else Some (c, out)) = Some y"
    if "Option.bind x (\<lambda>(c, out). if out = Done then k (flush_if_idle c) else Some (c, out)) = Some y" for x
    by (rule bind_mono[OF that]) (auto split: if_splits dest: assms(2))
  with assms(1) show ?thesis
    by (fastforce simp: binary_round_def Let_def split: prod.splits option.splits if_splits)
qed

lemma body_pool_None: "body_pool n = None \<longleftrightarrow> n > 65536"
  by (simp add: body_pool_def)

lemma pooled_round:
  assumes "\<forall>p. length (stale p) = pool_size p"
  shows "(case body_buffer stale (uint n) of None \<Rightarrow> Some (c, Panicked)
    | Some (m, bodyBuf) \<Rightarrow>
        (case ReadFull (len bodyBuf) r of (None, r) \<Rightarrow> Some (c\<lparr>rd := r\<rparr>, Closed)
         | (Some body, r) \<Rightarrow>
             Option.bind (request_in_slice W req (store_at bodyBuf 0 body m) bodyBuf (c\<lparr>rd := r\<rparr>)) k)) =
    (case ReadFull (nat (uint n)) r of (None, r) \<Rightarrow> Some (c\<lparr>rd := r\<rparr>, Closed)
     | (Some body, r) \<Rightarrow> Option.bind (binary_request W req body (c\<lparr>rd := r\<rparr>)) k)"
proof -
  obtain m s where b: "body_buffer stale (uint n) = Some (m, s)" "slice_ok m s" "len s = nat (uint n)"
    using body_buffer_Some[OF assms, of "uint n"] by auto
  obtain v r' where v: "ReadFull (nat (uint n)) r = (v, r')" by fastforce
  show ?thesis
  proof (cases v)
    case (Some body)
    then have "length body = len s" using ReadFull_spec[OF v] b(3) by (auto split: if_splits)
    then have "request_in_slice W req (store_at s 0 body m) s c' = binary_request W req body c'" for c'
      using b(2) by (simp add: request_in_slice_eq slice_ok_store contents_store_all)
    then show ?thesis using b v Some by simp
  qed (use b v in simp)
qed


lemma pooled_is_round:
  assumes "\<forall>j p. length (stale j p) = pool_size p"
  shows "(case ReadFull 24 (rd c) of
      (None, r) \<Rightarrow> Some (c\<lparr>rd := r\<rparr>, Closed)
    | (Some headerBuf, r) \<Rightarrow>
        (let c = c\<lparr>rd := r\<rparr>; req = parse_header headerBuf; bodyLen = uint (BodyLen req)
         in if Magic req \<noteq> reqMagic then Some (c, Closed)
            else if body_pool bodyLen = None \<and> \<not> make_ok W bodyLen then Some (c, Panicked)
            else (case body_buffer (stale j) bodyLen of
              None \<Rightarrow> Some (c, Panicked)
            | Some (m, bodyBuf) \<Rightarrow>
                (case ReadFull (len bodyBuf) (rd c) of
                  (None, r) \<Rightarrow> Some (c\<lparr>rd := r\<rparr>, Closed)
                | (Some body, r) \<Rightarrow> do {
                    (c, out) \<leftarrow> request_in_slice W req (store_at bodyBuf 0 body m) bodyBuf (c\<lparr>rd := r\<rparr>);
                    if out = Done then f W stale (j + 1) (flush_if_idle c) else Some (c, out)
                  })))) = binary_round W (f W stale (j + 1)) c"
proof -
  have "\<forall>p. length (stale j p) = pool_size p" using assms by simp
  note round = pooled_round[OF this]
  show ?thesis unfolding binary_round_def body_pool_None Let_def round by (rule refl)
qed

lemma handleBinary_round: "handleBinary W c = binary_round W (handleBinary W) c"
  by (subst handleBinary.simps) (simp add: binary_round_def)

lemma unpooled_to_pooled:
  assumes st: "\<forall>j p. length (stale j p) = pool_size p"
  shows "handleBinary W c = Some y \<Longrightarrow> handleBinary_pooled W stale j c = Some y"
proof (induction arbitrary: j rule: handleBinary.raw_induct[rotated, consumes 1, case_names round])
  case (round f W c y)
  have "binary_round W (f W) c = Some y"
    using round.hyps unfolding binary_round_def .
  from binary_round_mono[OF this, of "handleBinary_pooled W stale (j + 1)"] round.IH
  show ?case by (subst handleBinary_pooled.simps) (simp only: pooled_is_round[OF st])
qed

lemma pooled_to_unpooled:
  assumes st: "\<forall>j p. length (stale j p) = pool_size p"
  shows "handleBinary_pooled W st j c = Some y \<Longrightarrow> st = stale \<Longrightarrow> handleBinary W c = Some y"
proof (induction rule: handleBinary_pooled.raw_induct[rotated, consumes 1, case_names round])
  case (round f W st j c y)
  have "binary_round W (f W stale (j + 1)) c = Some y"
    using round.hyps by (simp only: pooled_is_round[OF st] round.prems)
  from binary_round_mono[OF this, of "handleBinary W"] round.IH
  show ?case by (subst handleBinary_round) simp
qed

lemma handleBinary_pooled_eq:
  assumes st: "\<forall>j p. length (stale j p) = pool_size p"
  shows "handleBinary_pooled W stale j c = handleBinary W c"
  using unpooled_to_pooled[OF st] pooled_to_unpooled[OF st]
  by (metis not_None_eq)

section \<open>Many connections and the pools\<close>

text \<open>
  The state shared by all connections: the arrays, the pools, and what each goroutine holds: a body
  buffer, and while it answers a get an extras buffer, each with the pool to return it to
  (\<open>poolToReturn\<close>) and the number of bytes filled in so far. \<^verbatim>\<open>io.ReadFull\<close> fills a buffer piece by
  piece, and anything can happen between two pieces, as between the last piece and the use, or the
  use and the return. A return can come at any time after the buffer was obtained, as it does when
  the body cannot be read.
\<close>

datatype role = Body | Extras

type_synonym holder = "nat \<times> role"

record Buffers =
  mem :: memory
  pool :: "pool_id \<Rightarrow> Slice list"
  task :: "holder \<Rightarrow> (pool_id option \<times> Slice \<times> nat) option"

datatype buffer_label = Got holder "pool_id option" nat | Wrote holder bytes
  | Returned holder | Collected pool_id

definition no_buffers :: Buffers where
  "no_buffers = \<lparr>mem = (\<lambda>a. []), pool = (\<lambda>p. []), task = (\<lambda>h. None)\<rparr>"

definition pooled_arrays :: "Buffers \<Rightarrow> nat multiset" where
  "pooled_arrays s = mset (map arr (pool s ExtrasPool @ pool s SmallBodyPool @ pool s MediumBodyPool))"

definition held_array :: "Buffers \<Rightarrow> holder \<Rightarrow> nat option" where
  "held_array s h = map_option (\<lambda>(_, b, _). arr b) (task s h)"

text \<open>An array that nobody refers to; a new array has one of these addresses and is zeroed.\<close>

definition unreferenced :: "Buffers \<Rightarrow> nat \<Rightarrow> bool" where
  "unreferenced s a \<longleftrightarrow> a \<notin># pooled_arrays s \<and> (\<forall>h. held_array s h \<noteq> Some a)"

definition hold :: "holder \<Rightarrow> pool_id option \<Rightarrow> Slice \<Rightarrow> Buffers \<Rightarrow> Buffers" where
  "hold h q b s = s\<lparr>task := (task s)(h := Some (q, b, 0))\<rparr>"

definition new_array :: "nat \<Rightarrow> nat \<Rightarrow> Buffers \<Rightarrow> Buffers" where
  "new_array a n s = s\<lparr>mem := (mem s)(a := replicate n (CHR 0x00))\<rparr>"

inductive buffer_step :: "Buffers \<Rightarrow> buffer_label \<Rightarrow> Buffers \<Rightarrow> bool" where
  get: "task s h = None \<Longrightarrow> b \<in> set (pool s p) \<Longrightarrow> slice_to n b = Some b' \<Longrightarrow>
    buffer_step s (Got h (Some p) n) (hold h (Some p) b' (s\<lparr>pool := (pool s)(p := remove1 b (pool s p))\<rparr>))"
| get_new: "task s h = None \<Longrightarrow> unreferenced s a \<Longrightarrow> slice_to n (whole a (pool_size p)) = Some b' \<Longrightarrow>
    buffer_step s (Got h (Some p) n) (hold h (Some p) b' (new_array a (pool_size p) s))"
| make: "task s h = None \<Longrightarrow> unreferenced s a \<Longrightarrow>
    buffer_step s (Got h None n) (hold h None (whole a n) (new_array a n s))"
| write_some: "task s h = Some (q, b, i) \<Longrightarrow> i + length bs \<le> len b \<Longrightarrow>
    buffer_step s (Wrote h bs)
      (s\<lparr>mem := store_at b i bs (mem s), task := (task s)(h := Some (q, b, i + length bs))\<rparr>)"
| put: "task s h = Some (Some p, b, i) \<Longrightarrow> slice_to (cap b) b = Some b' \<Longrightarrow>
    buffer_step s (Returned h) (s\<lparr>pool := (pool s)(p := b' # pool s p), task := (task s)(h := None)\<rparr>)"
| leave: "task s h = Some (None, b, i) \<Longrightarrow>
    buffer_step s (Returned h) (s\<lparr>task := (task s)(h := None)\<rparr>)"
| collect: "b \<in> set (pool s p) \<Longrightarrow>
    buffer_step s (Collected p) (s\<lparr>pool := (pool s)(p := remove1 b (pool s p))\<rparr>)"

text \<open>What a holder has written into its buffer since it got it, as the labels tell it.\<close>

fun filled_step :: "holder \<Rightarrow> buffer_label \<Rightarrow> bytes \<Rightarrow> bytes" where
  "filled_step h (Got g q n) w = (if g = h then [] else w)"
| "filled_step h (Wrote g bs) w = (if g = h then w @ bs else w)"
| "filled_step h l w = w"

definition filled :: "holder \<Rightarrow> buffer_label list \<Rightarrow> bytes" where
  "filled h tr = fold (filled_step h) tr []"

lemma filled_snoc: "filled h (tr @ [l]) = filled_step h l (filled h tr)"
  by (simp add: filled_def)

section \<open>A buffer is in one place\<close>

lemma hold_fields [simp]:
  "mem (hold h q b s) = mem s" "pool (hold h q b s) = pool s"
  "task (hold h q b s) = (task s)(h := Some (q, b, 0))"
  "mem (new_array a n s) = (mem s)(a := replicate n (CHR 0x00))" "pool (new_array a n s) = pool s"
  "task (new_array a n s) = task s"
  by (simp_all add: hold_def new_array_def)

lemma pooled_arrays_remove:
  "b \<in> set (pool s p) \<Longrightarrow>
   pooled_arrays (s\<lparr>pool := (pool s)(p := remove1 b (pool s p))\<rparr>) = pooled_arrays s - {#arr b#} \<and>
   arr b \<in># pooled_arrays s"
  by (cases p) (auto simp: pooled_arrays_def image_mset_Diff)

lemma pooled_arrays_add:
  "pooled_arrays (s\<lparr>pool := (pool s)(p := b # pool s p)\<rparr>) = add_mset (arr b) (pooled_arrays s)"
  by (cases p) (auto simp: pooled_arrays_def)

lemma arrays_fields [simp]:
  "pooled_arrays (hold h q b s) = pooled_arrays s" "pooled_arrays (new_array a n s) = pooled_arrays s"
  "pooled_arrays (s\<lparr>mem := m\<rparr>) = pooled_arrays s" "pooled_arrays (s\<lparr>task := t\<rparr>) = pooled_arrays s"
  "held_array (hold h q b s) = (held_array s)(h := Some (arr b))" "held_array (new_array a n s) = held_array s"
  "held_array (s\<lparr>pool := f\<rparr>) = held_array s"
  "held_array (s\<lparr>pool := f, task := (task s)(h := None)\<rparr>) = (held_array s)(h := None)"
  "held_array (s\<lparr>task := (task s)(h := None)\<rparr>) = (held_array s)(h := None)"
  by (auto simp: pooled_arrays_def held_array_def)

lemma pooled_arrays_both: "pooled_arrays (s\<lparr>pool := f, task := t\<rparr>) = pooled_arrays (s\<lparr>pool := f\<rparr>)"
  by (simp add: pooled_arrays_def)

lemma held_array_task: "task s h = Some (q, b, i) \<Longrightarrow> held_array s h = Some (arr b)"
  by (simp add: held_array_def)

lemma held_array_none: "task s h = None \<Longrightarrow> held_array s h = None"
  by (simp add: held_array_def)

lemma slice_to_fields:
  "slice_to n b = Some b' \<Longrightarrow> arr b' = arr b \<and> off b' = off b \<and> len b' = n \<and> cap b' = cap b \<and> n \<le> cap b"
  by (auto simp: slice_to_def split: if_splits)

lemma whole_fields [simp]: "arr (whole a n) = a" "off (whole a n) = 0" "len (whole a n) = n" "cap (whole a n) = n"
  by (simp_all add: whole_def)

lemma buffer_moves:
  "buffer_step s l s' \<Longrightarrow> pool_move (pooled_arrays s) (held_array s) (pooled_arrays s') (held_array s')"
proof (induction rule: buffer_step.induct)
  case (get s h b p n b')
  have "arr b' = arr b" using slice_to_fields[OF get(3)] by simp
  then show ?case
    using pooled_arrays_remove[OF get(2)] pool_move.reuse[of "held_array s" h "arr b" "pooled_arrays s"]
      held_array_none[OF get(1)]
    by (simp del: fun_upd_apply)
next
  case (get_new s h a n p b')
  then show ?case
    using slice_to_fields[OF get_new(3)] pool_move.allocate[of "held_array s" h a "pooled_arrays s"]
      held_array_none[OF get_new(1)]
    by (simp add: unreferenced_def del: fun_upd_apply)
next
  case (make s h a n)
  then show ?case
    using pool_move.allocate[of "held_array s" h a "pooled_arrays s"] held_array_none[OF make(1)]
    by (simp add: unreferenced_def del: fun_upd_apply)
next
  case (write_some s h q b i bs)
  have "held_array (s\<lparr>mem := store_at b i bs (mem s), task := (task s)(h := Some (q, b, i + length bs))\<rparr>) = held_array s"
    using write_some(1) by (auto simp: held_array_def)
  then show ?case by (simp add: pool_move.stay)
next
  case (put s h p b i b')
  note h = held_array_task[OF put(1)]
  show ?case
    using pool_move.give_back[where H = "held_array s" and F = "pooled_arrays s", OF h] slice_to_fields[OF put(2)]
      pooled_arrays_add[of s p b']
    by (simp add: pooled_arrays_both del: fun_upd_apply)
next
  case (leave s h b i)
  then show ?case
    using pool_move.abandon[of "held_array s" h "arr b" "pooled_arrays s"]
    by (simp add: held_array_task del: fun_upd_apply)
next
  case (collect b s p)
  then show ?case using pooled_arrays_remove[OF collect] pool_move.collect by simp
qed

interpretation buffers: pooled buffer_step pooled_arrays held_array
  by unfold_locales (rule buffer_moves)

text \<open>Every pooled array is whole and of its pool's size; every held one is large enough.\<close>

definition sized :: "Buffers \<Rightarrow> bool" where
  "sized s \<longleftrightarrow>
    (\<forall>p. \<forall>b \<in> set (pool s p). b = whole (arr b) (pool_size p) \<and> length (mem s (arr b)) = pool_size p) \<and>
    (\<forall>h q b i. task s h = Some (q, b, i) \<longrightarrow> off b = 0 \<and> i \<le> len b \<and> len b \<le> cap b \<and>
      length (mem s (arr b)) = cap b \<and> (\<forall>p. q = Some p \<longrightarrow> cap b = pool_size p))"

definition buffers_inv :: "buffer_label list \<Rightarrow> Buffers \<Rightarrow> bool" where
  "buffers_inv tr s \<longleftrightarrow> buffers.owned s \<and> sized s \<and>
    (\<forall>h q b i. task s h = Some (q, b, i) \<longrightarrow> take i (mem s (arr b)) = filled h tr)"

lemma buffers_inv_start: "buffers_inv [] no_buffers"
  by (simp add: buffers_inv_def buffers.owned_def sized_def no_buffers_def pooled_arrays_def held_array_def exclusive_def)

lemma sizedD:
  assumes "sized s"
  shows "b \<in> set (pool s p) \<Longrightarrow> off b = 0 \<and> len b = pool_size p \<and> cap b = pool_size p \<and> length (mem s (arr b)) = pool_size p"
    and "task s h = Some (q, b, i) \<Longrightarrow> off b = 0 \<and> i \<le> len b \<and> len b \<le> cap b \<and> length (mem s (arr b)) = cap b \<and>
      (\<forall>p. q = Some p \<longrightarrow> cap b = pool_size p)"
  using assms whole_fields[of "arr b" "pool_size p"] unfolding sized_def by (metis, blast)

lemma pooled_in:
  "b \<in> set (pool s p) \<Longrightarrow> arr b \<in># pooled_arrays s"
  by (cases p) (auto simp: pooled_arrays_def)

lemma unreferencedD:
  assumes "unreferenced s a"
  shows "b \<in> set (pool s p) \<Longrightarrow> arr b \<noteq> a" "task s h = Some (q, b, i) \<Longrightarrow> arr b \<noteq> a"
  using assms pooled_in[of b s p] held_array_task[of s h q b i] unfolding unreferenced_def by (blast, metis)

lemma sized_new: "sized s \<Longrightarrow> unreferenced s a \<Longrightarrow> sized (new_array a n s)"
  unfolding sized_def by (auto dest: unreferencedD)

lemma sized_hold:
  "sized s \<Longrightarrow> off b = 0 \<Longrightarrow> len b \<le> cap b \<Longrightarrow> length (mem s (arr b)) = cap b \<Longrightarrow>
   (\<And>p. q = Some p \<Longrightarrow> cap b = pool_size p) \<Longrightarrow> sized (hold h q b s)"
  by (auto simp: sized_def)

lemma sized_remove: "sized s \<Longrightarrow> sized (s\<lparr>pool := (pool s)(p := remove1 b (pool s p))\<rparr>)"
  by (auto simp: sized_def dest: notin_set_remove1)

lemma sized_step: "buffer_step s l s' \<Longrightarrow> sized s \<Longrightarrow> sized s'"
proof (induction rule: buffer_step.induct)
  case (get s h b p n b')
  note b = sizedD(1)[OF get.prems get(2)] and b' = slice_to_fields[OF get(3)]
  show ?case by (rule sized_hold[OF sized_remove[OF get.prems]]) (use b b' in auto)
next
  case (get_new s h a n p b')
  note b' = slice_to_fields[OF get_new(3)]
  show ?case by (rule sized_hold[OF sized_new[OF get_new.prems get_new(2)]]) (use b' in auto)
next
  case (make s h a n)
  show ?case by (rule sized_hold[OF sized_new[OF make.prems make(2)]]) auto
next
  case (write_some s h q b i bs)
  have "length (store_at b i bs (mem s) a) = length (mem s a)" for a
    using sizedD(2)[OF write_some.prems write_some(1)] write_some(2) by (auto simp: store_at_def)
  then show ?case using write_some sizedD(2)[OF write_some.prems write_some(1)] by (auto simp: sized_def)
next
  case (put s h p b i b')
  have "b' = whole (arr b') (pool_size p)" "length (mem s (arr b')) = pool_size p"
    using sizedD(2)[OF put.prems put(1)] slice_to_fields[OF put(2)] by (auto simp: whole_def)
  then show ?case using put.prems by (auto simp: sized_def)
next
  case (leave s h b i)
  then show ?case by (auto simp: sized_def)
next
  case (collect b s p)
  then show ?case by (simp add: sized_remove)
qed

lemma buffers_inv_step:
  assumes inv: "buffers_inv tr s" and st: "buffer_step s l s'"
  shows "buffers_inv (tr @ [l]) s'"
proof -
  have own: "buffers.owned s" and sz: "sized s"
    and f: "task s h = Some (q, b, i) \<Longrightarrow> take i (mem s (arr b)) = filled h tr" for h q b i
    using inv unfolding buffers_inv_def by blast+
  have "\<forall>h q b i. task s' h = Some (q, b, i) \<longrightarrow> take i (mem s' (arr b)) = filled h (tr @ [l])"
    using st
  proof (cases rule: buffer_step.cases)
    case (write_some h q b i bs)
    have other: "arr b' \<noteq> arr b" if "task s h' = Some (q', b', i')" "h' \<noteq> h" for h' q' b' i'
      using buffers.one_holder[OF own held_array_task[OF that(1)], of h] held_array_task[OF write_some(3)] that(2) by auto
    note d = sizedD(2)[OF sz write_some(3)]
    have "take (i + length bs) (store_at b i bs (mem s) (arr b)) = filled h tr @ bs"
      using d write_some(4) by (simp add: store_at_def min_absorb2 flip: f[OF write_some(3)])
    then show ?thesis using write_some f other by (auto simp: filled_snoc store_at_def)
  qed (use f in \<open>auto simp: filled_snoc dest: unreferencedD\<close>)
  then show ?thesis using buffers.owned_step[OF own st] sized_step[OF st sz] by (simp add: buffers_inv_def)
qed

lemma buffers_inv_runs: "runs buffer_step no_buffers tr s \<Longrightarrow> buffers_inv tr s"
  by (induction rule: runs.induct) (simp_all add: buffers_inv_start buffers_inv_step)

section \<open>Properties\<close>

text \<open>
  C13. The body buffers and extras buffers come from pools with the bytes of earlier requests in
  them, longer than what is asked for, and slice expressions can reach into those bytes. Whatever
  the buffers hold, the loop on pooled buffers does exactly what it does on bodies given as
  values: the same responses, effects, panics and end.
\<close>

theorem pooled_buffers_invisible:
  assumes "\<forall>j p. length (stale j p) = pool_size p"
  shows "handleBinary_pooled W stale j c = handleBinary W c \<and>
    pooled_extras (stale j ExtrasPool) flags = flag_extras flags"
proof
  have "length (stale j ExtrasPool) = 4" using assms by simp
  then obtain x y z w where "stale j ExtrasPool = [x, y, z, w]" by (auto simp: numeral_eq_Suc length_Suc_conv)
  then show "pooled_extras (stale j ExtrasPool) flags = flag_extras flags"
    by (simp add: pooled_extras_def flag_extras_def)
qed (rule handleBinary_pooled_eq[OF assms])

theorem pooled_buffers_invisible_witness:
  "handleBinary_pooled quiet_world (\<lambda>j p. replicate (pool_size p) (CHR ''x'')) 0 (client [''abc'']) =
   handleBinary quiet_world (client [''abc'']) \<and> pooled_extras ''xxxx'' 3 = flag_extras 3"
  using pooled_buffers_invisible[of "\<lambda>j p. replicate (pool_size p) (CHR ''x'')" quiet_world 0 "client [''abc'']" 3]
  by (simp add: numeral_eq_Suc)

text \<open>
  C14. However connections get, fill and return buffers at the same time, no array is with two of
  them, or with one and in a pool; the pools hold arrays of their sizes, so that cutting one to
  the length of a body cannot panic; and a connection that has read the whole body of its request
  handles the request as the bytes it has read itself.
\<close>

theorem buffers_are_exclusive:
  assumes r: "runs buffer_step no_buffers tr s" and t: "task s h = Some (q, b, i)"
  shows "(i = len b \<longrightarrow> request_in_slice W req (mem s) b c = binary_request W req (filled h tr) c) \<and>
    (\<forall>g. held_array s g = Some (arr b) \<longrightarrow> g = h) \<and>
    (\<forall>p. \<forall>d \<in> set (pool s p). arr d \<noteq> arr b \<and> length (mem s (arr d)) = pool_size p \<and>
      (\<forall>n \<le> pool_size p. slice_to n d \<noteq> None))"
proof (intro conjI allI impI ballI)
  have own: "buffers.owned s" and sz: "sized s" and f: "take i (mem s (arr b)) = filled h tr"
    using buffers_inv_runs[OF r] t unfolding buffers_inv_def by blast+
  note b = sizedD(2)[OF sz t] and a = held_array_task[OF t]
  {
    assume "i = len b"
    with b f have "contents (mem s) b = filled h tr" "slice_ok (mem s) b" by (simp_all add: contents_def slice_ok_def)
    then show "request_in_slice W req (mem s) b c = binary_request W req (filled h tr) c"
      by (simp add: request_in_slice_eq)
  next
    fix g assume "held_array s g = Some (arr b)"
    then show "g = h" using buffers.one_holder[OF own _ a] by blast
  next
    fix p d assume d: "d \<in> set (pool s p)"
    show "arr d \<noteq> arr b" using buffers.not_free[OF own a] pooled_in[of d s p] d by auto
    show "length (mem s (arr d)) = pool_size p" using sizedD(1)[OF sz d] by simp
    fix n assume "n \<le> pool_size p"
    then show "slice_to n d \<noteq> None" using sizedD(1)[OF sz d] by (simp add: slice_to_def)
  }
qed

text \<open>One connection returns a buffer with two bytes in it, another one gets it and reads one byte.\<close>

definition reuse_trace :: "buffer_label list" where
  "reuse_trace = [Got (0, Body) (Some SmallBodyPool) 2, Wrote (0, Body) ''ab'', Returned (0, Body),
     Got (1, Body) (Some SmallBodyPool) 1, Wrote (1, Body) ''c'']"

lemma reuse_run:
  "\<exists>s b. runs buffer_step no_buffers reuse_trace s \<and> task s (1, Body) = Some (Some SmallBodyPool, b, 1) \<and> len b = 1"
proof -
  let ?w = "\<lambda>n. (whole 0 1024)\<lparr>len := n\<rparr>"
  let ?s1 = "hold (0, Body) (Some SmallBodyPool) (?w 2) (new_array 0 1024 no_buffers)"
  let ?s2 = "?s1\<lparr>mem := store_at (?w 2) 0 ''ab'' (mem ?s1),
    task := (task ?s1)((0, Body) := Some (Some SmallBodyPool, ?w 2, 0 + length ''ab''))\<rparr>"
  let ?s3 = "?s2\<lparr>pool := (pool ?s2)(SmallBodyPool := whole 0 1024 # pool ?s2 SmallBodyPool), task := (task ?s2)((0, Body) := None)\<rparr>"
  let ?s4 = "hold (1, Body) (Some SmallBodyPool) (?w 1)
    (?s3\<lparr>pool := (pool ?s3)(SmallBodyPool := remove1 (whole 0 1024) (pool ?s3 SmallBodyPool))\<rparr>)"
  let ?s5 = "?s4\<lparr>mem := store_at (?w 1) 0 ''c'' (mem ?s4),
    task := (task ?s4)((1, Body) := Some (Some SmallBodyPool, ?w 1, 0 + length ''c''))\<rparr>"
  have w: "slice_to n (whole 0 1024) = Some (?w n)" if "n \<le> 1024" for n using that by (simp add: slice_to_def)
  have 1: "buffer_step no_buffers (Got (0, Body) (Some SmallBodyPool) 2) ?s1"
    using buffer_step.get_new[of no_buffers "(0, Body)" 0 2 SmallBodyPool "?w 2"] w[of 2]
    by (simp add: no_buffers_def unreferenced_def pooled_arrays_def held_array_def)
  have 2: "buffer_step ?s1 (Wrote (0, Body) ''ab'') ?s2" by (rule buffer_step.write_some) simp_all
  have 3: "buffer_step ?s2 (Returned (0, Body)) ?s3"
    by (rule buffer_step.put[where b = "?w 2"]) (simp_all add: slice_to_def whole_def)
  have 4: "buffer_step ?s3 (Got (1, Body) (Some SmallBodyPool) 1) ?s4"
    by (rule buffer_step.get) (simp_all add: no_buffers_def w)
  have 5: "buffer_step ?s4 (Wrote (1, Body) ''c'') ?s5" by (rule buffer_step.write_some) simp_all
  have "runs buffer_step no_buffers reuse_trace ?s5"
    unfolding reuse_trace_def
    by (rule runs_step_first, rule 1, rule runs_step_first, rule 2, rule runs_step_first, rule 3,
        rule runs_step_first, rule 4, rule runs_one, rule 5)
  then show ?thesis by (intro exI[of _ ?s5] exI[of _ "?w 1"]) simp
qed

theorem buffers_are_exclusive_witness:
  "\<exists>s b. runs buffer_step no_buffers reuse_trace s \<and> (\<forall>W req c.
    request_in_slice W req (mem s) b c = binary_request W req ''c'' c)"
proof -
  obtain s b where r: "runs buffer_step no_buffers reuse_trace s"
    and t: "task s (1, Body) = Some (Some SmallBodyPool, b, 1)" and l: "len b = 1" using reuse_run by blast
  have "filled (1, Body) reuse_trace = ''c''" by (simp add: filled_def reuse_trace_def)
  then have "request_in_slice W req (mem s) b c = binary_request W req ''c'' c" for W req c
    using buffers_are_exclusive[OF r t, of W req c] l by simp
  then show ?thesis using r by blast
qed

end
