(* ===== verification/GoFlag.thy ===== *)
theory GoFlag
  imports GoStrconv
begin

text \<open>
  Go's \<^verbatim>\<open>flag\<close> package: the parser of the command line. \<open>parseOne\<close> takes one flag with its value
  from the front of the arguments, \<open>flag_Parse\<close> repeats it until an argument that is not a flag. A
  set of flags is a record: which names are defined (several may stand for one variable), which
  variables are boolean, and how a variable is set from a text, which may fail. Integers and
  booleans are read as the package reads them: an integer may have a base prefix and underscores
  between its digits (\<open>strconv.ParseInt\<close> with base zero).
\<close>

section \<open>Numbers and booleans\<close>

text \<open>\<open>c | ('x' - 'X')\<close>, and the value of a digit or letter.\<close>

definition lower :: "char \<Rightarrow> int" where
  "lower c = or (of_char c) 32"

definition digit_value :: "char \<Rightarrow> int option" where
  "digit_value c =
    (if is_digit c then Some (digit_of c)
     else if 97 \<le> lower c \<and> lower c \<le> 122 then Some (lower c - 97 + 10) else None)"

text \<open>The base that a prefix selects, and what follows the prefix.\<close>

definition base_prefix :: "string \<Rightarrow> int \<times> string" where
  "base_prefix s =
    (if s ! 0 = CHR ''0'' then
       (if length s \<ge> 3 \<and> lower (s ! 1) = 98 then (2, drop 2 s)
        else if length s \<ge> 3 \<and> lower (s ! 1) = 111 then (8, drop 2 s)
        else if length s \<ge> 3 \<and> lower (s ! 1) = 120 then (16, drop 2 s)
        else (8, drop 1 s))
     else (10, s))"

text \<open>The digits; the flag tells whether there were underscores.\<close>

fun parse_based :: "int \<Rightarrow> int \<Rightarrow> bool \<Rightarrow> string \<Rightarrow> num_error + int \<times> bool" where
  "parse_based base n u [] = Inr (n, u)"
| "parse_based base n u (c # cs) =
    (if c = CHR ''_'' then parse_based base n True cs
     else case digit_value c of
       None \<Rightarrow> Inl ErrSyntax
     | Some d \<Rightarrow>
         if d \<ge> base then Inl ErrSyntax
         else let n' = n * base + d
              in if n' > 2 ^ 64 - 1 then Inl ErrRange else parse_based base n' u cs)"

text \<open>
  \<open>underscoreOK\<close>: an underscore must stand between digits, or between the prefix and a digit.
  \<open>saw\<close> is the kind of the last character: the start, a digit, an underscore, something else.
\<close>

fun underscore_scan :: "bool \<Rightarrow> char \<Rightarrow> string \<Rightarrow> bool" where
  "underscore_scan hex saw [] = (saw \<noteq> CHR ''_'')"
| "underscore_scan hex saw (c # cs) =
    (if is_digit c \<or> hex \<and> 97 \<le> lower c \<and> lower c \<le> 102 then underscore_scan hex (CHR ''0'') cs
     else if c = CHR ''_'' then saw = CHR ''0'' \<and> underscore_scan hex (CHR ''_'') cs
     else saw \<noteq> CHR ''_'' \<and> underscore_scan hex (CHR ''!'') cs)"

definition underscoreOK :: "string \<Rightarrow> bool" where
  "underscoreOK s =
    (if length s \<ge> 2 \<and> s ! 0 = CHR ''0'' \<and> lower (s ! 1) \<in> {98, 111, 120}
     then underscore_scan (lower (s ! 1) = 120) (CHR ''0'') (drop 2 s)
     else underscore_scan False (CHR ''^'') s)"

text \<open>\<open>strconv.ParseInt(s, 0, 64)\<close>; the sign has been removed before \<open>ParseUint\<close> is called.\<close>

definition ParseUint0 :: "string \<Rightarrow> num_error + int" where
  "ParseUint0 s =
    (if s = [] then Inl ErrSyntax
     else case base_prefix s of (base, digits) \<Rightarrow>
       (case parse_based base 0 False digits of
          Inl e \<Rightarrow> Inl e
        | Inr (n, u) \<Rightarrow> if u \<and> \<not> underscoreOK s then Inl ErrSyntax else Inr n))"

definition ParseInt0 :: "string \<Rightarrow> num_error + int" where
  "ParseInt0 s =
    (case s of
      [] \<Rightarrow> Inl ErrSyntax
    | c # cs \<Rightarrow>
        (let neg = (c = CHR ''-'')
         in case ParseUint0 (if c = CHR ''+'' \<or> neg then cs else s) of
              Inl e \<Rightarrow> Inl e
            | Inr un \<Rightarrow>
                if \<not> neg \<and> un \<ge> 2 ^ 63 \<or> neg \<and> un > 2 ^ 63 then Inl ErrRange
                else Inr (if neg then - un else un)))"

definition ParseBool :: "string \<Rightarrow> bool option" where
  "ParseBool s =
    (if s \<in> {''1'', ''t'', ''T'', ''true'', ''TRUE'', ''True''} then Some True
     else if s \<in> {''0'', ''f'', ''F'', ''false'', ''FALSE'', ''False''} then Some False
     else None)"

section \<open>The parser\<close>

record ('v, 's) FlagSet =
  formal :: "string \<Rightarrow> 'v option"
  IsBoolFlag :: "'v \<Rightarrow> bool"
  set_value :: "'v \<Rightarrow> string \<Rightarrow> 's \<Rightarrow> 's option"

datatype flag_error = ErrHelp | BadSyntax string | NotDefined string | NeedsArgument string
  | InvalidValue string string

datatype 's parsed = Seen "string list" 's | NoFlag "string list" | Failed flag_error

text \<open>The name and the value after an equals sign, which is not looked for at the first place.\<close>

definition split_flag :: "string \<Rightarrow> string \<times> string option" where
  "split_flag name =
    (let r = takeWhile (\<lambda>c. c \<noteq> CHR ''='') (tl name); v = dropWhile (\<lambda>c. c \<noteq> CHR ''='') (tl name)
     in (hd name # r, if v = [] then None else Some (tl v)))"

definition set_flag :: "('v, 's) FlagSet \<Rightarrow> 'v \<Rightarrow> string \<Rightarrow> string \<Rightarrow> string list \<Rightarrow> 's \<Rightarrow> 's parsed" where
  "set_flag F v name val args st =
    (case set_value F v val st of Some st' \<Rightarrow> Seen args st' | None \<Rightarrow> Failed (InvalidValue val name))"

definition parse_named :: "('v, 's) FlagSet \<Rightarrow> string \<Rightarrow> string list \<Rightarrow> 's \<Rightarrow> 's parsed" where
  "parse_named F arg args st =
    (case split_flag arg of (name, val) \<Rightarrow>
       (case formal F name of
          None \<Rightarrow> Failed (if name = ''help'' \<or> name = ''h'' then ErrHelp else NotDefined name)
        | Some v \<Rightarrow>
            if IsBoolFlag F v then set_flag F v name (case val of Some s \<Rightarrow> s | None \<Rightarrow> ''true'') args st
            else (case val of
              Some s \<Rightarrow> set_flag F v name s args st
            | None \<Rightarrow>
                (case args of [] \<Rightarrow> Failed (NeedsArgument name) | s # rest \<Rightarrow> set_flag F v name s rest st))))"

definition parseOne :: "('v, 's) FlagSet \<Rightarrow> string list \<Rightarrow> 's \<Rightarrow> 's parsed" where
  "parseOne F args st =
    (case args of
      [] \<Rightarrow> NoFlag []
    | s # rest \<Rightarrow>
        if length s < 2 \<or> s ! 0 \<noteq> CHR ''-'' then NoFlag args
        else if s = ''--'' then NoFlag rest
        else let name = (if s ! 1 = CHR ''-'' then drop 2 s else drop 1 s)
             in if name = [] \<or> hd name = CHR ''-'' \<or> hd name = CHR ''='' then Failed (BadSyntax s)
                else parse_named F name rest st)"

text \<open>A flag takes at least one argument.\<close>

lemma set_flag_Seen: "set_flag F v name val args st = Seen args' st' \<Longrightarrow> args' = args"
  by (auto simp: set_flag_def split: option.splits)

lemma parse_named_consumes: "parse_named F text args st = Seen args' st' \<Longrightarrow> length args' \<le> length args"
  by (auto simp: parse_named_def dest!: set_flag_Seen split: prod.splits option.splits if_splits list.splits)

lemma parseOne_consumes: "parseOne F args st = Seen args' st' \<Longrightarrow> length args' < length args"
  by (auto simp: parseOne_def Let_def dest!: parse_named_consumes split: list.splits if_splits)

function flag_Parse :: "('v, 's) FlagSet \<Rightarrow> string list \<Rightarrow> 's \<Rightarrow> flag_error + 's \<times> string list" where
  "flag_Parse F args st =
    (case parseOne F args st of
      Seen args' st' \<Rightarrow> flag_Parse F args' st'
    | NoFlag rest \<Rightarrow> Inr (st, rest)
    | Failed e \<Rightarrow> Inl e)"
  by auto

termination flag_Parse
  by (relation "measure (\<lambda>(F, args, st). length args)") (auto dest: parseOne_consumes)

declare flag_Parse.simps [simp del]

text \<open>With \<open>flag.ExitOnError\<close>, the mode of the command line: the exit code of the process.\<close>

fun exit_code :: "flag_error \<Rightarrow> int" where
  "exit_code ErrHelp = 0"
| "exit_code e = 2"

section \<open>Laws\<close>

text \<open>A flag as it is written: one dash or two, the value in the same argument or in the next.\<close>

definition written_flag :: "bool \<Rightarrow> bool \<Rightarrow> string \<Rightarrow> string \<Rightarrow> string list" where
  "written_flag dd joined name val =
    (let d = (if dd then ''--'' else ''-'')
     in if joined then [d @ name @ CHR ''='' # val] else [d @ name, val])"

definition flag_name :: "string \<Rightarrow> bool" where
  "flag_name name \<longleftrightarrow> name \<noteq> [] \<and> hd name \<noteq> CHR ''-'' \<and> CHR ''='' \<notin> set name"

lemma flag_nameE:
  assumes "flag_name name"
  obtains c cs where "name = c # cs" "c \<noteq> CHR ''-''" "c \<noteq> CHR ''=''" "\<forall>d \<in> set cs. d \<noteq> CHR ''=''"
  using assms by (cases name) (auto simp: flag_name_def)

lemma split_flag_plain:
  assumes "flag_name name"
  shows "split_flag name = (name, None)"
  using assms
proof (rule flag_nameE)
  fix c cs assume "name = c # cs" and n: "\<forall>d \<in> set cs. d \<noteq> CHR ''=''"
  moreover have "takeWhile (\<lambda>c. c \<noteq> CHR ''='') cs = cs" "dropWhile (\<lambda>c. c \<noteq> CHR ''='') cs = []"
    using n unfolding takeWhile_eq_all_conv dropWhile_eq_Nil_conv by simp_all
  ultimately show ?thesis by (simp add: split_flag_def)
qed

lemma split_flag_joined:
  assumes "flag_name name"
  shows "split_flag (name @ CHR ''='' # val) = (name, Some val)"
  using assms
proof (rule flag_nameE)
  fix c cs assume "name = c # cs" and n: "\<forall>d \<in> set cs. d \<noteq> CHR ''=''"
  then show ?thesis
    using takeWhile_append2[of cs "\<lambda>c. c \<noteq> CHR ''=''" "CHR ''='' # val"]
      dropWhile_append2[of cs "\<lambda>c. c \<noteq> CHR ''=''" "CHR ''='' # val"]
    by (simp add: split_flag_def)
qed

lemma parseOne_dash:
  assumes "arg \<noteq> []" and "hd arg \<noteq> CHR ''-''" and "hd arg \<noteq> CHR ''=''"
  shows "parseOne F (((if dd then ''--'' else ''-'') @ arg) # rest) st = parse_named F arg rest st"
  using assms by (cases arg) (auto simp: parseOne_def Let_def)

lemma parseOne_written:
  assumes n: "flag_name name" and f: "formal F name = Some v" and j: "IsBoolFlag F v \<Longrightarrow> joined"
  shows "parseOne F (written_flag dd joined name val @ rest) st = set_flag F v name val rest st"
proof -
  have t: "name @ u \<noteq> []" "hd (name @ u) \<noteq> CHR ''-''" "hd (name @ u) \<noteq> CHR ''=''" for u
    by (rule flag_nameE[OF n], simp)+
  show ?thesis
  proof (cases joined)
    case True
    then show ?thesis
      using parseOne_dash[OF t[of "CHR ''='' # val"], of F dd rest st] f split_flag_joined[OF n, of val]
      by (simp add: written_flag_def Let_def parse_named_def)
  next
    case False
    then have "\<not> IsBoolFlag F v" using j by blast
    with False show ?thesis
      using parseOne_dash[OF t[of "[]"], of F dd "val # rest" st] f split_flag_plain[OF n]
      by (simp add: written_flag_def Let_def parse_named_def)
  qed
qed

lemma parse_written:
  assumes "flag_name name" and "formal F name = Some v" and "set_value F v val st = Some st'" and "IsBoolFlag F v \<Longrightarrow> joined"
  shows "flag_Parse F (written_flag dd joined name val @ rest) st = flag_Parse F rest st'"
  by (subst flag_Parse.simps) (simp add: parseOne_written[OF assms(1,2,4)] set_flag_def assms(3))

text \<open>The ways in which a well-formed flag fails.\<close>

lemma parse_undefined:
  assumes "flag_name name" and "formal F name = None"
  shows "flag_Parse F ((((if dd then ''--'' else ''-'') @ name)) # rest) st =
    Inl (if name = ''help'' \<or> name = ''h'' then ErrHelp else NotDefined name)"
proof -
  have "name \<noteq> []" "hd name \<noteq> CHR ''-''" "hd name \<noteq> CHR ''=''" by (rule flag_nameE[OF assms(1)], simp)+
  from parseOne_dash[OF this, of F dd rest st] show ?thesis
    using assms(2) split_flag_plain[OF assms(1)] by (simp add: flag_Parse.simps[of F "_ # rest"] parse_named_def)
qed

lemma parse_no_value:
  assumes "flag_name name" and "formal F name = Some v" and "\<not> IsBoolFlag F v"
  shows "flag_Parse F [(if dd then ''--'' else ''-'') @ name] st = Inl (NeedsArgument name)"
proof -
  have "name \<noteq> []" "hd name \<noteq> CHR ''-''" "hd name \<noteq> CHR ''=''" by (rule flag_nameE[OF assms(1)], simp)+
  from parseOne_dash[OF this, of F dd "[]" st] show ?thesis
    using assms(2,3) split_flag_plain[OF assms(1)] by (simp add: flag_Parse.simps[of F "[_]"] parse_named_def)
qed

lemma parse_bad_value:
  assumes "flag_name name" and "formal F name = Some v" and "set_value F v val st = None" and "IsBoolFlag F v \<Longrightarrow> joined"
  shows "flag_Parse F (written_flag dd joined name val @ rest) st = Inl (InvalidValue val name)"
  by (subst flag_Parse.simps) (simp add: parseOne_written[OF assms(1,2,4)] set_flag_def assms(3))

text \<open>A sequence of settings: how each is written, its name and its value.\<close>

type_synonym setting = "bool \<times> bool \<times> string \<times> string"

definition setting_args :: "setting list \<Rightarrow> string list" where
  "setting_args ss = concat (map (\<lambda>(dd, joined, name, val). written_flag dd joined name val) ss)"

fun apply_settings :: "('v, 's) FlagSet \<Rightarrow> setting list \<Rightarrow> 's \<Rightarrow> 's option" where
  "apply_settings F [] st = Some st"
| "apply_settings F ((dd, joined, name, val) # ss) st =
    (if flag_name name then
       (case formal F name of
          Some v \<Rightarrow> if IsBoolFlag F v \<and> \<not> joined then None
            else Option.bind (set_value F v val st) (apply_settings F ss)
        | None \<Rightarrow> None)
     else None)"

lemma parse_settings:
  "apply_settings F ss st = Some st' \<Longrightarrow> flag_Parse F (setting_args ss @ rest) st = flag_Parse F rest st'"
proof (induction F ss st rule: apply_settings.induct)
  case (2 F dd joined name val ss st)
  then obtain v st1 where n: "flag_name name" "formal F name = Some v" "set_value F v val st = Some st1"
    "IsBoolFlag F v \<Longrightarrow> joined" and r: "apply_settings F ss st1 = Some st'"
    by (auto split: if_splits option.splits Option.bind_splits)
  have "flag_Parse F (setting_args ss @ rest) st1 = flag_Parse F rest st'"
    using "2.IH"[of v st1] n r by auto
  then show ?case using parse_written[OF n(1-3), of joined dd "setting_args ss @ rest"] n(4) by (simp add: setting_args_def)
qed (simp add: setting_args_def)

text \<open>Integers as \<open>Itoa\<close> writes them are read back: no prefix, no underscore.\<close>

lemma digit_value_digit: "is_digit c \<Longrightarrow> digit_value c = Some (digit_of c)"
  by (simp add: digit_value_def)

lemma parse_based_digits:
  assumes "\<forall>c \<in> set s. is_digit c" and "parse_digits (2 ^ 64 - 1) n s = Inr m"
  shows "parse_based 10 n u s = Inr (m, u)"
  using assms
proof (induction s arbitrary: n)
  case (Cons c cs)
  have "\<not> is_digit (CHR ''_'')" by code_simp
  then have "c \<noteq> CHR ''_''" using Cons.prems by auto
  with Cons show ?case
    using digit_of_range[of c] by (auto simp: digit_value_digit Let_def split: if_splits)
qed simp

lemma FormatUint_hd: "0 < n \<Longrightarrow> hd (FormatUint n) \<noteq> CHR ''0''"
proof (induction n rule: FormatUint.induct)
  case (1 n)
  show ?case
  proof (cases "n < 10")
    case True
    have "is_digit (digit_char n) \<and> digit_of (digit_char n) = n" using True 1 by simp
    moreover have "digit_of (CHR ''0'') = 0" by code_simp
    ultimately have "digit_char n \<noteq> CHR ''0''" using 1 by (metis less_irrefl)
    then show ?thesis using True by (simp add: FormatUint.simps[of n])
  next
    case False
    then show ?thesis using 1 by (simp add: FormatUint.simps[of n])
  qed
qed

lemma ParseUint0_FormatUint:
  assumes "0 \<le> n" and "n < 2 ^ 64"
  shows "ParseUint0 (FormatUint n) = Inr n"
proof (cases "n = 0")
  case True
  have "ParseUint0 (FormatUint 0) = Inr 0" by code_simp
  with True show ?thesis by simp
next
  case False
  then have "hd (FormatUint n) \<noteq> CHR ''0''" using FormatUint_hd[of n] assms by simp
  then have "base_prefix (FormatUint n) = (10, FormatUint n)" by (simp add: base_prefix_def hd_conv_nth)
  moreover have "parse_based 10 0 False (FormatUint n) = Inr (n, False)"
    using parse_based_digits[of "FormatUint n" 0 n False] FormatUint_digits[of n] parse_digits_FormatUint[of n "2 ^ 64 - 1"] assms
    by simp
  ultimately show ?thesis by (simp add: ParseUint0_def)
qed

lemma ParseInt0_FormatInt:
  assumes "in_int64 z"
  shows "ParseInt0 (FormatInt z) = Inr z"
proof (cases "z < 0")
  case True
  with assms show ?thesis by (simp add: FormatInt_def ParseInt0_def ParseUint0_FormatUint in_int64_def)
next
  case False
  then have n: "z < 2 ^ 63" using assms by (auto simp: in_int64_def)
  obtain c cs where f: "FormatUint z = c # cs" by (cases "FormatUint z") auto
  have "is_digit c" using FormatUint_digits[of z c] f False by simp
  then have "c \<noteq> CHR ''-''" "c \<noteq> CHR ''+''" by (auto simp: is_digit_def)
  with False n f ParseUint0_FormatUint[of z] show ?thesis by (simp add: FormatInt_def ParseInt0_def)
qed

text \<open>What the command line takes for the same number, and what it does not take for one.\<close>

lemma integer_forms:
  "ParseInt0 ''0x_1F'' = Inr 31" "ParseInt0 ''-0100'' = Inr (- 64)" "ParseInt0 ''1_000'' = Inr 1000"
  "ParseInt0 ''1__0'' = Inl ErrSyntax" "ParseInt0 ''_1'' = Inl ErrSyntax" "ParseInt0 ''0x'' = Inl ErrSyntax"
  "ParseInt0 ''9223372036854775808'' = Inl ErrRange"
  by code_simp+

end
