(* ===== verification/ChannelPool.thy ===== *)
theory ChannelPool
  imports Shards Pools
begin

text \<open>
  The pool of reply channels of \<^verbatim>\<open>pkg/tqmemory/sharded.go\<close>. Theory \<open>Shards\<close> gives every client a
  response channel of its own. In the code \<open>sendRequest\<close> takes a channel from a pool, puts it into
  the request, and returns it to the pool when it has received the response; a worker only knows
  the channel. The system here is that of \<open>Shards\<close> with channels as objects that move between the
  pool, clients and queued requests. Every run of it is one of \<open>Shards\<close>: the pool is an optimisation
  that nobody can observe, and the theorems about clients with channels of their own apply.
\<close>

section \<open>States and steps\<close>

text \<open>Where a client is in \<open>sendRequest\<close>.\<close>

datatype call_at = NotCalling | HasChannel nat | WaitsOn nat nat Request | HasResponse nat Response

fun channel_of :: "call_at \<Rightarrow> nat option" where
  "channel_of NotCalling = None"
| "channel_of (HasChannel a) = Some a"
| "channel_of (WaitsOn a i req) = Some a"
| "channel_of (HasResponse a resp) = Some a"

record PooledSystem =
  shared :: ShardedCache
  inbox :: "nat \<Rightarrow> (nat \<times> Request) list"
  chan :: "nat \<Rightarrow> Response option"
  respChanPool :: "nat list"
  call :: "nat \<Rightarrow> call_at"
  halted :: "nat \<Rightarrow> bool"

datatype chan_label = CTook nat nat | CSent nat nat Request | CServed nat nat env Request Response
  | CReceived nat Response | CPut nat nat | CTicked nat int | CStopped nat | CCollected

definition init_pooled :: "ShardedCache \<Rightarrow> PooledSystem" where
  "init_pooled sc = \<lparr>shared = sc, inbox = (\<lambda>i. []), chan = (\<lambda>a. None), respChanPool = [],
     call = (\<lambda>c. NotCalling), halted = (\<lambda>i. False)\<rparr>"

definition channel_held :: "PooledSystem \<Rightarrow> nat \<Rightarrow> nat option" where
  "channel_held p c = channel_of (call p c)"

definition goes_to :: "nat \<Rightarrow> call_at \<Rightarrow> PooledSystem \<Rightarrow> PooledSystem" where
  "goes_to c st p = p\<lparr>call := (call p)(c := st)\<rparr>"

definition update_worker :: "nat \<Rightarrow> Worker \<Rightarrow> PooledSystem \<Rightarrow> PooledSystem" where
  "update_worker i w p = p\<lparr>shared := (shared p)\<lparr>workers := (workers (shared p))[i := w]\<rparr>\<rparr>"

inductive chan_step :: "nat \<Rightarrow> PooledSystem \<Rightarrow> chan_label \<Rightarrow> PooledSystem \<Rightarrow> bool" for capacity where
  take_pooled: "call p c = NotCalling \<Longrightarrow> a \<in> set (respChanPool p) \<Longrightarrow>
    chan_step capacity p (CTook c a) (goes_to c (HasChannel a) (p\<lparr>respChanPool := remove1 a (respChanPool p)\<rparr>))"
| take_new: "call p c = NotCalling \<Longrightarrow> a \<notin> set (respChanPool p) \<Longrightarrow> \<forall>d. channel_held p d \<noteq> Some a \<Longrightarrow>
    chan_step capacity p (CTook c a) (goes_to c (HasChannel a) (p\<lparr>chan := (chan p)(a := None)\<rparr>))"
| send: "call p c = HasChannel a \<Longrightarrow> i < length (workers (shared p)) \<Longrightarrow>
    Op req = OpFlushAll \<or> i = workerFor (shared p) (reqKey req) \<Longrightarrow> length (inbox p i) < capacity \<Longrightarrow>
    chan_step capacity p (CSent c i req)
      (goes_to c (WaitsOn a i req) (p\<lparr>inbox := (inbox p)(i := inbox p i @ [(a, req)])\<rparr>))"
| serve_request: "i < length (workers (shared p)) \<Longrightarrow> \<not> halted p i \<Longrightarrow> inbox p i = (a, req) # q \<Longrightarrow>
    handleRequest en req (workers (shared p) ! i) = Some (w, resp) \<Longrightarrow> chan p a = None \<Longrightarrow>
    chan_step capacity p (CServed a i en req resp)
      (update_worker i w (p\<lparr>inbox := (inbox p)(i := q), chan := (chan p)(a := Some resp)\<rparr>))"
| receive: "call p c = WaitsOn a i req \<Longrightarrow> chan p a = Some resp \<Longrightarrow>
    chan_step capacity p (CReceived c resp) (goes_to c (HasResponse a resp) (p\<lparr>chan := (chan p)(a := None)\<rparr>))"
| put: "call p c = HasResponse a resp \<Longrightarrow>
    chan_step capacity p (CPut c a) (goes_to c NotCalling (p\<lparr>respChanPool := a # respChanPool p\<rparr>))"
| tick: "i < length (workers (shared p)) \<Longrightarrow> \<not> halted p i \<Longrightarrow>
    expireKeys now (workers (shared p) ! i) = Some w \<Longrightarrow>
    chan_step capacity p (CTicked i now) (update_worker i w p)"
| stop: "i < length (workers (shared p)) \<Longrightarrow>
    chan_step capacity p (CStopped i) (p\<lparr>halted := (halted p)(i := True)\<rparr>)"
| collect: "a \<in> set (respChanPool p) \<Longrightarrow>
    chan_step capacity p CCollected (p\<lparr>respChanPool := remove1 a (respChanPool p)\<rparr>)"

section \<open>A channel is in one place\<close>

lemma pooled_fields [simp]:
  "shared (goes_to c st p) = shared p" "inbox (goes_to c st p) = inbox p" "chan (goes_to c st p) = chan p"
  "respChanPool (goes_to c st p) = respChanPool p" "call (goes_to c st p) = (call p)(c := st)"
  "halted (goes_to c st p) = halted p"
  "shared (update_worker i w p) = (shared p)\<lparr>workers := (workers (shared p))[i := w]\<rparr>" "inbox (update_worker i w p) = inbox p"
  "chan (update_worker i w p) = chan p" "respChanPool (update_worker i w p) = respChanPool p"
  "call (update_worker i w p) = call p" "halted (update_worker i w p) = halted p"
  by (simp_all add: goes_to_def update_worker_def)

lemma channel_held_fields [simp]:
  "channel_held (goes_to c st p) = (channel_held p)(c := channel_of st)"
  "channel_held (update_worker i w p) = channel_held p"
  "channel_held (p\<lparr>inbox := x\<rparr>) = channel_held p" "channel_held (p\<lparr>chan := y\<rparr>) = channel_held p"
  "channel_held (p\<lparr>respChanPool := z\<rparr>) = channel_held p" "channel_held (p\<lparr>halted := u\<rparr>) = channel_held p"
  "channel_held (p\<lparr>inbox := x, chan := y\<rparr>) = channel_held p"
  by (auto simp: channel_held_def)

lemma channels_move:
  "chan_step capacity p l p' \<Longrightarrow>
   pool_move (mset (respChanPool p)) (channel_held p) (mset (respChanPool p')) (channel_held p')"
proof (induction rule: chan_step.induct)
  case (take_pooled p c a)
  then show ?case using pool_move.reuse[of "channel_held p" c a "mset (respChanPool p)"]
    by (simp add: channel_held_def[of p c] del: fun_upd_apply)
next
  case (take_new p c a)
  then show ?case using pool_move.allocate[of "channel_held p" c a "mset (respChanPool p)"]
    by (simp add: channel_held_def[of p c] del: fun_upd_apply)
next
  case (put p c a resp)
  then show ?case using pool_move.give_back[of "channel_held p" c a "mset (respChanPool p)"]
    by (simp add: channel_held_def[of p c] del: fun_upd_apply)
next
  case (collect a p)
  then show ?case by (simp add: pool_move.collect)
next
  case (send p c a i req)
  then have "(channel_held p)(c := Some a) = channel_held p" by (auto simp: channel_held_def)
  then show ?case by (simp add: pool_move.stay del: fun_upd_apply)
next
  case (receive p c a i req resp)
  then have "(channel_held p)(c := Some a) = channel_held p" by (auto simp: channel_held_def)
  then show ?case by (simp add: pool_move.stay del: fun_upd_apply)
qed (simp_all add: pool_move.stay)

interpretation channels: pooled "chan_step capacity" "\<lambda>p. mset (respChanPool p)" channel_held
  by unfold_locales (rule channels_move)

section \<open>Simulation\<close>

text \<open>
  \<open>simulates p s\<close>: the system with one channel per client is in state \<open>s\<close> when the pooled one is in
  state \<open>p\<close>. A client's own channel holds what the channel it waits on holds.
\<close>

definition entry_of :: "PooledSystem \<Rightarrow> nat \<Rightarrow> nat \<times> Request \<Rightarrow> nat \<times> Request \<Rightarrow> bool" where
  "entry_of p i e f \<longleftrightarrow> snd e = snd f \<and> call p (fst f) = WaitsOn (fst e) i (snd e)"

definition simulates :: "PooledSystem \<Rightarrow> System \<Rightarrow> bool" where
  "simulates p s \<longleftrightarrow> cache s = shared p \<and> stopped s = halted p \<and>
    (\<forall>i. list_all2 (entry_of p i) (inbox p i) (queues s i)) \<and>
    (\<forall>c. waiting s c = (case call p c of WaitsOn a i req \<Rightarrow> Some (i, req) | _ \<Rightarrow> None)) \<and>
    (\<forall>c. respchan s c = (case call p c of WaitsOn a i req \<Rightarrow> chan p a | _ \<Rightarrow> None)) \<and>
    (\<forall>a. chan p a = None \<or> (\<exists>c i req. call p c = WaitsOn a i req))"

text \<open>Labels that correspond; taking a channel, putting it back and collection have no counterpart.\<close>

fun same_label :: "chan_label \<Rightarrow> label \<Rightarrow> bool" where
  "same_label (CSent c i req) l = (l = Sent c i req)"
| "same_label (CServed a i en req resp) l = (\<exists>c. l = Served c i en req resp)"
| "same_label (CReceived c resp) l = (l = Received c resp)"
| "same_label (CTicked i now) l = (l = Ticked i now)"
| "same_label (CStopped i) l = (l = Stopped i)"
| "same_label l l' = False"

fun visible :: "chan_label \<Rightarrow> bool" where
  "visible (CTook c a) = False"
| "visible (CPut c a) = False"
| "visible CCollected = False"
| "visible l = True"

lemma simulates_init: "simulates (init_pooled sc) (init_system sc)"
  by (simp add: simulates_def init_pooled_def init_system_def)

lemma simulatesD:
  assumes "simulates p s"
  shows "cache s = shared p" "stopped s = halted p" "list_all2 (entry_of p i) (inbox p i) (queues s i)"
    and "waiting s c = (case call p c of WaitsOn a i req \<Rightarrow> Some (i, req) | _ \<Rightarrow> None)"
    and "respchan s c = (case call p c of WaitsOn a i req \<Rightarrow> chan p a | _ \<Rightarrow> None)"
    and "chan p a = None \<or> (\<exists>c i req. call p c = WaitsOn a i req)"
  using assms by (auto simp: simulates_def)

lemma simulatesI:
  assumes "cache s = shared p" "stopped s = halted p" "\<And>i. list_all2 (entry_of p i) (inbox p i) (queues s i)"
    and "\<And>c. waiting s c = (case call p c of WaitsOn a i req \<Rightarrow> Some (i, req) | _ \<Rightarrow> None)"
    and "\<And>c. respchan s c = (case call p c of WaitsOn a i req \<Rightarrow> chan p a | _ \<Rightarrow> None)"
    and "\<And>a. chan p a = None \<or> (\<exists>c i req. call p c = WaitsOn a i req)"
  shows "simulates p s"
  using assms by (simp add: simulates_def)

lemma length_queues: "simulates p s \<Longrightarrow> length (queues s i) = length (inbox p i)"
  using list_all2_lengthD[OF simulatesD(3)] by simp

lemma head_entry:
  assumes "simulates p s" and "inbox p i = (a, req) # q"
  shows "\<exists>c qs. queues s i = (c, req) # qs \<and> call p c = WaitsOn a i req \<and> list_all2 (entry_of p i) q qs"
  using simulatesD(3)[OF assms(1), of i] assms(2) by (auto simp: list_all2_Cons1 entry_of_def)

lemma waits_on_one:
  "channels.owned p \<Longrightarrow> channel_of (call p c) = Some a \<Longrightarrow> channel_of (call p d) = Some a \<Longrightarrow> c = d"
  using channels.one_holder[of p c a d] by (simp add: channel_held_def)

text \<open>A client that changes its place keeps the queues related if it is in none.\<close>

lemma entries_unmoved:
  assumes "list_all2 (entry_of p i) xs ys" and "\<And>req. (c, req) \<notin> set ys" and "call p' = (call p)(c := st)"
  shows "list_all2 (entry_of p' i) xs ys"
  using assms(1,2)
proof (induction rule: list_all2_induct)
  case (Cons x xs y ys)
  have "fst y \<noteq> c" using Cons.prems[of "snd y"] by (cases y) auto
  with Cons assms(3) show ?case by (auto simp: entry_of_def)
qed simp

lemma not_queued:
  assumes "chan_inv cap s" and "\<forall>j req. call_of s c \<noteq> Queued j req"
  shows "(c, req) \<notin> set (queues s i)"
proof
  assume "(c, req) \<in> set (queues s i)"
  then have "(c, req) \<in> set (filter (\<lambda>e. fst e = c) (queues s i))" by simp
  moreover have "filter (\<lambda>e. fst e = c) (queues s i) = []"
    using chan_invD(4)[OF assms(1), where i = i and c = c] assms(2) by (auto split: call_state.splits)
  ultimately show False by (metis empty_iff list.set(1))
qed

lemma not_waiting_not_queued:
  "chan_inv cap s \<Longrightarrow> simulates p s \<Longrightarrow> \<forall>a i req. call p c \<noteq> WaitsOn a i req \<Longrightarrow> (c, req) \<notin> set (queues s i)"
  using not_queued[of cap s c] simulatesD(4,5)[of p s c] by (auto simp: call_of_def split: call_at.splits option.splits)

lemma occupied_moves:
  "simulates p s \<Longrightarrow> \<forall>a i req. call p c \<noteq> WaitsOn a i req \<Longrightarrow>
   chan p a = None \<or> (\<exists>d i req. ((call p)(c := st)) d = WaitsOn a i req)"
  using simulatesD(6)[of p s a] by (metis fun_upd_other)

lemma client_moves:
  assumes sim: "simulates p s" and inv: "chan_inv cap s"
    and c: "\<forall>a i req. call p c \<noteq> WaitsOn a i req" "\<forall>a i req. st \<noteq> WaitsOn a i req"
    and p': "call p' = (call p)(c := st)" "shared p' = shared p" "halted p' = halted p" "inbox p' = inbox p" "chan p' = chan p"
  shows "simulates p' s"
proof -
  have "list_all2 (entry_of p' i) (inbox p' i) (queues s i)" for i
    using entries_unmoved[OF simulatesD(3)[OF sim] not_waiting_not_queued[OF inv sim c(1)] p'(1)] p'(4) by simp
  moreover have "chan p' a = None \<or> (\<exists>d i req. call p' d = WaitsOn a i req)" for a
    using occupied_moves[OF sim c(1)] p'(1,5) by simp
  moreover have "waiting s d = (case call p' d of WaitsOn a i req \<Rightarrow> Some (i, req) | _ \<Rightarrow> None)"
    "respchan s d = (case call p' d of WaitsOn a i req \<Rightarrow> chan p' a | _ \<Rightarrow> None)" for d
    using simulatesD(4,5)[OF sim, of d] c p'(1,5) by (auto split: call_at.splits)
  ultimately show ?thesis
    using simulatesD(1,2)[OF sim] p'(2,3) unfolding simulates_def by simp
qed

text \<open>The steps that change channels, queues or workers.\<close>

lemma sim_send:
  assumes sim: "simulates p s" and own: "channels.owned p" and inv: "chan_inv cap s"
    and h: "call p c = HasChannel a" "i < length (workers (shared p))"
      "Op req = OpFlushAll \<or> i = workerFor (shared p) (reqKey req)" "length (inbox p i) < cap"
  shows "\<exists>s'. step cap s (Sent c i req) s' \<and>
    simulates (goes_to c (WaitsOn a i req) (p\<lparr>inbox := (inbox p)(i := inbox p i @ [(a, req)])\<rparr>)) s'"
proof -
  let ?p = "goes_to c (WaitsOn a i req) (p\<lparr>inbox := (inbox p)(i := inbox p i @ [(a, req)])\<rparr>)"
  let ?s = "s\<lparr>queues := (queues s)(i := queues s i @ [(c, req)]), waiting := (waiting s)(c := Some (i, req))\<rparr>"
  have e: "chan p a = None"
    using simulatesD(6)[OF sim, of a] waits_on_one[OF own, of c a] h(1) by (metis call_at.distinct(7) channel_of.simps(2,3))
  have "step cap s (Sent c i req) ?s"
    using h simulatesD(1,4)[OF sim] length_queues[OF sim, of i] by (intro step.send) simp_all
  moreover have "list_all2 (entry_of ?p j) (inbox p j) (queues s j)" for j
    using entries_unmoved[OF simulatesD(3)[OF sim] not_waiting_not_queued[OF inv sim], of c] h(1) by simp
  moreover have "chan p b = None \<or> (\<exists>d i' req'. call ?p d = WaitsOn b i' req')" for b
    using occupied_moves[OF sim, of c b] h(1) by simp
  ultimately show ?thesis
    using simulatesD(1-5)[OF sim] h(1) e
    by (intro exI[of _ ?s]) (auto simp: simulates_def entry_of_def list_all2_appendI split: call_at.splits)
qed

lemma sim_serve:
  assumes sim: "simulates p s" and own: "channels.owned p" and inv: "chan_inv cap s"
    and h: "i < length (workers (shared p))" "\<not> halted p i" "inbox p i = (a, req) # q"
      "handleRequest en req (workers (shared p) ! i) = Some (w, resp)" "chan p a = None"
  shows "\<exists>c s'. step cap s (Served c i en req resp) s' \<and>
    simulates (update_worker i w (p\<lparr>inbox := (inbox p)(i := q), chan := (chan p)(a := Some resp)\<rparr>)) s'"
proof -
  let ?p = "update_worker i w (p\<lparr>inbox := (inbox p)(i := q), chan := (chan p)(a := Some resp)\<rparr>)"
  obtain c qs where q: "queues s i = (c, req) # qs" and c: "call p c = WaitsOn a i req"
    and qs: "list_all2 (entry_of p i) q qs"
    using head_entry[OF sim h(3)] by blast
  let ?s = "set_worker i w (s\<lparr>queues := (queues s)(i := qs), respchan := (respchan s)(c := Some resp)\<rparr>)"
  have "step cap s (Served c i en req resp) ?s"
    using h q c simulatesD(1,2)[OF sim] simulatesD(5)[OF sim, of c] by (intro step.serve_request) simp_all
  moreover have one: "d = c" if "call p d = WaitsOn a j r" for d j r
    using waits_on_one[OF own, of d a c] that c by simp
  have en: "entry_of ?p j = entry_of p j" for j by (auto simp: entry_of_def fun_eq_iff)
  have "simulates ?p ?s"
  proof (rule simulatesI)
    show "cache ?s = shared ?p" "stopped ?s = halted ?p"
      using simulatesD(1,2)[OF sim] by (simp_all add: set_worker_def update_worker_def)
    show "list_all2 (entry_of ?p j) (inbox ?p j) (queues ?s j)" for j
      using simulatesD(3)[OF sim, of j] qs unfolding en by simp
    show "waiting ?s d = (case call ?p d of WaitsOn a i req \<Rightarrow> Some (i, req) | _ \<Rightarrow> None)" for d
      using simulatesD(4)[OF sim, of d] by simp
    show "respchan ?s d = (case call ?p d of WaitsOn a i req \<Rightarrow> chan ?p a | _ \<Rightarrow> None)" for d
      using simulatesD(5)[OF sim, of d] c one[of d] by (cases "call p d") auto
    show "chan ?p b = None \<or> (\<exists>d i' req'. call ?p d = WaitsOn b i' req')" for b
      using simulatesD(6)[OF sim, of b] c by auto
  qed
  ultimately show ?thesis by blast
qed

lemma sim_receive:
  assumes sim: "simulates p s" and own: "channels.owned p" and inv: "chan_inv cap s"
    and h: "call p c = WaitsOn a i req" "chan p a = Some resp"
  shows "\<exists>s'. step cap s (Received c resp) s' \<and>
    simulates (goes_to c (HasResponse a resp) (p\<lparr>chan := (chan p)(a := None)\<rparr>)) s'"
proof -
  let ?p = "goes_to c (HasResponse a resp) (p\<lparr>chan := (chan p)(a := None)\<rparr>)"
  let ?s = "s\<lparr>waiting := (waiting s)(c := None), respchan := (respchan s)(c := None)\<rparr>"
  have r: "waiting s c = Some (i, req)" "respchan s c = Some resp" using simulatesD(4,5)[OF sim, of c] h by simp_all
  have one: "d = c" if "call p d = WaitsOn a j r" for d j r
    using waits_on_one[OF own, of d a c] that h(1) by simp
  have nq: "(c, rq) \<notin> set (queues s j)" for rq j
    using not_queued[OF inv, of c] r by (simp add: call_of_def)
  have "simulates ?p ?s"
  proof (rule simulatesI)
    show "cache ?s = shared ?p" "stopped ?s = halted ?p"
      using simulatesD(1,2)[OF sim] by simp_all
    show "list_all2 (entry_of ?p j) (inbox ?p j) (queues ?s j)" for j
      using entries_unmoved[OF simulatesD(3)[OF sim] nq, of ?p "HasResponse a resp"] by simp
    show "waiting ?s d = (case call ?p d of WaitsOn a i req \<Rightarrow> Some (i, req) | _ \<Rightarrow> None)" for d
      using simulatesD(4)[OF sim, of d] by simp
    show "respchan ?s d = (case call ?p d of WaitsOn a i req \<Rightarrow> chan ?p a | _ \<Rightarrow> None)" for d
      using simulatesD(5)[OF sim, of d] one[of d] by (cases "call p d") auto
    show "chan ?p b = None \<or> (\<exists>d i' req'. call ?p d = WaitsOn b i' req')" for b
      using simulatesD(6)[OF sim, of b] h(1) by auto (metis call_at.inject(2))+
  qed
  then show ?thesis using step.receive[OF r] by blast
qed

lemma sim_tick:
  assumes sim: "simulates p s"
    and h: "i < length (workers (shared p))" "\<not> halted p i" "expireKeys now (workers (shared p) ! i) = Some w"
  shows "step cap s (Ticked i now) (set_worker i w s) \<and> simulates (update_worker i w p) (set_worker i w s)"
proof
  show "step cap s (Ticked i now) (set_worker i w s)"
    using h simulatesD(1,2)[OF sim] by (intro step.tick) simp_all
  have en: "entry_of (update_worker i w p) j = entry_of p j" for j by (auto simp: entry_of_def fun_eq_iff)
  show "simulates (update_worker i w p) (set_worker i w s)"
    by (rule simulatesI)
      (use simulatesD[OF sim] in \<open>simp_all add: en set_worker_def split: call_at.split\<close>)
qed

lemma sim_step:
  assumes sim: "simulates p s" and own: "channels.owned p" and inv: "chan_inv cap s" and st: "chan_step cap p l p'"
  shows "if visible l then \<exists>l' s'. step cap s l' s' \<and> same_label l l' \<and> simulates p' s' else simulates p' s"
  using st
proof (cases rule: chan_step.cases)
  case (take_pooled c a)
  then show ?thesis using client_moves[OF sim inv, of c "HasChannel a" p'] by simp
next
  case (take_new c a)
  have "chan p a = None" using simulatesD(6)[OF sim, of a] take_new(5) channel_of.simps(3)
    unfolding channel_held_def by metis
  then have "(chan p)(a := None) = chan p" by auto
  then show ?thesis using client_moves[OF sim inv, of c "HasChannel a" p'] take_new(1,2,3) by (simp del: fun_upd_apply)
next
  case (send c a i req)
  then show ?thesis using sim_send[OF sim own inv send(3-6)] by simp
next
  case (serve_request i a req q en w resp)
  then show ?thesis using sim_serve[OF sim own inv serve_request(3-7)] by auto
next
  case (receive c a i req resp)
  then show ?thesis using sim_receive[OF sim own inv receive(3,4)] by simp
next
  case (put c a resp)
  then show ?thesis using client_moves[OF sim inv, of c NotCalling p'] by simp
next
  case (tick i now w)
  then show ?thesis using sim_tick[OF sim tick(3-5)] by auto
next
  case (stop i)
  have "step cap s (Stopped i) (s\<lparr>stopped := (stopped s)(i := True)\<rparr>)"
    using stop simulatesD(1)[OF sim] by (intro step.stop) simp
  moreover have "simulates p' (s\<lparr>stopped := (stopped s)(i := True)\<rparr>)"
    using simulatesD[OF sim] by (intro simulatesI) (simp_all add: stop(2) entry_of_def[abs_def] split: call_at.split)
  ultimately show ?thesis using stop(1) by auto
next
  case (collect a)
  have "entry_of p' i = entry_of p i" for i by (auto simp: entry_of_def fun_eq_iff collect(2))
  then have "simulates p' s" using simulatesD[OF sim] by (intro simulatesI) (simp_all add: collect(2) split: call_at.split)
  then show ?thesis using collect(1) by simp
qed

lemma pooled_runs_simulate:
  assumes "runs (chan_step cap) (init_pooled sc) tr p"
  shows "channels.owned p \<and> (\<exists>tr' s. reaches cap (init_system sc) tr' s \<and>
    list_all2 same_label (filter visible tr) tr' \<and> simulates p s)"
  using assms
proof (induction rule: runs.induct)
  case begins
  have "channels.owned (init_pooled sc)"
    by (simp add: channels.owned_def init_pooled_def channel_held_def exclusive_def)
  then show ?case using simulates_init reaches.start by (metis filter.simps(1) list_all2_Nil)
next
  case (goes_on tr p l p')
  then obtain tr' s where own: "channels.owned p" and r: "reaches cap (init_system sc) tr' s"
    and l: "list_all2 same_label (filter visible tr) tr'" and sim: "simulates p s" by blast
  have inv: "chan_inv cap s" using reaches_call_state[OF r] by simp
  have "\<exists>tr' s. reaches cap (init_system sc) tr' s \<and> list_all2 same_label (filter visible (tr @ [l])) tr' \<and> simulates p' s"
  proof (cases "visible l")
    case True
    then obtain l' s' where "step cap s l' s'" "same_label l l'" "simulates p' s'"
      using sim_step[OF sim own inv goes_on(2)] by auto
    then show ?thesis using reaches.more[OF r] l True
      by (intro exI[of _ "tr' @ [l']"] exI[of _ s']) (simp add: list_all2_appendI)
  next
    case False
    then show ?thesis using sim_step[OF sim own inv goes_on(2)] r l by auto
  qed
  then show ?case using channels.owned_step[OF own goes_on(2)] by simp
qed

section \<open>The property\<close>

text \<open>
  C10. Reply channels come from a pool and pass from client to client. Every run of that system is,
  label for label, a run of the one in which each client has a channel of its own, with the same
  workers and the same requests in the same queues. So a client can never receive the response to
  another's request, no worker ever finds the channel of the request it serves full, and no two
  clients hold the same channel.
\<close>

theorem pooled_channels_refine:
  assumes "runs (chan_step cap) (init_pooled sc) tr p"
  shows "(\<exists>tr' s. reaches cap (init_system sc) tr' s \<and> list_all2 same_label (filter visible tr) tr' \<and>
      cache s = shared p \<and> (\<forall>i. map snd (queues s i) = map snd (inbox p i)) \<and>
      (\<forall>c. call_of s c = (case call p c of
         WaitsOn a i req \<Rightarrow> (case chan p a of None \<Rightarrow> Queued i req | Some resp \<Rightarrow> Answered resp) | _ \<Rightarrow> Idle))) \<and>
    (\<forall>i a req q. inbox p i = (a, req) # q \<longrightarrow> chan p a = None) \<and>
    (\<forall>c d a. channel_held p c = Some a \<and> channel_held p d = Some a \<longrightarrow> c = d)"
proof -
  obtain tr' s where own: "channels.owned p" and r: "reaches cap (init_system sc) tr' s"
    and l: "list_all2 same_label (filter visible tr) tr'" and sim: "simulates p s"
    using pooled_runs_simulate[OF assms] by blast
  have inv: "chan_inv cap s" using reaches_call_state[OF r] by simp
  have "map snd ys = map snd xs" if "list_all2 (entry_of p i) xs ys" for i xs ys
    using that by (induction rule: list_all2_induct) (simp_all add: entry_of_def)
  then have "map snd (queues s i) = map snd (inbox p i)" for i using simulatesD(3)[OF sim, of i] by blast
  moreover have "call_of s c = (case call p c of
         WaitsOn a i req \<Rightarrow> (case chan p a of None \<Rightarrow> Queued i req | Some resp \<Rightarrow> Answered resp) | _ \<Rightarrow> Idle)" for c
    using simulatesD(4,5)[OF sim, of c] by (cases "call p c") (auto simp: call_of_def split: option.split)
  moreover have "chan p a = None" if h: "inbox p i = (a, req) # q" for i a req q
  proof -
    obtain c qs where q: "queues s i = (c, req) # qs" and c: "call p c = WaitsOn a i req"
      using head_entry[OF sim h] by blast
    show ?thesis
      using head_queued(1)[OF inv q] simulatesD(5)[OF sim, of c] c by (auto simp: call_of_def split: option.splits)
  qed
  ultimately show ?thesis using r l simulatesD(1)[OF sim] channels.one_holder[OF own] by blast
qed

text \<open>A client takes a new channel and sends a request.\<close>

theorem pooled_channels_refine_witness:
  "\<exists>p. runs (chan_step 5) (init_pooled two_shards)
      [CTook 3 0, CSent 3 (workerFor two_shards ''k'') (key_req OpGet ''k'')] p \<and>
    (\<exists>s. reaches 5 (init_system two_shards) [Sent 3 (workerFor two_shards ''k'') (key_req OpGet ''k'')] s \<and>
      cache s = shared p) \<and> (\<forall>c. channel_held p c = Some 0 \<longrightarrow> c = 3)"
proof -
  let ?i = "workerFor two_shards ''k''" and ?r = "key_req OpGet ''k''"
  let ?p1 = "goes_to 3 (HasChannel 0) ((init_pooled two_shards)\<lparr>chan := (chan (init_pooled two_shards))(0 := None)\<rparr>)"
  let ?p2 = "goes_to 3 (WaitsOn 0 ?i ?r) (?p1\<lparr>inbox := (inbox ?p1)(?i := inbox ?p1 ?i @ [(0, ?r)])\<rparr>)"
  have 1: "chan_step 5 (init_pooled two_shards) (CTook 3 0) ?p1"
    by (rule chan_step.take_new) (simp_all add: init_pooled_def channel_held_def)
  have "sharded_inv two_shards" by (simp add: two_shards_def sharded_inv_New)
  then have 2: "chan_step 5 ?p1 (CSent 3 ?i ?r) ?p2"
    using sharded_invD(3) by (intro chan_step.send) (simp_all add: init_pooled_def key_req_def)
  have r: "runs (chan_step 5) (init_pooled two_shards) [CTook 3 0, CSent 3 ?i ?r] ?p2"
    by (rule runs_step_first, rule 1, rule runs_one, rule 2)
  have h: "channel_held ?p2 3 = Some 0" by (simp add: channel_held_def)
  obtain tr' s where s: "reaches 5 (init_system two_shards) tr' s" "cache s = shared ?p2"
    and "list_all2 same_label (filter visible [CTook 3 0, CSent 3 ?i ?r]) tr'"
    using pooled_channels_refine[OF r] by blast
  then have "tr' = [Sent 3 ?i ?r]" by (auto simp: list_all2_Cons1)
  moreover have "c = 3" if "channel_held ?p2 c = Some 0" for c using pooled_channels_refine[OF r] that h by blast
  ultimately show ?thesis using r s by blast
qed

end
