(* ===== verification/Lifecycle.thy ===== *)
theory Lifecycle
  imports ChannelPool
begin

text \<open>
  Starting and stopping: \<open>Start\<close>, \<open>Stop\<close> and \<open>Close\<close> of \<^verbatim>\<open>pkg/tqmemory/worker.go\<close> and \<open>Close\<close> of
  \<^verbatim>\<open>pkg/tqmemory/sharded.go\<close>. In \<open>Shards\<close> a worker may stop at any time; here it stops because its
  \<open>stopChan\<close> has been closed, and the goroutine that closes the cache goes through the workers one
  after the other: it looks at \<open>running\<close>, closes the channel (which panics if it is closed already),
  waits for \<open>done\<close> and clears \<open>running\<close>. Requests and ticks go on meanwhile. \<open>select\<close> takes up any
  of the channels that are ready; that a closed \<open>stopChan\<close> is taken up in the end is the fairness
  of \<open>select\<close>, so what is shown is that this can always happen and that nothing else is needed.
\<close>

section \<open>States and steps\<close>

datatype closer = NotClosing | Closing nat | WaitsDone nat | AllClosed | ClosePanicked

record Process =
  sys :: System
  running :: "nat \<Rightarrow> bool"
  stopChan :: "nat \<Rightarrow> bool"
  done_chan :: "nat \<Rightarrow> bool"
  closer :: closer

datatype life_label = Work label | SeesStop nat | ClosesDone nat | CallsClose | Closes

text \<open>The cache as \<open>NewSharded\<close> returns it: each worker has been started.\<close>

definition started :: "ShardedCache \<Rightarrow> Process" where
  "started sc = \<lparr>sys = init_system sc, running = (\<lambda>i. i < length (workers sc)), stopChan = (\<lambda>i. False),
     done_chan = (\<lambda>i. False), closer = NotClosing\<rparr>"

definition worker_count :: "Process \<Rightarrow> nat" where
  "worker_count P = length (workers (cache (sys P)))"

definition Stop_start :: "nat \<Rightarrow> Process \<Rightarrow> Process" where
  "Stop_start i P =
    (if \<not> running P i then P\<lparr>closer := Closing (i + 1)\<rparr>
     else if stopChan P i then P\<lparr>closer := ClosePanicked\<rparr>
     else P\<lparr>stopChan := (stopChan P)(i := True), closer := WaitsDone i\<rparr>)"

definition Stop_end :: "nat \<Rightarrow> Process \<Rightarrow> Process" where
  "Stop_end i P = P\<lparr>running := (running P)(i := False), closer := Closing (i + 1)\<rparr>"

definition loop_ends :: "nat \<Rightarrow> Process \<Rightarrow> Process" where
  "loop_ends i P = P\<lparr>sys := (sys P)\<lparr>stopped := (stopped (sys P))(i := True)\<rparr>\<rparr>"

definition deferred_close :: "nat \<Rightarrow> Process \<Rightarrow> Process" where
  "deferred_close i P = P\<lparr>done_chan := (done_chan P)(i := True)\<rparr>"

inductive life_step :: "nat \<Rightarrow> Process \<Rightarrow> life_label \<Rightarrow> Process \<Rightarrow> bool" for cap where
  works: "step cap (sys P) l s \<Longrightarrow> \<forall>i. l \<noteq> Stopped i \<Longrightarrow> life_step cap P (Work l) (P\<lparr>sys := s\<rparr>)"
| sees_stop: "i < worker_count P \<Longrightarrow> stopChan P i \<Longrightarrow> \<not> stopped (sys P) i \<Longrightarrow>
    life_step cap P (SeesStop i) (loop_ends i P)"
| closes_done: "i < worker_count P \<Longrightarrow> stopped (sys P) i \<Longrightarrow> \<not> done_chan P i \<Longrightarrow>
    life_step cap P (ClosesDone i) (deferred_close i P)"
| calls_close: "closer P = NotClosing \<or> closer P = AllClosed \<Longrightarrow> life_step cap P CallsClose (P\<lparr>closer := Closing 0\<rparr>)"
| stops: "closer P = Closing i \<Longrightarrow> i < worker_count P \<Longrightarrow> life_step cap P Closes (Stop_start i P)"
| done_received: "closer P = WaitsDone i \<Longrightarrow> done_chan P i \<Longrightarrow> life_step cap P Closes (Stop_end i P)"
| returns: "closer P = Closing i \<Longrightarrow> i \<ge> worker_count P \<Longrightarrow> life_step cap P Closes (P\<lparr>closer := AllClosed\<rparr>)"

text \<open>The run of the system of theory \<open>Shards\<close> that a run here contains.\<close>

fun system_labels :: "life_label list \<Rightarrow> label list" where
  "system_labels [] = []"
| "system_labels (Work l # tr) = l # system_labels tr"
| "system_labels (SeesStop i # tr) = Stopped i # system_labels tr"
| "system_labels (l # tr) = system_labels tr"

lemma system_labels_append: "system_labels (tr @ tr') = system_labels tr @ system_labels tr'"
  by (induction tr rule: system_labels.induct) simp_all

lemma process_fields [simp]:
  "sys (Stop_start i P) = sys P" "done_chan (Stop_start i P) = done_chan P" "running (Stop_start i P) = running P"
  "sys (Stop_end i P) = sys P" "done_chan (Stop_end i P) = done_chan P" "stopChan (Stop_end i P) = stopChan P"
  "running (Stop_end i P) = (running P)(i := False)" "closer (Stop_end i P) = Closing (i + 1)"
  "stopped (sys (loop_ends i P)) = (stopped (sys P))(i := True)" "cache (sys (loop_ends i P)) = cache (sys P)"
  "running (loop_ends i P) = running P" "stopChan (loop_ends i P) = stopChan P"
  "done_chan (loop_ends i P) = done_chan P" "closer (loop_ends i P) = closer P"
  "sys (deferred_close i P) = sys P" "done_chan (deferred_close i P) = (done_chan P)(i := True)"
  "running (deferred_close i P) = running P" "stopChan (deferred_close i P) = stopChan P"
  "closer (deferred_close i P) = closer P"
  by (simp_all add: deferred_close_def Stop_start_def Stop_end_def loop_ends_def)

lemma worker_count_fields [simp]:
  "worker_count (Stop_start i P) = worker_count P" "worker_count (Stop_end i P) = worker_count P"
  "worker_count (loop_ends i P) = worker_count P" "worker_count (deferred_close i P) = worker_count P"
  "worker_count (P\<lparr>closer := k\<rparr>) = worker_count P"
  "worker_count (P\<lparr>stopChan := f\<rparr>) = worker_count P"
  by (simp_all add: worker_count_def)

lemma life_step_system:
  "life_step cap P l P' \<Longrightarrow> reaches cap (sys P) (system_labels [l]) (sys P')"
proof (induction rule: life_step.induct)
  case (works P l s)
  then show ?case using reaches_step_first[OF works(1) reaches.start] by simp
next
  case (sees_stop i P)
  have "step cap (sys P) (Stopped i) (sys (loop_ends i P))"
    unfolding loop_ends_def using sees_stop(1) by (simp add: step.stop worker_count_def)
  then show ?case using reaches_step_first[OF _ reaches.start] by simp
qed (simp_all add: reaches.start)

lemma reaches_append:
  assumes "reaches cap s tr' s'" and "reaches cap s0 tr s"
  shows "reaches cap s0 (tr @ tr') s'"
  using assms
proof (induction rule: reaches.induct)
  case (more tr' s1 l s2)
  then show ?case using reaches.more[of cap s0 "tr @ tr'" s1 l s2] by simp
qed simp

lemma life_runs_system: "runs (life_step cap) P tr P' \<Longrightarrow> reaches cap (sys P) (system_labels tr) (sys P')"
proof (induction rule: runs.induct)
  case (goes_on tr P1 l P2)
  then show ?case using reaches_append[OF life_step_system[OF goes_on(2)] goes_on(3)] by (simp add: system_labels_append)
qed (simp add: reaches.start)

lemma life_step_count: "life_step cap P l P' \<Longrightarrow> worker_count P' = worker_count P"
  by (induction rule: life_step.induct) (auto simp: worker_count_def step_workers_length Stop_start_def)

section \<open>Invariant\<close>

fun waits_for :: "closer \<Rightarrow> nat \<Rightarrow> bool" where
  "waits_for (WaitsDone j) i = (j = i)"
| "waits_for k i = False"

definition life_inv :: "Process \<Rightarrow> bool" where
  "life_inv P \<longleftrightarrow>
    (\<forall>i. (done_chan P i \<longrightarrow> stopped (sys P) i) \<and> (stopped (sys P) i \<longrightarrow> stopChan P i)) \<and>
    (\<forall>i < worker_count P. \<not> running P i \<longrightarrow> done_chan P i) \<and>
    (\<forall>i. stopChan P i \<longrightarrow> running P i \<longrightarrow> waits_for (closer P) i) \<and>
    (case closer P of
      NotClosing \<Rightarrow> True
    | Closing i \<Rightarrow> i \<le> worker_count P \<and> (\<forall>j < i. \<not> running P j)
    | WaitsDone i \<Rightarrow> i < worker_count P \<and> stopChan P i \<and> (\<forall>j < i. \<not> running P j)
    | AllClosed \<Rightarrow> \<forall>j < worker_count P. \<not> running P j
    | ClosePanicked \<Rightarrow> False)"

lemma life_inv_started: "life_inv (started sc)"
  by (simp add: life_inv_def started_def init_system_def worker_count_def)

lemma step_stopped: "step cap s l s' \<Longrightarrow> \<forall>i. l \<noteq> Stopped i \<Longrightarrow> stopped s' = stopped s"
  by (induction rule: step.induct) simp_all

lemma life_inv_step: "life_step cap P l P' \<Longrightarrow> life_inv P \<Longrightarrow> life_inv P'"
proof (induction rule: life_step.induct)
  case (works P l s)
  have "worker_count (P\<lparr>sys := s\<rparr>) = worker_count P"
    using step_workers_length[OF works(1)] by (simp add: worker_count_def)
  then show ?case using works.prems step_stopped[OF works(1,2)] by (simp add: life_inv_def split: closer.splits)
next
  case (sees_stop i P)
  from sees_stop.prems show ?case
    unfolding life_inv_def process_fields worker_count_fields
    by (elim conjE, intro conjI) (use sees_stop(2) in simp_all)
next
  case (closes_done i P)
  from closes_done.prems show ?case
    unfolding life_inv_def process_fields worker_count_fields
    by (elim conjE, intro conjI) (use closes_done(2) in simp_all)
next
  case (calls_close P)
  then show ?case by (auto simp: life_inv_def)
next
  case (stops P i)
  then show ?case by (auto simp: life_inv_def Stop_start_def less_Suc_eq)
next
  case (done_received P i)
  have c: "\<forall>j. stopChan P j \<longrightarrow> running P j \<longrightarrow> i = j" and i: "i < worker_count P" "\<forall>j < i. \<not> running P j"
    using done_received.prems done_received.hyps(1) unfolding life_inv_def
    by (metis waits_for.simps(1), simp, simp)
  have d: "\<forall>j < worker_count P. \<not> ((running P)(i := False)) j \<longrightarrow> done_chan P j"
    using done_received.prems done_received.hyps(2) unfolding life_inv_def by (metis fun_upd_other)
  have r: "\<forall>j. stopChan P j \<longrightarrow> ((running P)(i := False)) j \<longrightarrow> waits_for (Closing (i + 1)) j"
    using c by (metis fun_upd_apply)
  have n: "i + 1 \<le> worker_count P \<and> (\<forall>j < i + 1. \<not> ((running P)(i := False)) j)"
    using i by (simp add: less_Suc_eq)
  show ?case
    using done_received.prems d r n
    unfolding life_inv_def process_fields worker_count_fields closer.case by blast
next
  case (returns P i)
  then show ?case by (auto simp: life_inv_def)
qed

lemma life_inv_runs: "runs (life_step cap) P tr P' \<Longrightarrow> life_inv P \<Longrightarrow> life_inv P'"
  by (rule runs_invariant[where I = life_inv]) (use life_inv_step in blast)+

section \<open>Closing comes to an end\<close>

text \<open>What is still to be done by the workers' loops and by the goroutine that closes.\<close>

definition shutdown_left :: "Process \<Rightarrow> nat" where
  "shutdown_left P =
    (\<Sum>i<worker_count P. (if stopped (sys P) i then 0 else 1) + (if done_chan P i then 0 else 1)) +
    (case closer P of Closing i \<Rightarrow> 2 * (worker_count P - i) + 1 | WaitsDone i \<Rightarrow> 2 * (worker_count P - i) | _ \<Rightarrow> 0)"

fun shutdown_label :: "life_label \<Rightarrow> bool" where
  "shutdown_label (SeesStop i) = True"
| "shutdown_label (ClosesDone i) = True"
| "shutdown_label Closes = True"
| "shutdown_label l = False"

definition closing :: "Process \<Rightarrow> bool" where
  "closing P \<longleftrightarrow> (\<exists>i. closer P = Closing i \<or> closer P = WaitsDone i)"

lemma sum_less_one:
  fixes f g :: "nat \<Rightarrow> nat"
  assumes "i < n" and "g i < f i" and "\<And>j. j \<noteq> i \<Longrightarrow> g j = f j"
  shows "(\<Sum>j<n. g j) < (\<Sum>j<n. f j)"
proof (rule sum_strict_mono_ex1)
  show "\<forall>j\<in>{..<n}. g j \<le> f j" using assms(2,3) by (metis le_eq_less_or_eq)
qed (use assms in auto)

lemma shutdown_decreases:
  assumes "life_step cap P l P'" and "shutdown_label l" and "life_inv P"
  shows "shutdown_left P' < shutdown_left P"
  using assms
proof (induction rule: life_step.induct)
  case (sees_stop i P)
  have "(\<Sum>j<worker_count P. (if stopped (sys (loop_ends i P)) j then 0 else 1) + (if done_chan P j then 0 else 1::nat))
      < (\<Sum>j<worker_count P. (if stopped (sys P) j then 0 else 1) + (if done_chan P j then 0 else 1))"
    by (rule sum_less_one[of i]) (use sees_stop in auto)
  then show ?case by (simp add: shutdown_left_def split: closer.split)
next
  case (closes_done i P)
  have "(\<Sum>j<worker_count P. (if stopped (sys P) j then 0 else 1) + (if ((done_chan P)(i := True)) j then 0 else 1::nat))
      < (\<Sum>j<worker_count P. (if stopped (sys P) j then 0 else 1) + (if done_chan P j then 0 else 1))"
    by (rule sum_less_one[of i]) (use closes_done in auto)
  then show ?case by (simp add: shutdown_left_def split: closer.split)
next
  case (stops P i)
  then have "\<not> stopChan P i \<or> \<not> running P i" by (auto simp: life_inv_def)
  then show ?case using stops(1,2) by (auto simp: shutdown_left_def Stop_start_def)
next
  case (done_received P i)
  then have "i < worker_count P" by (simp add: life_inv_def)
  then show ?case using done_received(1) by (simp add: shutdown_left_def)
qed (simp_all add: shutdown_left_def)

lemma other_steps_keep_measure:
  assumes "life_step cap P l P'" and "\<not> shutdown_label l" and "l \<noteq> CallsClose"
  shows "shutdown_left P' = shutdown_left P \<and> closer P' = closer P"
  using assms
proof (induction rule: life_step.induct)
  case (works P l s)
  then show ?case
    using step_workers_length[OF works(1)] step_stopped[OF works(1,2)]
    by (simp add: shutdown_left_def worker_count_def split: closer.split)
qed simp_all

lemma shutdown_enabled:
  assumes "life_inv P" and "closing P"
  shows "\<exists>l P'. life_step cap P l P' \<and> shutdown_label l"
proof (cases "closer P")
  case (Closing i)
  then show ?thesis
    using life_step.stops[OF Closing, of cap] life_step.returns[OF Closing, of cap]
    by (cases "i < worker_count P") (fastforce, metis not_less shutdown_label.simps(3))
next
  case (WaitsDone i)
  then have i: "i < worker_count P" "stopChan P i" using assms(1) by (auto simp: life_inv_def)
  consider "done_chan P i" | "\<not> stopped (sys P) i" | "stopped (sys P) i" "\<not> done_chan P i" by blast
  then show ?thesis
  proof cases
    case 1
    then show ?thesis using life_step.done_received[OF WaitsDone] by (metis shutdown_label.simps(3))
  next
    case 2
    then show ?thesis using life_step.sees_stop[OF i] by (metis shutdown_label.simps(1))
  next
    case 3
    then show ?thesis using life_step.closes_done[OF i(1) 3] by (metis shutdown_label.simps(2))
  qed
qed (use assms(2) in \<open>simp_all add: closing_def\<close>)

lemma shutdown_step_closer:
  "life_step cap P l P' \<Longrightarrow> shutdown_label l \<Longrightarrow> life_inv P \<Longrightarrow> closing P \<Longrightarrow> closing P' \<or> closer P' = AllClosed"
proof (induction rule: life_step.induct)
  case (stops P i)
  then have "\<not> stopChan P i \<or> \<not> running P i" by (auto simp: life_inv_def)
  then show ?case by (auto simp: closing_def Stop_start_def)
qed (auto simp: closing_def)

lemma closing_can_complete:
  "life_inv P \<Longrightarrow> closing P \<Longrightarrow>
   \<exists>tr P'. runs (life_step cap) P tr P' \<and> list_all shutdown_label tr \<and> length tr \<le> shutdown_left P \<and> closer P' = AllClosed"
proof (induction "shutdown_left P" arbitrary: P rule: less_induct)
  case less
  obtain l P1 where st: "life_step cap P l P1" and l: "shutdown_label l"
    using shutdown_enabled[OF less.prems] by blast
  note dec = shutdown_decreases[OF st l less.prems(1)] and inv = life_inv_step[OF st less.prems(1)]
  show ?case
  proof (cases "closing P1")
    case True
    obtain tr P' where "runs (life_step cap) P1 tr P'" "list_all shutdown_label tr" "length tr \<le> shutdown_left P1"
      "closer P' = AllClosed" using less.hyps[OF dec inv True] by blast
    then show ?thesis
      using runs_step_first[of "life_step cap", OF st] l dec by (intro exI[of _ "l # tr"] exI[of _ P']) auto
  next
    case False
    then have "closer P1 = AllClosed" using shutdown_step_closer[OF st l less.prems] by blast
    then show ?thesis using runs_one[of "life_step cap", OF st] l dec by (intro exI[of _ "[l]"] exI[of _ P1]) auto
  qed
qed

lemma shutdown_steps_bounded:
  "runs (life_step cap) P tr P' \<Longrightarrow> life_inv P \<Longrightarrow> CallsClose \<notin> set tr \<Longrightarrow>
   length (filter shutdown_label tr) + shutdown_left P' \<le> shutdown_left P"
proof (induction rule: runs.induct)
  case (goes_on tr P1 l P2)
  have inv: "life_inv P1" using life_inv_runs[OF goes_on(1) goes_on.prems(1)] .
  have ih: "length (filter shutdown_label tr) + shutdown_left P1 \<le> shutdown_left P" using goes_on by simp
  show ?case
  proof (cases "shutdown_label l")
    case True
    then show ?thesis using ih shutdown_decreases[OF goes_on(2) True inv] by simp
  next
    case False
    then show ?thesis using ih other_steps_keep_measure[OF goes_on(2) False] goes_on.prems by auto
  qed
qed simp

lemma shutdown_left_begin: "closer P = Closing 0 \<Longrightarrow> shutdown_left P \<le> 4 * worker_count P + 1"
proof -
  have "(\<Sum>i<worker_count P. (if stopped (sys P) i then 0 else 1) + (if done_chan P i then 0 else 1::nat)) \<le> (\<Sum>i<worker_count P. 2)"
    by (rule sum_mono) simp
  then show "closer P = Closing 0 \<Longrightarrow> ?thesis" by (simp add: shutdown_left_def)
qed

lemma closing_goes_on:
  assumes "life_step cap P l P'" and "life_inv P" and "l \<noteq> CallsClose" and "closing P \<or> closer P = AllClosed"
  shows "closing P' \<or> closer P' = AllClosed"
proof (cases "shutdown_label l")
  case True
  show ?thesis
  proof (cases "closing P")
    case True
    then show ?thesis using shutdown_step_closer[OF assms(1) \<open>shutdown_label l\<close> assms(2)] by blast
  next
    case False
    then have "closer P = AllClosed" using assms(4) by blast
    with assms(1,3) show ?thesis by (auto elim!: life_step.cases)
  qed
next
  case False
  then show ?thesis using other_steps_keep_measure[OF assms(1) False assms(3)] assms(4) by (simp add: closing_def)
qed

lemma closing_goes_on_runs:
  "runs (life_step cap) P tr P' \<Longrightarrow> life_inv P \<Longrightarrow> CallsClose \<notin> set tr \<Longrightarrow> closing P \<or> closer P = AllClosed \<Longrightarrow>
   closing P' \<or> closer P' = AllClosed"
proof (induction rule: runs.induct)
  case (goes_on tr P1 l P2)
  then show ?case using closing_goes_on[OF goes_on(2) life_inv_runs[OF goes_on(1)]] by auto
qed

lemma closed_cache_is_quiet_runs:
  assumes "runs (life_step cap) (started sc) tr P"
  shows "closer P \<noteq> ClosePanicked \<and> reaches cap (init_system sc) (system_labels tr) (sys P) \<and>
    worker_count P = length (workers sc) \<and>
    (closer P = AllClosed \<longrightarrow>
      (\<forall>i < length (workers sc). stopped (sys P) i \<and> done_chan P i \<and> \<not> running P i))"
proof -
  have inv: "life_inv P" using life_inv_runs[OF assms life_inv_started] .
  have r: "reaches cap (init_system sc) (system_labels tr) (sys P)"
    using life_runs_system[OF assms] by (simp add: started_def)
  have n: "worker_count P = length (workers sc)"
    using reaches_worker_run[OF r] by (simp add: worker_count_def init_system_def)
  have "stopped (sys P) i \<and> done_chan P i \<and> \<not> running P i"
    if "closer P = AllClosed" "i < length (workers sc)" for i
    using inv that n by (auto simp: life_inv_def)
  then show ?thesis using inv r n by (auto simp: life_inv_def)
qed

lemma close_can_complete:
  assumes "runs (life_step cap) (started sc) tr0 P" and "closer P = Closing 0"
    and "runs (life_step cap) P tr P'" and "CallsClose \<notin> set tr"
  shows "\<exists>tr' P2. runs (life_step cap) P' tr' P2 \<and> list_all shutdown_label tr' \<and> closer P2 = AllClosed \<and>
    length (filter shutdown_label tr) + length tr' \<le> 4 * length (workers sc) + 1"
proof -
  have inv: "life_inv P" using life_inv_runs[OF assms(1) life_inv_started] .
  have inv': "life_inv P'" using life_inv_runs[OF assms(3) inv] .
  have b: "length (filter shutdown_label tr) + shutdown_left P' \<le> 4 * length (workers sc) + 1"
    using shutdown_steps_bounded[OF assms(3) inv assms(4)] shutdown_left_begin[OF assms(2)]
      closed_cache_is_quiet_runs[OF assms(1)] by simp
  have "closing P' \<or> closer P' = AllClosed"
    using closing_goes_on_runs[OF assms(3) inv assms(4)] assms(2) by (simp add: closing_def)
  then show ?thesis
  proof
    assume "closing P'"
    from closing_can_complete[OF inv' this, of cap] b show ?thesis by fastforce
  next
    assume "closer P' = AllClosed"
    then show ?thesis using b runs.begins[of "life_step cap" P'] by (intro exI[of _ "[]"] exI[of _ P']) simp
  qed
qed

section \<open>Properties\<close>

text \<open>
  C15. Whatever requests and ticks happen meanwhile, and however often the cache is closed: closing
  it never closes a channel twice; when \<open>Close\<close> has returned the loops of all workers have ended and
  no worker serves a request or a tick any more; and a run with closing in it is a run of the system
  in which workers stop at any time, so that what was shown of that system holds.
\<close>

theorem closed_cache_is_quiet:
  assumes "runs (life_step cap) (started sc) tr P"
  shows "closer P \<noteq> ClosePanicked \<and> reaches cap (init_system sc) (system_labels tr) (sys P) \<and>
    (closer P = AllClosed \<longrightarrow>
      (\<forall>i < length (workers sc). stopped (sys P) i \<and> done_chan P i \<and> \<not> running P i) \<and>
      (\<forall>c i en req resp now P'. \<not> life_step cap P (Work (Served c i en req resp)) P' \<and>
        \<not> life_step cap P (Work (Ticked i now)) P'))"
proof -
  note q = closed_cache_is_quiet_runs[OF assms]
  have "\<not> step cap (sys P) (Served c i en req resp) s \<and> \<not> step cap (sys P) (Ticked i now) s"
    if "closer P = AllClosed" for c i en req resp now s
    using q that by (auto simp: worker_count_def elim: step_ServedE step_TickedE)
  then have "\<not> life_step cap P (Work (Served c i en req resp)) P' \<and> \<not> life_step cap P (Work (Ticked i now)) P'"
    if "closer P = AllClosed" for c i en req resp now P'
    using that by (auto elim: life_step.cases)
  then show ?thesis using q by blast
qed

text \<open>A cache that is closed, then closed again.\<close>

definition one_worker :: ShardedCache where
  "one_worker = NewSharded (\<lambda>i. 0) 0 DefaultConfig 1"

definition close_trace :: "life_label list" where
  "close_trace = [CallsClose, Closes, SeesStop 0, ClosesDone 0, Closes, Closes, CallsClose, Closes, Closes]"

lemma close_run: "\<exists>P. runs (life_step 5) (started one_worker) close_trace P \<and> closer P = AllClosed"
proof -
  let ?p0 = "started one_worker"
  let ?p1 = "?p0\<lparr>closer := Closing 0\<rparr>"
  let ?p4 = "deferred_close 0 (loop_ends 0 (Stop_start 0 ?p1))"
  let ?p5 = "Stop_end 0 ?p4"
  let ?p6 = "?p5\<lparr>closer := AllClosed\<rparr>"
  let ?p7 = "?p6\<lparr>closer := Closing 0\<rparr>"
  have n: "worker_count ?p0 = 1" by code_simp
  have r0: "running ?p0 0" using n by (simp add: started_def worker_count_def init_system_def)
  have s0: "\<not> stopChan ?p0 0" "\<not> stopped (sys ?p0) 0" "\<not> done_chan ?p0 0" "closer ?p0 = NotClosing"
    by (simp_all add: started_def init_system_def)
  have p: "Stop_start 0 ?p1 = ?p1\<lparr>stopChan := (stopChan ?p1)(0 := True), closer := WaitsDone 0\<rparr>"
    using r0 s0 by (simp add: Stop_start_def)
  have c: "closer (Stop_start 0 ?p1) = WaitsDone 0" "stopChan (Stop_start 0 ?p1) 0" by (simp_all add: p)
  have 1: "life_step 5 ?p0 CallsClose ?p1" by (rule life_step.calls_close) (simp add: s0)
  have 2: "life_step 5 ?p1 Closes (Stop_start 0 ?p1)" by (rule life_step.stops) (simp_all add: n)
  have 3: "life_step 5 (Stop_start 0 ?p1) (SeesStop 0) (loop_ends 0 (Stop_start 0 ?p1))"
    by (rule life_step.sees_stop) (simp_all add: n c s0)
  have 4: "life_step 5 (loop_ends 0 (Stop_start 0 ?p1)) (ClosesDone 0) ?p4"
    by (rule life_step.closes_done) (simp_all add: n s0)
  have 5: "life_step 5 ?p4 Closes ?p5" by (rule life_step.done_received) (simp_all add: c)
  have 6: "life_step 5 ?p5 Closes ?p6" by (rule life_step.returns[where i = 1]) (simp_all add: n)
  have 7: "life_step 5 ?p6 CallsClose ?p7" by (rule life_step.calls_close) simp
  have 8: "life_step 5 ?p7 Closes (Stop_start 0 ?p7)" by (rule life_step.stops) (simp_all add: n)
  have 9: "life_step 5 (Stop_start 0 ?p7) Closes ((Stop_start 0 ?p7)\<lparr>closer := AllClosed\<rparr>)"
    by (rule life_step.returns[where i = 1]) (simp_all add: n Stop_start_def)
  have "runs (life_step 5) ?p0 close_trace ((Stop_start 0 ?p7)\<lparr>closer := AllClosed\<rparr>)"
    unfolding close_trace_def
    by (rule runs_step_first, rule 1, rule runs_step_first, rule 2, rule runs_step_first, rule 3,
        rule runs_step_first, rule 4, rule runs_step_first, rule 5, rule runs_step_first, rule 6,
        rule runs_step_first, rule 7, rule runs_step_first, rule 8, rule runs_one, rule 9)
  then show ?thesis by (intro exI conjI) (assumption, simp)
qed

theorem closed_cache_is_quiet_witness:
  "\<exists>P. runs (life_step 5) (started one_worker) close_trace P \<and> closer P = AllClosed \<and>
    (\<forall>i < length (workers one_worker). stopped (sys P) i)"
proof -
  obtain P where r: "runs (life_step 5) (started one_worker) close_trace P" and a: "closer P = AllClosed"
    using close_run by blast
  show ?thesis using closed_cache_is_quiet[OF r] r a by blast
qed

text \<open>
  C16. Once \<open>Close\<close> has been called it can always return: at any time until then a step towards
  the end is possible, and at most \<open>4 * n + 1\<close> such steps happen for \<open>n\<close> workers, whatever clients
  and timers do in between.
\<close>

theorem close_completes:
  assumes "runs (life_step cap) (started sc) tr0 P" and "closer P = Closing 0"
    and "runs (life_step cap) P tr P'" and "CallsClose \<notin> set tr"
  shows "length (filter shutdown_label tr) \<le> 4 * length (workers sc) + 1 \<and>
    (closer P' = AllClosed \<or> (\<exists>l P2. life_step cap P' l P2 \<and> shutdown_label l)) \<and>
    (\<exists>tr' P2. runs (life_step cap) P' tr' P2 \<and> closer P2 = AllClosed \<and> length tr' \<le> 4 * length (workers sc) + 1)"
proof -
  have inv: "life_inv P" using life_inv_runs[OF assms(1) life_inv_started] .
  have "closing P' \<or> closer P' = AllClosed"
    using closing_goes_on_runs[OF assms(3) inv assms(4)] assms(2) by (simp add: closing_def)
  then have "closer P' = AllClosed \<or> (\<exists>l P2. life_step cap P' l P2 \<and> shutdown_label l)"
    using shutdown_enabled[OF life_inv_runs[OF assms(3) inv]] by blast
  then show ?thesis using close_can_complete[OF assms] by fastforce
qed

theorem close_completes_witness:
  "\<exists>P tr P2. closer P = Closing 0 \<and> runs (life_step 5) P tr P2 \<and> closer P2 = AllClosed \<and>
    length tr \<le> 4 * length (workers one_worker) + 1"
proof -
  have r: "runs (life_step 5) (started one_worker) [CallsClose] ((started one_worker)\<lparr>closer := Closing 0\<rparr>)"
    by (intro runs_one life_step.calls_close) (simp add: started_def)
  let ?P = "(started one_worker)\<lparr>closer := Closing 0\<rparr>"
  have "closer ?P = Closing 0" by simp
  then show ?thesis using close_completes[OF r _ runs.begins] by (metis empty_iff list.set(1))
qed

end
