(* ===== verification/ConfigFile.thy ===== *)
theory ConfigFile
  imports Request GoStrings
begin

text \<open>
  The configuration file, \<^verbatim>\<open>internal/config/config.go\<close>. The record is called \<open>FileConfig\<close> since the
  cache has a \<open>Config\<close> of its own. Reading the file is the operating system's: \<open>readFile\<close> gives the
  contents of a path, or \<open>None\<close> for an error. \<open>strconv.ParseFloat\<close> is the parameter \<open>pf\<close>: \<open>None\<close> is
  its error.
\<close>

record FileConfig =
  Port :: int
  Listen :: string
  Memory :: int
  Connections :: int
  Threads :: int
  FileStale :: float64

definition DefaultFileConfig :: FileConfig where
  "DefaultFileConfig = \<lparr>Port = 11211, Listen = [], Memory = 64, Connections = 1024, Threads = 4, FileStale = two64\<rparr>"

section \<open>Splitting\<close>

text \<open>\<open>strings.Split(s, "\n")\<close> and \<open>strings.SplitN(s, "=", 2)\<close>, for the separators the code uses.\<close>

fun Split :: "char \<Rightarrow> string \<Rightarrow> string list" where
  "Split sep [] = [[]]"
| "Split sep (c # s) =
    (if c = sep then [] # Split sep s
     else (case Split sep s of [] \<Rightarrow> [[c]] | p # ps \<Rightarrow> (c # p) # ps))"

definition SplitN2 :: "char \<Rightarrow> string \<Rightarrow> string list" where
  "SplitN2 sep s =
    (if sep \<in> set s then [takeWhile (\<lambda>c. c \<noteq> sep) s, tl (dropWhile (\<lambda>c. c \<noteq> sep) s)] else [s])"

text \<open>\<open>value[:strings.Index(value, "#")]\<close>, trimmed, if there is a \<open>#\<close>.\<close>

definition strip_comment :: "string \<Rightarrow> string" where
  "strip_comment val =
    (if CHR ''#'' \<in> set val then TrimSpace (takeWhile (\<lambda>c. c \<noteq> CHR ''#'') val) else val)"

section \<open>Parsing\<close>

definition set_int :: "(int \<Rightarrow> FileConfig) \<Rightarrow> string \<Rightarrow> FileConfig \<Rightarrow> FileConfig" where
  "set_int upd val cfg = (case Atoi val of (n, None) \<Rightarrow> upd n | (_, Some _) \<Rightarrow> cfg)"

definition set_option :: "(string \<Rightarrow> float64 option) \<Rightarrow> string \<Rightarrow> string \<Rightarrow> FileConfig \<Rightarrow> FileConfig" where
  "set_option pf key val cfg =
    (if key = ''port'' then set_int (\<lambda>n. cfg\<lparr>Port := n\<rparr>) val cfg
     else if key = ''listen'' then cfg\<lparr>Listen := val\<rparr>
     else if key = ''memory'' then set_int (\<lambda>n. cfg\<lparr>Memory := n\<rparr>) val cfg
     else if key = ''connections'' then set_int (\<lambda>n. cfg\<lparr>Connections := n\<rparr>) val cfg
     else if key = ''threads'' then set_int (\<lambda>n. cfg\<lparr>Threads := n\<rparr>) val cfg
     else if key = ''stale'' then (case pf val of Some x \<Rightarrow> cfg\<lparr>FileStale := x\<rparr> | None \<Rightarrow> cfg)
     else cfg)"

definition parse_line :: "(string \<Rightarrow> float64 option) \<Rightarrow> string \<Rightarrow> FileConfig \<Rightarrow> FileConfig" where
  "parse_line pf line cfg =
    (let line = TrimSpace line
     in if line = [] \<or> hd line = CHR ''#'' then cfg
        else (case SplitN2 (CHR ''='') line of
          [k, v] \<Rightarrow> set_option pf (TrimSpace k) (strip_comment (TrimSpace v)) cfg
        | _ \<Rightarrow> cfg))"

definition parse :: "(string \<Rightarrow> float64 option) \<Rightarrow> string \<Rightarrow> FileConfig" where
  "parse pf txt = fold (parse_line pf) (Split LF txt) DefaultFileConfig"

definition Load :: "(string \<Rightarrow> float64 option) \<Rightarrow> (string \<Rightarrow> string option) \<Rightarrow> string \<Rightarrow> FileConfig option" where
  "Load pf readFile path = map_option (parse pf) (readFile path)"

section \<open>Reading back a written file\<close>

definition config_lines :: "FileConfig \<Rightarrow> string \<Rightarrow> string list" where
  "config_lines cfg stale =
    [''port='' @ FormatInt (Port cfg), ''listen='' @ Listen cfg, ''memory='' @ FormatInt (Memory cfg),
     ''connections='' @ FormatInt (Connections cfg), ''threads='' @ FormatInt (Threads cfg), ''stale='' @ stale]"

fun join_lines :: "string list \<Rightarrow> string" where
  "join_lines [] = []"
| "join_lines [l] = l"
| "join_lines (l # m # ls) = l @ LF # join_lines (m # ls)"

lemma Split_nonempty [simp]: "Split sep s \<noteq> []"
  by (induction s) (auto split: list.splits)

lemma Split_append: "Split sep (s @ sep # t) = Split sep s @ Split sep t"
  by (induction s) (auto split: list.splits)

lemma Split_single: "sep \<notin> set s \<Longrightarrow> Split sep s = [s]"
  by (induction s) auto

lemma Split_join: "ls \<noteq> [] \<Longrightarrow> \<forall>l \<in> set ls. LF \<notin> set l \<Longrightarrow> Split LF (join_lines ls) = ls"
  by (induction ls rule: join_lines.induct) (auto simp: Split_append Split_single)

lemma parse_append: "parse pf (s @ LF # t) = fold (parse_line pf) (Split LF t) (parse pf s)"
  by (simp add: parse_def Split_append)

text \<open>A value that the parser takes over as it is: no blanks, no comment sign.\<close>

definition value_text :: "string \<Rightarrow> bool" where
  "value_text s \<longleftrightarrow> list_all plain_char s \<and> CHR ''#'' \<notin> set s"

lemma TrimSpace_plain: "s \<noteq> [] \<Longrightarrow> list_all plain_char s \<Longrightarrow> TrimSpace s = s"
  by (simp add: TrimSpace_def TrimLeft_plain TrimRight_plain list_all_iff)

lemma TrimSpace_value: "value_text s \<Longrightarrow> TrimSpace s = s"
proof (cases "s = []")
  case True
  have "TrimSpace [] = []" by code_simp
  with True show ?thesis by simp
qed (simp add: TrimSpace_plain value_text_def)

lemma parse_line_option:
  assumes k: "k \<noteq> []" "list_all plain_char k" "CHR ''='' \<notin> set k" "hd k \<noteq> CHR ''#''" and v: "value_text v"
  shows "parse_line pf (k @ CHR ''='' # v) cfg = set_option pf k v cfg"
proof -
  let ?l = "k @ CHR ''='' # v"
  have "plain_char (CHR ''='')" by code_simp
  then have t: "TrimSpace ?l = ?l" using k v by (intro TrimSpace_plain) (auto simp: value_text_def)
  have p: "x \<in> set k \<Longrightarrow> x \<noteq> CHR ''=''" for x using k(3) by auto
  have s: "SplitN2 (CHR ''='') ?l = [k, v]"
    using takeWhile_append2[of k "\<lambda>c. c \<noteq> CHR ''=''" "CHR ''='' # v", OF p]
      dropWhile_append2[of k "\<lambda>c. c \<noteq> CHR ''=''" "CHR ''='' # v", OF p]
    by (simp add: SplitN2_def)
  show ?thesis
    using t s k v TrimSpace_plain[of k] TrimSpace_value[OF v]
    by (simp add: parse_line_def Let_def strip_comment_def value_text_def)
qed

lemma digits_value: "\<forall>c \<in> set s. is_digit c \<Longrightarrow> value_text s"
proof -
  assume d: "\<forall>c \<in> set s. is_digit c"
  have "\<not> is_digit (CHR ''#'')" by code_simp
  with d have "CHR ''#'' \<notin> set s" by blast
  moreover have "plain_char c" if "is_digit c" for c using that by (simp add: is_digit_def plain_char_def octet_def)
  ultimately show ?thesis using d by (simp add: value_text_def list_all_iff)
qed

lemma FormatInt_value: "value_text (FormatInt z)"
proof (cases "z < 0")
  case True
  have "plain_char (CHR ''-'')" by code_simp
  with digits_value[of "FormatUint (- z)"] FormatUint_digits[of "- z"] True show ?thesis
    by (auto simp: FormatInt_def value_text_def)
next
  case False
  with digits_value[of "FormatUint z"] FormatUint_digits[of z] show ?thesis by (auto simp: FormatInt_def)
qed

lemma no_newline_value: "value_text v \<Longrightarrow> LF \<notin> set v"
  by (auto simp: value_text_def list_all_iff plain_char_def octet_def)

lemma set_int_Format: "in_int64 z \<Longrightarrow> set_int upd (FormatInt z) cfg = upd z"
  by (simp add: set_int_def Atoi_def ParseInt_FormatInt)

text \<open>
  C37. A configuration written as one line per option reads back as itself, whatever the file
  holds before it: a later line overrides an earlier one, and there is nothing a file can hold
  that would stop the parser.
\<close>

theorem config_roundtrip:
  assumes r: "in_int64 (Port cfg)" "in_int64 (Memory cfg)" "in_int64 (Connections cfg)" "in_int64 (Threads cfg)"
    and l: "value_text (Listen cfg)" and f: "value_text stale" "pf stale = Some (FileStale cfg)"
  shows "parse pf (txt @ LF # join_lines (config_lines cfg stale)) = cfg"
proof -
  have k: "parse_line pf (k @ CHR ''='' # v) c = set_option pf k v c"
    if "k \<in> {''port'', ''listen'', ''memory'', ''connections'', ''threads'', ''stale''}" "value_text v" for k v c
  proof (rule parse_line_option[OF _ _ _ _ that(2)])
    have "list_all (\<lambda>k. k \<noteq> [] \<and> list_all plain_char k \<and> CHR ''='' \<notin> set k \<and> hd k \<noteq> CHR ''#'')
      [''port'', ''listen'', ''memory'', ''connections'', ''threads'', ''stale'']" by code_simp
    then show "k \<noteq> []" "list_all plain_char k" "CHR ''='' \<notin> set k" "hd k \<noteq> CHR ''#''" using that(1) by auto
  qed
  note ks = k[of "''port''", simplified] k[of "''listen''", simplified] k[of "''memory''", simplified]
    k[of "''connections''", simplified] k[of "''threads''", simplified] k[of "''stale''", simplified]
  have n: "LF \<notin> set m" if "m \<in> set (config_lines cfg stale)" for m
    using that no_newline_value[OF l] no_newline_value[OF f(1)] no_newline_value[OF FormatInt_value]
    by (auto simp: config_lines_def)
  have "Split LF (join_lines (config_lines cfg stale)) = config_lines cfg stale"
    using n by (intro Split_join) (auto simp: config_lines_def)
  then have "parse pf (txt @ LF # join_lines (config_lines cfg stale)) = fold (parse_line pf) (config_lines cfg stale) (parse pf txt)"
    by (simp add: parse_append)
  also have "\<dots> = cfg"
    by (simp add: config_lines_def ks l f FormatInt_value r set_int_Format set_option_def)
  finally show ?thesis .
qed

theorem config_roundtrip_witness:
  "parse (\<lambda>s. if s = ''1.5'' then Some (Finite 3 (- 1)) else None)
     (''# old'' @ LF # ''port=x'' @ LF # join_lines (config_lines \<lparr>Port = 80, Listen = ''::1'', Memory = 128,
       Connections = - 5, Threads = 2, FileStale = Finite 3 (- 1)\<rparr> ''1.5'')) =
   \<lparr>Port = 80, Listen = ''::1'', Memory = 128, Connections = - 5, Threads = 2, FileStale = Finite 3 (- 1)\<rparr>"
proof -
  have v: "value_text ''::1''" "value_text ''1.5''" by code_simp+
  let ?cfg = "\<lparr>Port = 80, Listen = ''::1'', Memory = 128, Connections = - 5, Threads = 2, FileStale = Finite 3 (- 1)\<rparr>"
  show ?thesis
    using config_roundtrip[of ?cfg "''1.5''" "\<lambda>s. if s = ''1.5'' then Some (Finite 3 (- 1)) else None" "''# old'' @ LF # ''port=x''"] v
    by (simp add: in_int64_def)
qed

end
