(* ===== verification/Server.thy ===== *)
theory Server
  imports TextProto BinaryProto
begin

text \<open>
  The network server, \<^verbatim>\<open>pkg/server/server.go\<close>: its construction, the choice of the protocol by a
  connection's first byte, and the accept loop with its limit on connections. The accept loop
  and the connections' goroutines interleave; they share the counter of connections, which is
  read and changed by atomic operations. The listener, deadlines, socket options and log lines
  are left to the operating system: a connection is accepted or not, and a failed or timed-out
  first read is a stream without bytes.
\<close>

type_synonym int32 = "32 word"

record Server =
  cache :: ShardedCache
  addr :: string
  maxConnections :: int32
  currConns :: int32

definition New :: "ShardedCache \<Rightarrow> string \<Rightarrow> Server" where
  "New sc address = \<lparr>cache = sc, addr = address, maxConnections = 1024, currConns = 0\<rparr>"

definition NewWithOptions :: "ShardedCache \<Rightarrow> string \<Rightarrow> int \<Rightarrow> Server" where
  "NewWithOptions sc address maxConns =
    \<lparr>cache = sc, addr = address, maxConnections = of_int maxConns, currConns = 0\<rparr>"

definition network_of :: "string \<Rightarrow> string" where
  "network_of address = (if length address > 0 \<and> address ! 0 = CHR ''/'' then ''unix'' else ''tcp'')"

definition CurrentConnections :: "Server \<Rightarrow> int" where
  "CurrentConnections s = sint (currConns s)"

section \<open>One connection\<close>

definition handleConnection :: "World \<Rightarrow> Conn \<Rightarrow> handled" where
  "handleConnection W c =
    (case Peek1 (rd c) of
      (None, r) \<Rightarrow> Some (c\<lparr>rd := r\<rparr>, Closed)
    | (Some firstByte, r) \<Rightarrow>
        (let c = c\<lparr>rd := r\<rparr>
         in if firstByte = byte_char 0x80 then handleBinary W c else handleText W c))"

section \<open>The accept loop\<close>

text \<open>
  Where the loop is: in \<open>Accept\<close>, with a new connection in hand, or past the check of the limit
  with the counter not yet incremented. \<open>active\<close> are the connections with a goroutine; \<open>rejected\<close>
  and \<open>ended\<close> those that were closed by the loop and by their goroutine; \<open>down\<close> says that a panic
  in a goroutine has ended the process.
\<close>

datatype accept_loop = Accepting | Accepted nat | Admitted nat

record Listener =
  server :: Server
  loop_at :: accept_loop
  active :: "nat list"
  rejected :: "nat list"
  ended :: "nat list"
  down :: bool

definition seen :: "Listener \<Rightarrow> nat list" where
  "seen L = active L @ rejected L @ ended L @
    (case loop_at L of Accepting \<Rightarrow> [] | Accepted n \<Rightarrow> [n] | Admitted n \<Rightarrow> [n])"

definition Start :: "Server \<Rightarrow> Listener" where
  "Start s = \<lparr>server = s, loop_at = Accepting, active = [], rejected = [], ended = [], down = False\<rparr>"

text \<open>\<open>serves n c out\<close>: connection \<open>n\<close>'s goroutine can end with the outcome \<open>out\<close>.\<close>

inductive server_step :: "(nat \<Rightarrow> outcome \<Rightarrow> bool) \<Rightarrow> Listener \<Rightarrow> Listener \<Rightarrow> bool" for serves where
  accept_error: "\<not> down L \<Longrightarrow> loop_at L = Accepting \<Longrightarrow> server_step serves L L"
| accept: "\<not> down L \<Longrightarrow> loop_at L = Accepting \<Longrightarrow> n \<notin> set (seen L) \<Longrightarrow>
    server_step serves L (L\<lparr>loop_at := Accepted n\<rparr>)"
| reject: "\<not> down L \<Longrightarrow> loop_at L = Accepted n \<Longrightarrow>
    sint (maxConnections (server L)) \<le> sint (currConns (server L)) \<Longrightarrow>
    server_step serves L (L\<lparr>loop_at := Accepting, rejected := n # rejected L\<rparr>)"
| admit: "\<not> down L \<Longrightarrow> loop_at L = Accepted n \<Longrightarrow>
    sint (currConns (server L)) < sint (maxConnections (server L)) \<Longrightarrow>
    server_step serves L (L\<lparr>loop_at := Admitted n\<rparr>)"
| spawn: "\<not> down L \<Longrightarrow> loop_at L = Admitted n \<Longrightarrow>
    server_step serves L (L\<lparr>loop_at := Accepting, active := n # active L,
      server := (server L)\<lparr>currConns := currConns (server L) + 1\<rparr>\<rparr>)"
| finish: "\<not> down L \<Longrightarrow> n \<in> set (active L) \<Longrightarrow> serves n out \<Longrightarrow> out \<noteq> Panicked \<Longrightarrow>
    server_step serves L (L\<lparr>active := remove1 n (active L), ended := n # ended L,
      server := (server L)\<lparr>currConns := currConns (server L) - 1\<rparr>\<rparr>)"
| crash: "\<not> down L \<Longrightarrow> n \<in> set (active L) \<Longrightarrow> serves n Panicked \<Longrightarrow>
    server_step serves L (L\<lparr>down := True\<rparr>)"

inductive_cases server_stepE: "server_step serves L L'"

end
