(* ===== verification/ServerProps.thy ===== *)
theory ServerProps
  imports Server TextProps BinaryProps
begin

text \<open>
  The connection limit as an invariant of the accept loop, the service of one connection under
  either protocol, and a difference between the two protocols.
\<close>

section \<open>The limit on connections\<close>

definition limit :: "Server \<Rightarrow> int" where
  "limit s = sint (maxConnections s)"

definition admitted :: "Listener \<Rightarrow> nat" where
  "admitted L = length (active L) + (case loop_at L of Admitted n \<Rightarrow> 1 | _ \<Rightarrow> 0)"

definition listener_inv :: "Server \<Rightarrow> Listener \<Rightarrow> bool" where
  "listener_inv s L \<longleftrightarrow> maxConnections (server L) = maxConnections s \<and> cache (server L) = cache s \<and>
     sint (currConns (server L)) = int (length (active L)) \<and> distinct (seen L) \<and>
     int (admitted L) \<le> max 0 (limit s)"

lemma sint_le_max: "sint (x :: int32) < 2 ^ 31"
  using sint_lt[of x] by simp

lemma sint_of_small: "0 \<le> z \<Longrightarrow> z < 2 ^ 31 \<Longrightarrow> sint (of_int z :: int32) = z"
  by (simp add: signed_of_int signed_take_bit_int_eq_self)

lemma sint_inc: "0 \<le> sint (x :: int32) \<Longrightarrow> sint x + 1 < 2 ^ 31 \<Longrightarrow> sint (x + 1) = sint x + 1"
  using sint_of_small[of "sint x + 1"] by simp

lemma sint_dec: "0 < sint (x :: int32) \<Longrightarrow> sint (x - 1) = sint x - 1"
  using sint_of_small[of "sint x - 1"] sint_le_max[of x] by simp

lemma listener_inv_Start: "currConns s = 0 \<Longrightarrow> listener_inv s (Start s)"
  by (simp add: listener_inv_def Start_def seen_def admitted_def)

lemma listener_inv_step:
  assumes step: "server_step serves L L'" and inv: "listener_inv s L"
  shows "listener_inv s L'"
  using step
proof (cases rule: server_step.cases)
  case (accept n)
  then show ?thesis using inv by (auto simp: listener_inv_def seen_def admitted_def)
next
  case (reject n)
  then show ?thesis using inv by (auto simp: listener_inv_def seen_def admitted_def)
next
  case (admit n)
  then show ?thesis using inv by (auto simp: listener_inv_def seen_def admitted_def limit_def)
next
  case (spawn n)
  have "sint (currConns (server L) + 1) = sint (currConns (server L)) + 1"
    using spawn inv sint_le_max[of "maxConnections s"]
    by (intro sint_inc) (auto simp: listener_inv_def admitted_def limit_def max_def split: if_splits)
  with spawn show ?thesis using inv by (auto simp: listener_inv_def seen_def admitted_def)
next
  case (finish n out)
  then have pos: "0 < length (active L)" by (cases "active L") auto
  have "sint (currConns (server L) - 1) = sint (currConns (server L)) - 1"
    using pos inv by (intro sint_dec) (simp add: listener_inv_def)
  moreover have "int (length (remove1 n (active L))) = int (length (active L)) - 1"
    using finish pos by (simp add: length_remove1 of_nat_diff Suc_le_eq del: length_greater_0_conv)
  moreover have "distinct (seen (L\<lparr>active := remove1 n (active L), ended := n # ended L\<rparr>))"
    using finish inv by (auto simp: listener_inv_def seen_def set_remove1_eq split: accept_loop.splits)
  ultimately show ?thesis
    using finish inv by (auto simp: listener_inv_def admitted_def seen_def)
next
  case crash
  then show ?thesis using inv by (auto simp: listener_inv_def seen_def admitted_def)
qed (use inv in simp)

lemma listener_inv_reachable:
  "(server_step serves)\<^sup>*\<^sup>* (Start s) L \<Longrightarrow> currConns s = 0 \<Longrightarrow> listener_inv s L"
  by (induction rule: rtranclp_induct) (auto intro: listener_inv_Start listener_inv_step)

text \<open>
  C22. However the accept loop and the connections interleave, the counter is exactly the number
  of connections being served, which never exceeds the limit, although the check of the limit
  and the increment are two steps; no connection is served twice, and one is turned away only
  while as many as the limit allows are being served.
\<close>

theorem connection_limit_holds:
  assumes reach: "(server_step serves)\<^sup>*\<^sup>* (Start s) L" and s: "currConns s = 0"
  shows "CurrentConnections (server L) = int (length (active L)) \<and>
    int (length (active L)) \<le> max 0 (limit s) \<and> distinct (active L @ rejected L @ ended L) \<and>
    (\<forall>L'. server_step serves L L' \<longrightarrow> rejected L' \<noteq> rejected L \<longrightarrow> limit s \<le> int (length (active L)))"
proof -
  have inv: "listener_inv s L" by (rule listener_inv_reachable[OF reach s])
  have "limit s \<le> int (length (active L))" if "server_step serves L L'" "rejected L' \<noteq> rejected L" for L'
    using that(1) by (cases rule: server_step.cases) (use that(2) inv in \<open>auto simp: listener_inv_def limit_def\<close>)
  moreover have "int (length (active L)) \<le> max 0 (limit s)" using inv by (auto simp: listener_inv_def admitted_def)
  ultimately show ?thesis
    using inv by (auto simp: listener_inv_def CurrentConnections_def seen_def)
qed

theorem connection_limit_holds_witness:
  "\<exists>L. (server_step (\<lambda>n out. out = Closed))\<^sup>*\<^sup>* (Start (NewWithOptions two_shards [] 1)) L \<and>
     active L = [0] \<and> rejected L = [1] \<and> CurrentConnections (server L) = 1"
proof -
  let ?s = "NewWithOptions two_shards [] 1" and ?R = "server_step (\<lambda>n out. out = Closed)"
  let ?s1 = "?s\<lparr>currConns := 1\<rparr>"
  let ?L = "\<lparr>server = ?s1, loop_at = Accepting, active = [0], rejected = [], ended = [], down = False\<rparr>"
  note [simp] = Start_def NewWithOptions_def seen_def
  have 1: "?R (Start ?s) ((Start ?s)\<lparr>loop_at := Accepted 0\<rparr>)" by (rule server_step.accept) simp_all
  have 2: "?R ((Start ?s)\<lparr>loop_at := Accepted 0\<rparr>) ((Start ?s)\<lparr>loop_at := Admitted 0\<rparr>)"
    using server_step.admit[of "(Start ?s)\<lparr>loop_at := Accepted 0\<rparr>" 0] by simp
  have 3: "?R ((Start ?s)\<lparr>loop_at := Admitted 0\<rparr>) ?L"
    using server_step.spawn[of "(Start ?s)\<lparr>loop_at := Admitted 0\<rparr>" 0] by simp
  have 4: "?R ?L (?L\<lparr>loop_at := Accepted 1\<rparr>)" by (rule server_step.accept) simp_all
  have 5: "?R (?L\<lparr>loop_at := Accepted 1\<rparr>) (?L\<lparr>rejected := [1]\<rparr>)"
    using server_step.reject[of "?L\<lparr>loop_at := Accepted 1\<rparr>" 1] by simp
  have r: "?R\<^sup>*\<^sup>* (Start ?s) (?L\<lparr>rejected := [1]\<rparr>)"
    using 1 2 3 4 5 by (meson converse_rtranclp_into_rtranclp rtranclp.rtrancl_refl)
  have "CurrentConnections (server (?L\<lparr>rejected := [1]\<rparr>)) = 1"
    using connection_limit_holds[OF r] by simp
  with r show ?thesis by (intro exI[of _ "?L\<lparr>rejected := [1]\<rparr>"]) simp
qed

section \<open>One connection\<close>

lemma handleConnection_dispatch:
  assumes "input_left (rd c) = y # ys"
  shows "\<exists>r. input_left r = y # ys \<and>
    handleConnection W c = (if y = CHR 0x80 then handleBinary W (c\<lparr>rd := r\<rparr>) else handleText W (c\<lparr>rd := r\<rparr>))"
proof -
  obtain v r where p: "Peek1 (rd c) = (v, r)" by fastforce
  have "byte_char 0x80 = CHR 0x80" by code_simp
  then show ?thesis using p Peek1_spec[OF p] assms by (intro exI[of _ r]) (simp add: handleConnection_def)
qed

lemma agree_handleConnection:
  assumes w: "world_ok W" and r: "rel n c d"
  shows "agree n (handleConnection W c) (handleConnection W d)"
proof -
  obtain v r1 where c: "Peek1 (rd c) = (v, r1)" by fastforce
  obtain v' r2 where d: "Peek1 (rd d) = (v', r2)" by fastforce
  have v: "v' = v" using Peek1_spec[OF c] Peek1_spec[OF d] r by (simp add: rel_def)
  have rel: "rel n (c\<lparr>rd := r1\<rparr>) (d\<lparr>rd := r2\<rparr>)"
    using r Peek1_spec[OF c] Peek1_spec[OF d] by (auto simp: rel_def conn_ok_def)
  show ?thesis
    using agree_handleBinary[OF w rel] agree_handleText[OF w rel] agree_Some[OF rel]
    by (cases v) (simp_all add: handleConnection_def c d v Let_def)
qed

interpretation connection: protocol handleConnection
  by unfold_locales (rule agree_handleConnection)

text \<open>
  C5. Every connection comes to an end, whatever the client sends, and leaves the cache
  well-formed. What it did to the cache and the responses it wrote depend on the bytes the
  client sent, not on how they were cut into packets or on what had been flushed before, however
  the other connections interfere; and the first of those bytes decides the protocol.
\<close>

theorem connection_sees_only_the_stream:
  assumes "world_ok W" and "conn_ok c" and "conn_cache d = conn_cache c" and "clk d = clk c"
    and "input_left (rd d) = input_left (rd c)" and "written (wr d) = written (wr c)"
  shows "\<exists>c' d' out. handleConnection W c = Some (c', out) \<and> handleConnection W d = Some (d', out) \<and>
    conn_cache d' = conn_cache c' \<and> written (wr d') = written (wr c') \<and> conn_ok c' \<and>
    (case input_left (rd c) of
      [] \<Rightarrow> out = Closed \<and> written (wr c') = written (wr c) \<and> conn_cache c' = conn_cache c
    | b # _ \<Rightarrow> (\<exists>e. (if b = CHR 0x80 then handleBinary W c else handleText W c) = Some (e, out) \<and>
        written (wr e) = written (wr c') \<and> conn_cache e = conn_cache c'))"
proof -
  obtain c' d' out where h: "handleConnection W c = Some (c', out)" "handleConnection W d = Some (d', out)"
    "conn_cache d' = conn_cache c'" "written (wr d') = written (wr c')" "conn_ok c'"
    using connection.same_stream[OF assms] by blast
  obtain v r where p: "Peek1 (rd c) = (v, r)" by fastforce
  have b: "byte_char 0x80 = CHR 0x80" by code_simp
  have "case input_left (rd c) of
      [] \<Rightarrow> out = Closed \<and> written (wr c') = written (wr c) \<and> conn_cache c' = conn_cache c
    | b # _ \<Rightarrow> (\<exists>e. (if b = CHR 0x80 then handleBinary W c else handleText W c) = Some (e, out) \<and>
        written (wr e) = written (wr c') \<and> conn_cache e = conn_cache c')"
    using h(1) p Peek1_spec[OF p] binary_loop.after_peek[OF assms(1,2) p] text_loop.after_peek[OF assms(1,2) p]
    by (auto simp: handleConnection_def b Let_def split: list.split if_splits)
  with h show ?thesis by blast
qed

theorem connection_sees_only_the_stream_witness:
  "\<exists>c' d' out. handleConnection quiet_world (client [''version'' @ CRLF]) = Some (c', out) \<and>
     handleConnection quiet_world (client [[], ''vers'', ''ion'' @ CRLF]) = Some (d', out) \<and>
     written (wr d') = written (wr c')"
  using connection_sees_only_the_stream[OF client_ok(2,3), of "client [[], ''vers'', ''ion'' @ CRLF]" "[''version'' @ CRLF]"]
  by (fastforce simp: client_def input_left_def)

section \<open>An expiry in the past\<close>

text \<open>
  C33. The protocols read an absolute expiry alike as long as it is in the future. One that has
  passed makes the text protocol store a value that is gone two milliseconds later (with the
  default multiplier), but the binary protocol a value that never expires.
\<close>

theorem past_expiry_never_expires:
  assumes inv: "sharded_inv sc" and e: "2592000 < uint e"
    and w: "w = workers sc ! workerFor sc k" "DefaultTTL w \<le> 0" "staleMultiplier w = two64"
    and en: "Millisecond \<le> store_now en" "store_now en + 2 * Millisecond \<le> check_now en'"
  shows "(now < uint e * Second \<longrightarrow> text_ttl now (uint e) = binary_ttl now e) \<and>
    (uint e * Second \<le> now \<longrightarrow>
      (\<exists>sc1 sc2 cas. Set en k v (binary_ttl now e) sc = Some (sc1, cas, None) \<and>
        Get en' k sc1 = Some (sc2, v, cas, 0, None)) \<and>
      (\<exists>sc1 sc2 cas. Set en k v (text_ttl now (uint e)) sc = Some (sc1, cas, None) \<and>
        Get en' k sc1 = Some (sc2, [], 0, 0, Some ErrKeyNotFound)))"
proof -
  have u: "Time_Unix (uint e) = uint e * Second"
    using uint_lt2p[of e] by (simp add: Time_Unix_def unixToInternal_def wrap64_id in_int64_def)
  have e': "\<not> uint e < 0" "0 < uint e" "0 < e" "2592000 < e" using e by (simp_all add: word_less_def)
  have t: "text_ttl now (uint e) = (if Time_Until now (uint e * Second) \<le> 0 then 1 else Time_Until now (uint e * Second))"
    "binary_ttl now e = Time_Until now (uint e * Second)"
    using e e' by (simp_all add: text_ttl_def binary_ttl_def u Let_def Nanosecond_def)
  have set: "\<exists>sc1 cas. Set en k v ttl sc = Some (sc1, cas, None)" for ttl
    using Set_result[OF inv, of en k v ttl] by blast
  have past: "\<exists>sc1 sc2 cas. Set en k v (Time_Until now (uint e * Second)) sc = Some (sc1, cas, None) \<and>
      Get en' k sc1 = Some (sc2, v, cas, 0, None)" if "Time_Until now (uint e * Second) \<le> 0"
    using set[of "Time_Until now (uint e * Second)"] Set_then_Get[OF inv, of k] that w by (fastforce simp: effective_ttl_def)
  have times: "expiry_times en two64 1 = (UnixMilli (store_now en + 1), UnixMilli (store_now en + 2))"
    using scale_ttl_two[of 1] by (simp add: expiry_times_def f64_positive_two64 Time_Add_def Let_def)
  have "UnixMilli (store_now en + 2) \<le> UnixMilli (check_now en')"
    using en by (intro UnixMilli_mono) (simp add: Millisecond_def)
  moreover have "0 < UnixMilli (store_now en + 2)"
    using en UnixMilli_mono[of Millisecond "store_now en + 2"] by (simp add: UnixMilli_def Millisecond_def)
  ultimately have gone: "\<exists>sc1 sc2 cas. Set en k v 1 sc = Some (sc1, cas, None) \<and> Get en' k sc1 = Some (sc2, [], 0, 0, Some ErrKeyNotFound)"
    using set[of 1] Get_after_Set(1)[OF inv, of en k v 1 _ _ _ en'] w times by (fastforce simp: effective_ttl_def)
  have "now < uint e * Second \<longleftrightarrow> 0 < Time_Until now (uint e * Second)"
    by (cases "uint e * Second = now") (auto simp: Time_Until_def Time_Sub_def in_int64_def)
  then show ?thesis using t past gone by auto
qed

theorem past_expiry_never_expires_witness:
  "\<exists>sc1 sc2 cas. Set (at_time (3000000 * Second)) ''k'' ''v'' (binary_ttl (3000000 * Second) 2600000) two_shards = Some (sc1, cas, None) \<and>
     Get (at_time (10 ^ 27)) ''k'' sc1 = Some (sc2, ''v'', cas, 0, None)"
proof -
  let ?w = "workers two_shards ! workerFor two_shards ''k''"
  have inv: "sharded_inv two_shards" by (simp add: two_shards_def sharded_inv_New)
  have w: "DefaultTTL ?w \<le> 0" "staleMultiplier ?w = two64" by code_simp+
  have e: "2592000 < uint (2600000 :: uint32)" by code_simp
  show ?thesis
    using past_expiry_never_expires[OF inv e refl w, of "at_time (3000000 * Second)" "at_time (10 ^ 27)" "3000000 * Second" "''v''"]
    by (simp add: at_time_def Millisecond_def Second_def)
qed

end
