(* ===== verification/Program.thy ===== *)
theory Program
  imports GoFlag Lifecycle ConfigFile ServerProps
begin

text \<open>
  The main program, \<^verbatim>\<open>cmd/tqmemory/main.go\<close>: the flags of the command line, the choice between the
  command line and a configuration file, the assembly of cache and server, and the life of the
  process until it exits. The command line and the contents of files are arguments, with
  \<open>strconv.ParseFloat\<close> as the parameter \<open>pf\<close>; whether listening succeeds and when signals arrive is
  up to the surroundings. The profiling server and the log lines have no effect on the rest.
\<close>

section \<open>Flags\<close>

record Flags =
  flag_port :: int
  flag_listen :: string
  flag_socket :: string
  flag_memory :: int
  flag_connections :: int
  flag_threads :: int
  flag_stale :: float64
  flag_config :: string
  flag_pprof :: bool

definition default_flags :: Flags where
  "default_flags = \<lparr>flag_port = 11211, flag_listen = [], flag_socket = [], flag_memory = 64,
     flag_connections = 1024, flag_threads = 4, flag_stale = two64, flag_config = [], flag_pprof = False\<rparr>"

datatype flag_var = VPort | VListen | VSocket | VMemory | VConnections | VThreads | VStale | VConfig | VPprof

text \<open>The names that \<open>main\<close> defines, short and long, with the variable each one sets.\<close>

definition flag_names :: "(string \<times> flag_var) list" where
  "flag_names =
    [(''p'', VPort), (''l'', VListen), (''s'', VSocket), (''m'', VMemory), (''c'', VConnections), (''t'', VThreads),
     (''port'', VPort), (''listen'', VListen), (''socket'', VSocket), (''memory'', VMemory),
     (''connections'', VConnections), (''threads'', VThreads),
     (''stale'', VStale), (''config'', VConfig), (''pprof'', VPprof)]"

definition set_int_flag :: "(int \<Rightarrow> Flags) \<Rightarrow> string \<Rightarrow> Flags option" where
  "set_int_flag upd val = (case ParseInt0 val of Inr n \<Rightarrow> Some (upd n) | Inl _ \<Rightarrow> None)"

fun set_var :: "(string \<Rightarrow> float64 option) \<Rightarrow> flag_var \<Rightarrow> string \<Rightarrow> Flags \<Rightarrow> Flags option" where
  "set_var pf VPort val fl = set_int_flag (\<lambda>n. fl\<lparr>flag_port := n\<rparr>) val"
| "set_var pf VListen val fl = Some (fl\<lparr>flag_listen := val\<rparr>)"
| "set_var pf VSocket val fl = Some (fl\<lparr>flag_socket := val\<rparr>)"
| "set_var pf VMemory val fl = set_int_flag (\<lambda>n. fl\<lparr>flag_memory := n\<rparr>) val"
| "set_var pf VConnections val fl = set_int_flag (\<lambda>n. fl\<lparr>flag_connections := n\<rparr>) val"
| "set_var pf VThreads val fl = set_int_flag (\<lambda>n. fl\<lparr>flag_threads := n\<rparr>) val"
| "set_var pf VStale val fl = map_option (\<lambda>x. fl\<lparr>flag_stale := x\<rparr>) (pf val)"
| "set_var pf VConfig val fl = Some (fl\<lparr>flag_config := val\<rparr>)"
| "set_var pf VPprof val fl = map_option (\<lambda>b. fl\<lparr>flag_pprof := b\<rparr>) (ParseBool val)"

definition CommandLine :: "(string \<Rightarrow> float64 option) \<Rightarrow> (flag_var, Flags) FlagSet" where
  "CommandLine pf = \<lparr>formal = map_of flag_names, IsBoolFlag = (\<lambda>v. v = VPprof), set_value = set_var pf\<rparr>"

section \<open>Assembly\<close>

text \<open>\<open>fmt.Sprintf("%s:%d", host, port)\<close>.\<close>

definition host_port :: "string \<Rightarrow> int \<Rightarrow> string" where
  "host_port host port = host @ '':'' @ FormatInt port"

text \<open>
  The listen string, the cache's configuration, the number of threads and the limit on connections;
  from the configuration file if one has been loaded, from the command line otherwise.
\<close>

definition main_setup :: "FileConfig option \<Rightarrow> Flags \<Rightarrow> string \<times> Config \<times> int \<times> int" where
  "main_setup loaded fl =
    (case loaded of
      Some fileCfg \<Rightarrow>
        (let listenString = (if Listen fileCfg \<noteq> [] then host_port (Listen fileCfg) (Port fileCfg)
               else host_port [] (Port fileCfg));
             cfg = DefaultConfig\<lparr>MaxMemory := wrap64 (Memory fileCfg * 1024 * 1024),
               StaleMultiplier := FileStale fileCfg\<rparr>
         in (listenString, cfg, Threads fileCfg, Connections fileCfg))
    | None \<Rightarrow>
        (let listenString = (if flag_socket fl \<noteq> [] then flag_socket fl
               else if flag_listen fl \<noteq> [] then host_port (flag_listen fl) (flag_port fl)
               else host_port [] (flag_port fl));
             cfg = DefaultConfig\<lparr>MaxMemory := wrap64 (flag_memory fl * 1024 * 1024),
               StaleMultiplier := flag_stale fl\<rparr>
         in (listenString, cfg, flag_threads fl, flag_connections fl)))"

definition main_server :: "(nat \<Rightarrow> int) \<Rightarrow> int \<Rightarrow> FileConfig option \<Rightarrow> Flags \<Rightarrow> Server" where
  "main_server clock start loaded fl =
    (case main_setup loaded fl of (listenString, cfg, threadCount, maxConns) \<Rightarrow>
       NewWithOptions (NewSharded clock start cfg threadCount) listenString maxConns)"

text \<open>
  \<open>main\<close> up to the start of the server: it has exited, or it goes on with a server, and with the
  profiling server if that was asked for. \<open>log.Fatalf\<close> exits with 1. There is memory for the slice of
  \<open>max_workers\<close> workers; for a longer one \<open>make\<close> panics or the process runs out of memory, and both
  exit with 2.
\<close>

datatype startup = Exits int | Serves Server bool

definition start_server :: "int \<Rightarrow> (nat \<Rightarrow> int) \<Rightarrow> int \<Rightarrow> FileConfig option \<Rightarrow> Flags \<Rightarrow> startup" where
  "start_server max_workers clock start loaded fl =
    (case main_setup loaded fl of (listenString, cfg, threadCount, maxConns) \<Rightarrow>
       let workerCount = (if threadCount \<le> 0 then DefaultThreadCount else threadCount)
       in if max_workers < workerCount then Exits 2
          else Serves (main_server clock start loaded fl) (flag_pprof fl))"

definition main_start ::
  "(string \<Rightarrow> float64 option) \<Rightarrow> (string \<Rightarrow> string option) \<Rightarrow> int \<Rightarrow> (nat \<Rightarrow> int) \<Rightarrow> int \<Rightarrow> string list \<Rightarrow> startup" where
  "main_start pf readFile max_workers clock start args =
    (case flag_Parse (CommandLine pf) args default_flags of
      Inl e \<Rightarrow> Exits (exit_code e)
    | Inr (fl, operands) \<Rightarrow>
        if flag_config fl \<noteq> [] then
          (case Load pf readFile (flag_config fl) of
            None \<Rightarrow> Exits 1
          | Some fileCfg \<Rightarrow> start_server max_workers clock start (Some fileCfg) fl)
        else start_server max_workers clock start None fl)"

section \<open>Reading back a command line\<close>

text \<open>What is written for each variable; \<open>stale\<close> is some text for the stale multiplier.\<close>

fun var_text :: "Flags \<Rightarrow> string \<Rightarrow> flag_var \<Rightarrow> string" where
  "var_text fl stale VPort = FormatInt (flag_port fl)"
| "var_text fl stale VListen = flag_listen fl"
| "var_text fl stale VSocket = flag_socket fl"
| "var_text fl stale VMemory = FormatInt (flag_memory fl)"
| "var_text fl stale VConnections = FormatInt (flag_connections fl)"
| "var_text fl stale VThreads = FormatInt (flag_threads fl)"
| "var_text fl stale VStale = stale"
| "var_text fl stale VConfig = flag_config fl"
| "var_text fl stale VPprof = (if flag_pprof fl then ''true'' else ''false'')"

fun same_var :: "flag_var \<Rightarrow> Flags \<Rightarrow> Flags \<Rightarrow> bool" where
  "same_var VPort a b = (flag_port a = flag_port b)"
| "same_var VListen a b = (flag_listen a = flag_listen b)"
| "same_var VSocket a b = (flag_socket a = flag_socket b)"
| "same_var VMemory a b = (flag_memory a = flag_memory b)"
| "same_var VConnections a b = (flag_connections a = flag_connections b)"
| "same_var VThreads a b = (flag_threads a = flag_threads b)"
| "same_var VStale a b = (flag_stale a = flag_stale b)"
| "same_var VConfig a b = (flag_config a = flag_config b)"
| "same_var VPprof a b = (flag_pprof a = flag_pprof b)"

definition writable :: "(string \<Rightarrow> float64 option) \<Rightarrow> Flags \<Rightarrow> string \<Rightarrow> bool" where
  "writable pf fl stale \<longleftrightarrow> in_int64 (flag_port fl) \<and> in_int64 (flag_memory fl) \<and>
    in_int64 (flag_connections fl) \<and> in_int64 (flag_threads fl) \<and> pf stale = Some (flag_stale fl)"

lemma same_all: "(\<And>v. same_var v a b) \<Longrightarrow> a = b"
proof -
  assume "\<And>v. same_var v a b"
  from this[of VPort] this[of VListen] this[of VSocket] this[of VMemory] this[of VConnections] this[of VThreads]
    this[of VStale] this[of VConfig] this[of VPprof]
  show ?thesis by simp
qed

lemma set_var_text:
  assumes "writable pf fl stale"
  shows "\<exists>st'. set_var pf v (var_text fl stale v) st = Some st' \<and> same_var v st' fl \<and>
    (\<forall>w. same_var w st fl \<longrightarrow> same_var w st' fl)"
proof -
  have t: "ParseBool ''true'' = Some True" "ParseBool ''false'' = Some False" by code_simp+
  have "same_var w st fl \<longrightarrow> same_var w st' fl" if "set_var pf v (var_text fl stale v) st = Some st'" for w st'
    using assms that t by (cases v; cases w) (auto simp: writable_def set_int_flag_def ParseInt0_FormatInt)
  moreover have "\<exists>st'. set_var pf v (var_text fl stale v) st = Some st' \<and> same_var v st' fl"
    using assms t by (cases v) (auto simp: writable_def set_int_flag_def ParseInt0_FormatInt)
  ultimately show ?thesis by blast
qed

definition var_named :: "string \<Rightarrow> flag_var option" where
  "var_named name = map_of flag_names name"

lemma named_flag_name: "var_named name = Some v \<Longrightarrow> flag_name name"
proof -
  have "list_all (\<lambda>(n, v). flag_name n) flag_names" by code_simp
  then show "var_named name = Some v \<Longrightarrow> flag_name name"
    by (auto simp: var_named_def list_all_iff dest!: map_of_SomeD)
qed

text \<open>Settings that write variables of \<open>fl\<close>: afterwards those variables are as in \<open>fl\<close>, and no other has changed.\<close>

definition writes :: "Flags \<Rightarrow> string \<Rightarrow> setting \<Rightarrow> flag_var \<Rightarrow> bool" where
  "writes fl stale x v \<longleftrightarrow> (case x of (dd, joined, name, val) \<Rightarrow>
     var_named name = Some v \<and> val = var_text fl stale v \<and> (v = VPprof \<longrightarrow> joined))"

lemma apply_writes:
  assumes w: "writable pf fl stale"
  shows "\<forall>x \<in> set ss. \<exists>v. writes fl stale x v \<Longrightarrow> \<exists>st'. apply_settings (CommandLine pf) ss st = Some st' \<and>
    (\<forall>v. same_var v st fl \<or> (\<exists>x \<in> set ss. writes fl stale x v) \<longrightarrow> same_var v st' fl)"
proof (induction ss arbitrary: st)
  case (Cons x ss)
  obtain dd j name val where x: "x = (dd, j, name, val)" by (cases x)
  then obtain v where v: "var_named name = Some v" "val = var_text fl stale v" "v = VPprof \<longrightarrow> j"
    using Cons.prems by (auto simp: writes_def)
  obtain st1 where 1: "set_var pf v (var_text fl stale v) st = Some st1" "same_var v st1 fl"
    "\<forall>u. same_var u st fl \<longrightarrow> same_var u st1 fl" using set_var_text[OF w] by blast
  from Cons.IH[of st1] Cons.prems obtain st' where r: "apply_settings (CommandLine pf) ss st1 = Some st'"
    "\<forall>u. same_var u st1 fl \<or> (\<exists>x \<in> set ss. writes fl stale x u) \<longrightarrow> same_var u st' fl" by auto
  have "apply_settings (CommandLine pf) (x # ss) st = Some st'"
    using x v 1 r(1) named_flag_name[OF v(1)] by (simp add: CommandLine_def var_named_def)
  moreover have "u = v" if "writes fl stale x u" for u using that x v(1) by (simp add: writes_def)
  ultimately show ?case using 1 r(2) by auto
qed simp

text \<open>
  The flags as the README documents them (\<^verbatim>\<open>README.md\<close>, command-line flags), with the one of the usage
  text that it leaves out: the names of each, the text that states its value in \<open>fl\<close>, and
  whether this is the documented default. \<open>stale\<close> is some text for the stale multiplier.
\<close>

definition documented_flags :: "Flags \<Rightarrow> string \<Rightarrow> (string list \<times> string \<times> bool) list" where
  "documented_flags fl stale =
    [([''p'', ''port''], FormatInt (flag_port fl), flag_port fl = 11211),
     ([''s'', ''socket''], flag_socket fl, flag_socket fl = []),
     ([''l'', ''listen''], flag_listen fl, flag_listen fl = []),
     ([''m'', ''memory''], FormatInt (flag_memory fl), flag_memory fl = 64),
     ([''c'', ''connections''], FormatInt (flag_connections fl), flag_connections fl = 1024),
     ([''t'', ''threads''], FormatInt (flag_threads fl), flag_threads fl = 4),
     ([''stale''], stale, flag_stale fl = two64),
     ([''config''], flag_config fl, flag_config fl = []),
     ([''pprof''], if flag_pprof fl then ''true'' else ''false'', flag_pprof fl = False)]"

text \<open>
  A command line for the values of \<open>fl\<close>: every setting names a documented flag and states its value, and
  only flags that keep their default may be left out. The value of a boolean flag must be joined.
\<close>

definition states_flags :: "Flags \<Rightarrow> string \<Rightarrow> setting list \<Rightarrow> bool" where
  "states_flags fl stale ss \<longleftrightarrow>
    (\<forall>(dd, joined, name, val) \<in> set ss. (name = ''pprof'' \<longrightarrow> joined) \<and>
      (\<exists>(names, value, dflt) \<in> set (documented_flags fl stale). name \<in> set names \<and> val = value)) \<and>
    (\<forall>(names, value, dflt) \<in> set (documented_flags fl stale).
      dflt \<or> (\<exists>(dd, joined, name, val) \<in> set ss. name \<in> set names))"

lemma documented_names:
  assumes "(names, value, dflt) \<in> set (documented_flags fl stale)" and "name \<in> set names"
  shows "\<exists>v. var_named name = Some v \<and> value = var_text fl stale v \<and> (v = VPprof \<longrightarrow> name = ''pprof'')"
proof -
  have "\<forall>(names, value, dflt) \<in> set (documented_flags fl stale). \<forall>name \<in> set names.
    \<exists>v. var_named name = Some v \<and> value = var_text fl stale v \<and> (v = VPprof \<longrightarrow> name = ''pprof'')"
    by (simp add: documented_flags_def var_named_def flag_names_def)
  then show ?thesis using assms by fast
qed

lemma documented_vars:
  "\<exists>(names, value, dflt) \<in> set (documented_flags fl stale). (dflt \<longrightarrow> same_var v default_flags fl) \<and>
    (\<forall>name \<in> set names. var_named name = Some v)"
  by (cases v) (simp_all add: documented_flags_def var_named_def flag_names_def default_flags_def)

lemma states_writes:
  assumes "states_flags fl stale ss"
  shows "\<forall>x \<in> set ss. \<exists>v. writes fl stale x v"
    and "same_var v default_flags fl \<or> (\<exists>x \<in> set ss. writes fl stale x v)"
proof -
  show w: "\<forall>x \<in> set ss. \<exists>v. writes fl stale x v"
  proof
    fix x assume x: "x \<in> set ss"
    obtain dd j name val where "x = (dd, j, name, val)" by (cases x)
    with x assms obtain names dflt where "(names, val, dflt) \<in> set (documented_flags fl stale)" "name \<in> set names"
      "name = ''pprof'' \<longrightarrow> j" unfolding states_flags_def by fast
    with documented_names[OF this(1,2)] show "\<exists>v. writes fl stale x v"
      using \<open>x = (dd, j, name, val)\<close> by (auto simp: writes_def)
  qed
  obtain names shown dflt where d: "(names, shown, dflt) \<in> set (documented_flags fl stale)"
    "dflt \<longrightarrow> same_var v default_flags fl" "\<forall>name \<in> set names. var_named name = Some v"
    using documented_vars[of fl stale v] by auto
  show "same_var v default_flags fl \<or> (\<exists>x \<in> set ss. writes fl stale x v)"
  proof (cases dflt)
    case False
    with d(1) assms obtain dd j name val where x: "(dd, j, name, val) \<in> set ss" "name \<in> set names"
      unfolding states_flags_def by fast
    from bspec[OF w x(1)] d(3) x(2) have "writes fl stale (dd, j, name, val) v" by (auto simp: writes_def)
    with x(1) show ?thesis by blast
  qed (use d in simp)
qed

text \<open>
  C38. The command line means what the documentation says. Every setting of the flags can be written
  with the documented names, leaving out flags that have their documented default, and is read back as
  it was meant: under the short or the long name of each flag, with one dash or two, the value joined
  with an equals sign or as the next argument, in any order and repeated, and whatever is in the
  values, also values that look like flags. With these values \<open>main\<close> starts its server, if no
  configuration file is named and there is memory for the workers.
\<close>

theorem command_line_roundtrip:
  assumes w: "writable pf fl stale" and ss: "states_flags fl stale ss"
  shows "flag_Parse (CommandLine pf) (setting_args ss @ rest) default_flags = flag_Parse (CommandLine pf) rest fl \<and>
    (flag_config fl = [] \<and> 4 \<le> max_workers \<and> flag_threads fl \<le> max_workers \<longrightarrow>
      main_start pf readFile max_workers clock start (setting_args ss) =
        Serves (main_server clock start None fl) (flag_pprof fl))"
proof -
  obtain st' where a: "apply_settings (CommandLine pf) ss default_flags = Some st'"
    and s: "\<forall>v. same_var v default_flags fl \<or> (\<exists>x \<in> set ss. writes fl stale x v) \<longrightarrow> same_var v st' fl"
    using apply_writes[OF w states_writes(1)[OF ss]] by blast
  have "st' = fl" using s states_writes(2)[OF ss] by (intro same_all) blast
  then have p: "flag_Parse (CommandLine pf) (setting_args ss @ rest) default_flags = flag_Parse (CommandLine pf) rest fl"
    for rest using parse_settings[OF a] by simp
  have "flag_Parse (CommandLine pf) [] fl = Inr (fl, [])" by (simp add: flag_Parse.simps[of _ "[]"] parseOne_def)
  then show ?thesis
    using p p[of "[]"] by (simp add: main_start_def start_server_def main_setup_def DefaultThreadCount_def)
qed

theorem command_line_roundtrip_witness:
  "main_start (\<lambda>s. if s = ''0.5'' then Some (Finite 1 (- 1)) else None) Map.empty 100 (\<lambda>i. 0) 0
     [''-p'', ''80'', ''--l'', ''-x'', ''-memory=-3'', ''-connections'', ''0'', ''--t=2'', ''-stale'', ''0.5'', ''-pprof=true''] =
   Serves (main_server (\<lambda>i. 0) 0 None
     \<lparr>flag_port = 80, flag_listen = ''-x'', flag_socket = [], flag_memory = - 3, flag_connections = 0,
      flag_threads = 2, flag_stale = Finite 1 (- 1), flag_config = [], flag_pprof = True\<rparr>) True"
proof -
  let ?pf = "\<lambda>s. if s = ''0.5'' then Some (Finite 1 (- 1)) else None"
  let ?fl = "\<lparr>flag_port = 80, flag_listen = ''-x'', flag_socket = [], flag_memory = - 3, flag_connections = 0,
      flag_threads = 2, flag_stale = Finite 1 (- 1), flag_config = [], flag_pprof = True\<rparr>"
  let ?ss = "[(False, False, ''p'', ''80''), (True, False, ''l'', ''-x''), (False, True, ''memory'', ''-3''),
    (False, False, ''connections'', ''0''), (True, True, ''t'', ''2''), (False, False, ''stale'', ''0.5''),
    (False, True, ''pprof'', ''true'')]"
  have w: "writable ?pf ?fl ''0.5''" by (simp add: writable_def in_int64_def)
  have "FormatInt 80 = ''80''" "FormatInt (- 3) = ''-3''" "FormatInt 0 = ''0''" "FormatInt 2 = ''2''" by code_simp+
  then have ok: "states_flags ?fl ''0.5'' ?ss" by (simp add: states_flags_def documented_flags_def)
  have "setting_args ?ss =
     [''-p'', ''80'', ''--l'', ''-x'', ''-memory=-3'', ''-connections'', ''0'', ''--t=2'', ''-stale'', ''0.5'', ''-pprof=true'']"
    by code_simp
  then show ?thesis
    using command_line_roundtrip[OF w ok, of "[]" 100 Map.empty "\<lambda>i. 0" 0] by simp
qed

text \<open>
  C39. What is wrong with a command line is reported at the first flag that is wrong, with exit code
  2 and without starting anything: an unknown flag (a request for help exits with 0), a missing
  value, or a value that does not parse, whatever comes after it. A configuration file that cannot
  be read exits with 1, and a number of threads for which there is no memory with 2.
\<close>

theorem bad_command_line:
  assumes "apply_settings (CommandLine pf) ss default_flags = Some fl"
  shows "(flag_name name \<and> var_named name = None \<longrightarrow>
      main_start pf readFile max_workers clock start (setting_args ss @ ((if dd then ''--'' else ''-'') @ name) # rest) =
        Exits (if name = ''help'' \<or> name = ''h'' then 0 else 2)) \<and>
    (var_named name = Some v \<and> v \<noteq> VPprof \<longrightarrow>
      main_start pf readFile max_workers clock start (setting_args ss @ [(if dd then ''--'' else ''-'') @ name]) = Exits 2) \<and>
    (var_named name = Some v \<and> (v = VPprof \<longrightarrow> joined) \<and> set_var pf v val fl = None \<longrightarrow>
      main_start pf readFile max_workers clock start (setting_args ss @ written_flag dd joined name val @ rest) = Exits 2) \<and>
    (flag_config fl \<noteq> [] \<and> readFile (flag_config fl) = None \<longrightarrow>
      main_start pf readFile max_workers clock start (setting_args ss) = Exits 1) \<and>
    (flag_config fl = [] \<and> 0 < flag_threads fl \<and> max_workers < flag_threads fl \<longrightarrow>
      main_start pf readFile max_workers clock start (setting_args ss) = Exits 2)"
proof (intro conjI impI; (elim conjE)?)
  note p = parse_settings[OF assms]
  have F: "formal (CommandLine pf) = var_named" "IsBoolFlag (CommandLine pf) w = (w = VPprof)"
    "set_value (CommandLine pf) = set_var pf" for w
    by (simp_all add: CommandLine_def var_named_def fun_eq_iff)
  {
    assume "flag_name name" "var_named name = None"
    then show "main_start pf readFile max_workers clock start (setting_args ss @ ((if dd then ''--'' else ''-'') @ name) # rest) =
        Exits (if name = ''help'' \<or> name = ''h'' then 0 else 2)"
      by (simp add: main_start_def p parse_undefined F)
  next
    assume v: "var_named name = Some v" "v \<noteq> VPprof"
    then show "main_start pf readFile max_workers clock start (setting_args ss @ [(if dd then ''--'' else ''-'') @ name]) = Exits 2"
      by (simp add: main_start_def p parse_no_value[OF named_flag_name[OF v(1)]] F)
  next
    assume v: "var_named name = Some v" "v = VPprof \<longrightarrow> joined" "set_var pf v val fl = None"
    then have "flag_Parse (CommandLine pf) (written_flag dd joined name val @ rest) fl = Inl (InvalidValue val name)"
      by (intro parse_bad_value[OF named_flag_name[OF v(1)]]) (auto simp: F)
    then show "main_start pf readFile max_workers clock start (setting_args ss @ written_flag dd joined name val @ rest) = Exits 2"
      by (simp add: main_start_def p)
  next
    assume "flag_config fl \<noteq> []" "readFile (flag_config fl) = None"
    then show "main_start pf readFile max_workers clock start (setting_args ss) = Exits 1"
      using p[of "[]"] by (simp add: main_start_def Load_def flag_Parse.simps[of _ "[]"] parseOne_def)
  next
    assume "flag_config fl = []" "0 < flag_threads fl" "max_workers < flag_threads fl"
    then show "main_start pf readFile max_workers clock start (setting_args ss) = Exits 2"
      using p[of "[]"] by (simp add: main_start_def start_server_def main_setup_def flag_Parse.simps[of _ "[]"] parseOne_def)
  }
qed

theorem bad_command_line_witness:
  "main_start Map.empty Map.empty 100 (\<lambda>i. 0) 0 [''-p'', ''80'', ''-x'', ''1''] = Exits 2 \<and>
   main_start Map.empty Map.empty 100 (\<lambda>i. 0) 0 [''-p'', ''80'', ''-m''] = Exits 2 \<and>
   main_start Map.empty Map.empty 100 (\<lambda>i. 0) 0 [''-p'', ''80'', ''-m'', ''64M''] = Exits 2 \<and>
   main_start Map.empty Map.empty 100 (\<lambda>i. 0) 0 [''-config'', ''missing.conf''] = Exits 1"
proof -
  have s: "setting_args [(False, False, ''p'', ''80'')] = [''-p'', ''80'']"
    "setting_args [(False, False, ''config'', ''missing.conf'')] = [''-config'', ''missing.conf'']" by code_simp+
  have a: "apply_settings (CommandLine Map.empty) [(False, False, ''p'', ''80'')] default_flags = Some (default_flags\<lparr>flag_port := 80\<rparr>)"
    "apply_settings (CommandLine Map.empty) [(False, False, ''config'', ''missing.conf'')] default_flags =
      Some (default_flags\<lparr>flag_config := ''missing.conf''\<rparr>)"
    by code_simp+
  have b: "set_var Map.empty VMemory ''64M'' (default_flags\<lparr>flag_port := 80\<rparr>) = None" by code_simp
  note t = bad_command_line[OF a(1), of _ Map.empty 100 "\<lambda>i. 0" 0 False, unfolded s]
  show ?thesis
    using t[of "''x''" "[''1'']"] t[of "''m''" _ VMemory] t[of "''m''" "[]" VMemory False "''64M''"] b
      bad_command_line[OF a(2), of _ Map.empty 100 "\<lambda>i. 0" 0, unfolded s]
    by (simp add: flag_name_def var_named_def flag_names_def written_flag_def default_flags_def)
qed

section \<open>The life of the process\<close>

text \<open>
  After the start the main goroutine waits for a signal, and then returns, which runs the deferred
  \<open>cache.Close()\<close> before the process exits. Meanwhile another goroutine can end the process: the
  server's when it cannot listen (\<open>log.Fatalf\<close>), a connection's when it panics. Further signals are
  taken up by the channel's buffer or dropped, and have no effect.
\<close>

datatype stage = Up | ShuttingDown | Exited int

record Program =
  proc :: Process
  stage :: stage

datatype program_label = Runs life_label | Fails int | Signal | Leaves

definition program_of :: "Server \<Rightarrow> Program" where
  "program_of s = \<lparr>proc = started (cache s), stage = Up\<rparr>"

inductive program_step :: "nat \<Rightarrow> Program \<Rightarrow> program_label \<Rightarrow> Program \<Rightarrow> bool" for cap where
  goes_on: "stage P = Up \<or> stage P = ShuttingDown \<Longrightarrow> life_step cap (proc P) l p \<Longrightarrow> l \<noteq> CallsClose \<Longrightarrow>
    program_step cap P (Runs l) (P\<lparr>proc := p\<rparr>)"
| cannot_listen: "stage P = Up \<or> stage P = ShuttingDown \<Longrightarrow> program_step cap P (Fails 1) (P\<lparr>stage := Exited 1\<rparr>)"
| panics: "stage P = Up \<or> stage P = ShuttingDown \<Longrightarrow> program_step cap P (Fails 2) (P\<lparr>stage := Exited 2\<rparr>)"
| signal: "stage P = Up \<Longrightarrow> life_step cap (proc P) CallsClose p \<Longrightarrow>
    program_step cap P Signal (P\<lparr>proc := p, stage := ShuttingDown\<rparr>)"
| leaves: "stage P = ShuttingDown \<Longrightarrow> closer (proc P) = AllClosed \<Longrightarrow>
    program_step cap P Leaves (P\<lparr>stage := Exited 0\<rparr>)"

definition in_shutdown :: "nat \<Rightarrow> ShardedCache \<Rightarrow> Process \<Rightarrow> bool" where
  "in_shutdown cap sc p \<longleftrightarrow> (\<exists>tr0 q tr. runs (life_step cap) (started sc) tr0 q \<and> closer q = Closing 0 \<and>
     runs (life_step cap) q tr p \<and> CallsClose \<notin> set tr)"

lemma in_shutdown_step:
  assumes "in_shutdown cap sc p" and "life_step cap p l p'" and "l \<noteq> CallsClose"
  shows "in_shutdown cap sc p'"
proof -
  obtain tr0 q tr where 1: "runs (life_step cap) (started sc) tr0 q" "closer q = Closing 0"
    and 2: "runs (life_step cap) q tr p" "CallsClose \<notin> set tr" using assms(1) unfolding in_shutdown_def by blast
  have "runs (life_step cap) q (tr @ [l]) p'" "CallsClose \<notin> set (tr @ [l])"
    using runs.goes_on[OF 2(1) assms(2)] 2(2) assms(3) by auto
  with 1 show ?thesis unfolding in_shutdown_def by blast
qed

definition program_inv :: "nat \<Rightarrow> ShardedCache \<Rightarrow> Program \<Rightarrow> bool" where
  "program_inv cap sc P \<longleftrightarrow> (\<exists>tr. runs (life_step cap) (started sc) tr (proc P)) \<and>
    (case stage P of
      Up \<Rightarrow> closer (proc P) = NotClosing
    | ShuttingDown \<Rightarrow> in_shutdown cap sc (proc P)
    | Exited c \<Rightarrow> c = 0 \<longrightarrow> closer (proc P) = AllClosed)"

lemma not_closing_stays:
  "life_step cap P l P' \<Longrightarrow> l \<noteq> CallsClose \<Longrightarrow> closer P = NotClosing \<Longrightarrow> closer P' = NotClosing"
  by (induction rule: life_step.induct) simp_all

lemma program_inv_step:
  assumes "program_inv cap sc P" and "program_step cap P l P'"
  shows "program_inv cap sc P'"
  using assms(2)
proof (cases rule: program_step.cases)
  case (goes_on l' p)
  obtain tr where r: "runs (life_step cap) (started sc) (tr @ [l']) p"
    using assms(1) runs.goes_on[where stp = "life_step cap", OF _ goes_on(4)] by (auto simp: program_inv_def)
  then show ?thesis
    using assms(1) goes_on(2,3,5) in_shutdown_step[OF _ goes_on(4,5)] not_closing_stays[OF goes_on(4,5)]
    by (auto simp: program_inv_def)
next
  case (signal p)
  obtain tr where r: "runs (life_step cap) (started sc) (tr @ [CallsClose]) p"
    using assms(1) runs.goes_on[where stp = "life_step cap", OF _ signal(4)] by (auto simp: program_inv_def)
  have "closer p = Closing 0" using signal(4) by (auto elim: life_step.cases)
  then have "in_shutdown cap sc p" using r runs.begins[of "life_step cap" p] by (fastforce simp: in_shutdown_def)
  then show ?thesis using r signal(2) by (auto simp: program_inv_def)
qed (use assms(1) in \<open>auto simp: program_inv_def\<close>)

lemma program_inv_start: "program_inv cap (cache s) (program_of s)"
proof -
  have "closer (started (cache s)) = NotClosing" by (simp add: started_def)
  then show ?thesis
    using runs.begins[of "life_step cap" "started (cache s)"] by (auto simp: program_inv_def program_of_def)
qed

lemma program_inv_runs: "runs (program_step cap) (program_of s) tr P \<Longrightarrow> program_inv cap (cache s) P"
  by (rule runs_invariant[where I = "program_inv cap (cache s)", OF _ program_inv_start]) (use program_inv_step in blast)+

lemma shutdown_run:
  assumes "runs (life_step cap) p tr p'" and "list_all shutdown_label tr"
  shows "runs (program_step cap) \<lparr>proc = p, stage = ShuttingDown\<rparr> (map Runs tr) \<lparr>proc = p', stage = ShuttingDown\<rparr>"
  using assms
proof (induction rule: runs.induct)
  case (goes_on tr p1 l p2)
  have "l \<noteq> CallsClose" using goes_on.prems by auto
  then have "program_step cap \<lparr>proc = p1, stage = ShuttingDown\<rparr> (Runs l) \<lparr>proc = p2, stage = ShuttingDown\<rparr>"
    using program_step.goes_on[of "\<lparr>proc = p1, stage = ShuttingDown\<rparr>" cap l p2] goes_on(2) by simp
  then show ?case using goes_on by (auto intro: runs.goes_on)
qed (simp add: runs.begins)

text \<open>
  C24. A running server can be told to stop at any time, and shutting down then only needs \<open>4 * n + 2\<close>
  more steps for \<open>n\<close> workers, whatever has happened before. When the process exits with code 0, all
  workers have ended; closing the cache does not panic; and after an exit nothing happens any more.
\<close>

theorem shutdown_is_orderly:
  assumes "runs (program_step cap) (program_of s) tr P"
  shows "(stage P = Up \<longrightarrow> (\<exists>P'. program_step cap P Signal P' \<and> stage P' = ShuttingDown)) \<and>
    (stage P = ShuttingDown \<longrightarrow> (\<exists>tr' P'. runs (program_step cap) P tr' P' \<and> stage P' = Exited 0 \<and>
      length tr' \<le> 4 * length (workers (cache s)) + 2)) \<and>
    (stage P = Exited 0 \<longrightarrow> (\<forall>i < length (workers (cache s)). stopped (sys (proc P)) i)) \<and>
    closer (proc P) \<noteq> ClosePanicked \<and> (\<forall>c l P'. stage P = Exited c \<longrightarrow> \<not> program_step cap P l P')"
proof (intro conjI impI allI)
  have inv: "program_inv cap (cache s) P" using program_inv_runs[OF assms] .
  then obtain tr0 where r: "runs (life_step cap) (started (cache s)) tr0 (proc P)" by (auto simp: program_inv_def)
  note q = closed_cache_is_quiet_runs[OF r]
  show "closer (proc P) \<noteq> ClosePanicked" using q by blast
  {
    assume "stage P = Up"
    then show "\<exists>P'. program_step cap P Signal P' \<and> stage P' = ShuttingDown"
      using inv program_step.signal[OF _ life_step.calls_close, of P cap] by (fastforce simp: program_inv_def)
  next
    assume up: "stage P = ShuttingDown"
    then obtain tr0 p tr where "runs (life_step cap) (started (cache s)) tr0 p" "closer p = Closing 0"
      "runs (life_step cap) p tr (proc P)" "CallsClose \<notin> set tr" using inv by (auto simp: program_inv_def in_shutdown_def)
    from close_can_complete[OF this] obtain tr' p' where t: "runs (life_step cap) (proc P) tr' p'"
      "list_all shutdown_label tr'" "closer p' = AllClosed" "length tr' \<le> 4 * length (workers (cache s)) + 1" using add_leD2 by blast
    let ?P = "\<lparr>proc = p', stage = ShuttingDown\<rparr>"
    have "P = \<lparr>proc = proc P, stage = ShuttingDown\<rparr>" using up by simp
    then have "runs (program_step cap) P (map Runs tr') ?P" using shutdown_run[OF t(1,2)] by simp
    moreover have "program_step cap ?P Leaves (?P\<lparr>stage := Exited 0\<rparr>)" using t(3) by (intro program_step.leaves) simp_all
    ultimately have "runs (program_step cap) P (map Runs tr' @ [Leaves]) (?P\<lparr>stage := Exited 0\<rparr>)" by (rule runs.goes_on)
    then show "\<exists>tr' P'. runs (program_step cap) P tr' P' \<and> stage P' = Exited 0 \<and> length tr' \<le> 4 * length (workers (cache s)) + 2"
      using t(4) by (intro exI conjI) (assumption, simp_all)
  next
    fix i assume "stage P = Exited 0" "i < length (workers (cache s))"
    then show "stopped (sys (proc P)) i" using inv q by (auto simp: program_inv_def)
  next
    fix c l P' assume "stage P = Exited c"
    then show "\<not> program_step cap P l P'" by (auto elim: program_step.cases)
  }
qed

theorem shutdown_is_orderly_witness:
  "\<exists>P tr' P'. runs (program_step 5) (program_of (main_server (\<lambda>i. 0) 0 None default_flags)) [Signal] P \<and>
    runs (program_step 5) P tr' P' \<and> stage P' = Exited 0 \<and> length tr' \<le> 18"
proof -
  let ?s = "main_server (\<lambda>i. 0) 0 None default_flags"
  have n: "length (workers (cache ?s)) = 4" by code_simp
  have "closer (started (cache ?s)) = NotClosing" by (simp add: started_def)
  then have "life_step 5 (started (cache ?s)) CallsClose ((started (cache ?s))\<lparr>closer := Closing 0\<rparr>)"
    by (intro life_step.calls_close) simp
  then have "program_step 5 (program_of ?s) Signal
      \<lparr>proc = (started (cache ?s))\<lparr>closer := Closing 0\<rparr>, stage = ShuttingDown\<rparr>"
    using program_step.signal[of "program_of ?s" 5 "(started (cache ?s))\<lparr>closer := Closing 0\<rparr>"] by (simp add: program_of_def)
  from runs_one[of "program_step 5", OF this] have r: "runs (program_step 5) (program_of ?s) [Signal]
      \<lparr>proc = (started (cache ?s))\<lparr>closer := Closing 0\<rparr>, stage = ShuttingDown\<rparr>" .
  from shutdown_is_orderly[OF r] n r show ?thesis by fastforce
qed

section \<open>The assembled server\<close>

text \<open>
  C40. The server that \<open>main\<close> starts from the command line has a well-formed empty cache with the
  number of workers asked for, four if that is not positive; the workers' memory limits add up to
  the megabytes asked for, short of them by less than one byte per worker; and it serves no
  connection yet and up to as many as asked for.
\<close>

theorem main_server_as_asked:
  assumes m: "0 \<le> flag_memory fl" "flag_memory fl < 2 ^ 43" and c: "0 \<le> flag_connections fl" "flag_connections fl < 2 ^ 31"
    and s: "s = main_server clock start None fl"
  shows "sharded_inv (cache s) \<and> (\<forall>k. lookup (cache s) k = None) \<and>
    int (length (workers (cache s))) = (if flag_threads fl \<le> 0 then 4 else flag_threads fl) \<and>
    sum_list (map maxMemory (workers (cache s))) \<le> flag_memory fl * 2 ^ 20 \<and>
    flag_memory fl * 2 ^ 20 < sum_list (map maxMemory (workers (cache s))) + int (length (workers (cache s))) \<and>
    CurrentConnections s = 0 \<and> limit s = flag_connections fl"
proof -
  let ?cfg = "DefaultConfig\<lparr>MaxMemory := flag_memory fl * 2 ^ 20, StaleMultiplier := flag_stale fl\<rparr>"
  have "wrap64 (flag_memory fl * 1024 * 1024) = flag_memory fl * 2 ^ 20"
    using m wrap64_id[of "flag_memory fl * 2 ^ 20"] by (simp add: in_int64_def mult.commute)
  then have sc: "cache s = NewSharded clock start ?cfg (flag_threads fl)"
    by (simp add: s main_server_def main_setup_def Let_def NewWithOptions_def)
  have "0 \<le> MaxMemory ?cfg" using m by simp
  note mem = NewSharded_memory[OF this sc]
  have "maxConnections s = of_int (flag_connections fl)" "currConns s = 0"
    by (simp_all add: s main_server_def main_setup_def Let_def NewWithOptions_def)
  then show ?thesis using mem c sint_of_small by (simp add: CurrentConnections_def limit_def)
qed

theorem main_server_as_asked_witness:
  "limit (main_server (\<lambda>i. 0) 0 None default_flags) = 1024 \<and>
   sum_list (map maxMemory (workers (cache (main_server (\<lambda>i. 0) 0 None default_flags)))) \<le> 64 * 2 ^ 20"
  using main_server_as_asked[of default_flags, OF _ _ _ _ refl, of "\<lambda>i. 0" 0]
  by (simp add: default_flags_def)

text \<open>
  Starting from a configuration file is starting from the command line with the file's
  values and no socket path; whatever else is on the command line is ignored, the socket path too.
\<close>

lemma config_file_replaces_flags:
  "main_server clock start (Some f) fl =
    main_server clock start None
      (default_flags\<lparr>flag_port := Port f, flag_listen := Listen f, flag_memory := Memory f,
       flag_connections := Connections f, flag_threads := Threads f, flag_stale := FileStale f\<rparr>)"
  by (simp add: main_server_def main_setup_def default_flags_def Let_def)

end
