(* ===== verification/Spec2Isabelle.thy ===== *)
theory Spec2Isabelle
  imports IndexProps WorkerProps MapCache ResponseTypes TextClaims BinaryClaims BufferPool Program
begin

text \<open>
  TQMemory is a memcached-compatible cache server in Go. This development models the program from
  its command line to the entry in a shard and the bytes of a response, and proves what each part
  promises to the next. Theories are named in the order in which the program is built.

  \<^bold>\<open>The program.\<close> The main program (\<^verbatim>\<open>cmd/tqmemory/main.go\<close>) reads flags or a file
  (\<^verbatim>\<open>internal/config/config.go\<close>), builds a sharded cache (\<^verbatim>\<open>pkg/tqmemory/sharded.go\<close>) and starts a
  server (\<^verbatim>\<open>pkg/server/server.go\<close>). Each connection is served by a goroutine with the text protocol
  (\<^verbatim>\<open>pkg/server/text.go\<close>) or the binary one (\<^verbatim>\<open>pkg/server/binary.go\<close>), which calls the methods of
  the cache. A method hashes its key to a shard and sends a request over a channel to the shard's
  worker (\<^verbatim>\<open>pkg/tqmemory/worker.go\<close>), a goroutine that owns the shard's index
  (\<^verbatim>\<open>pkg/tqmemory/index.go\<close>): a hash map, a heap by expiry time and a list by recency of use. A
  signal ends the process after the cache has been closed shard by shard.

  \<^bold>\<open>The library of Go.\<close> \<open>Prelude\<close>: the types. \<open>GoList\<close>: \<^verbatim>\<open>container/list\<close>. \<open>GoStrconv\<close>, \<open>GoStrings\<close>,
  \<open>GoTime\<close>, \<open>GoBufio\<close>, \<open>GoBinary\<close>, \<open>GoFlag\<close>: what the program uses of \<^verbatim>\<open>strconv\<close>, \<^verbatim>\<open>strings\<close>, \<^verbatim>\<open>time\<close>
  (with the float64 arithmetic of the expiry times), \<^verbatim>\<open>bufio\<close>, \<^verbatim>\<open>encoding/binary\<close> and \<^verbatim>\<open>flag\<close>, each
  with its laws. \<open>Pools\<close>: \<^verbatim>\<open>sync.Pool\<close>, as the locale \<open>pooled\<close> of systems whose steps move objects
  between a pool and its users; every object is in one place.

  \<^bold>\<open>The cache.\<close>
  \<^item> \<open>ExpiryHeap\<close> and \<open>Index\<close> follow \<^verbatim>\<open>index.go\<close> operation by operation, on an array heap with sift
    loops, a hash map and a store of entries with references; \<open>ItemList\<close> is the abstract
    recency-ordered list that the index refines. \<open>IndexProps\<close>: equivalence of both with their
    specifications after any sequence of operations.
  \<^item> \<open>Request\<close> and \<open>Worker\<close> follow \<^verbatim>\<open>worker.go\<close>: one definition per handler, eviction and
    background expiry as loops that might not return, and \<open>run_loop\<close>, the fold over the events the
    goroutine takes up. \<open>CacheSpec\<close> is the abstract cache, \<open>WorkerRefine\<close> the proof that the worker
    implements it and returns, \<open>CacheLaws\<close> the laws of the abstract cache, \<open>WorkerProps\<close> the properties.
  \<^item> \<open>Sharded\<close> follows \<^verbatim>\<open>sharded.go\<close> and \<^verbatim>\<open>config.go\<close>; \<open>ShardedProps\<close>: every key lives in the shard of
    its hash, the shards are independent. \<open>MapCache\<close>: without a memory limit and expiry times, all of
    this is a finite map from keys to values with tokens.
  \<^item> \<open>Shards\<close> interleaves clients, channels, workers, timers and stop signals as a step relation, and
    shows that the sequential theories are right about every interleaving, that every call is
    answered at most once and can always be answered. \<open>ResponseTypes\<close>: which fields and errors a
    response to each operation has, in every run. \<open>ChannelPool\<close>: the reply channels that \<open>sendRequest\<close>
    takes from a pool, a refinement of \<open>Shards\<close>. \<open>Lifecycle\<close>: \<open>Start\<close>, \<open>Stop\<close> and \<open>Close\<close>; a closed cache
    is quiet, and \<open>Close\<close> can always return.

  \<^bold>\<open>The server.\<close>
  \<^item> \<open>Connection\<close>: the state of a connection, and the surroundings it runs in. The other connections
    and the expiry ticks act on the cache between any two steps of a connection, as an arbitrary
    function \<open>others\<close>; \<open>world_ok\<close> says that they keep the cache well-formed, which \<open>ShardedProps\<close>
    shows of every operation. The locale \<open>protocol\<close> is the contract of a protocol's loop.
  \<^item> \<open>TextProto\<close> and \<open>BinaryProto\<close> follow the two files handler by handler; a panic is an outcome.
    \<open>TextProps\<close> and \<open>BinaryProps\<close>: every handler returns and sees the stream only. \<open>TextClaims\<close> and
    \<open>BinaryClaims\<close>: round trips, framing, panics, responses that are lost.
  \<^item> \<open>BufferPool\<close>: the binary protocol on pooled arrays and slices of them gives what \<open>BinaryProto\<close> gives
    on values, whatever the arrays held before, and no two connections hold the same array.
  \<^item> \<open>Server\<close> and \<open>ServerProps\<close>: the accept loop and the connection limit, the choice of the protocol,
    a difference in how the protocols read an expiry.

  \<^bold>\<open>The main program.\<close> \<open>ConfigFile\<close>: the parser of the file. \<open>Program\<close>: the command line, the choice
  between flags and file, the assembly of cache and server, and the process from its start to its
  exit status. The theorem at the end of this theory follows a value from one connection to another.

  \<^bold>\<open>Conventions.\<close> A pointer to an entry is a number into a store; channels are lists. A loop whose
  end depends on the state is a \<open>partial_function\<close>, whose value \<open>None\<close> is not returning, and
  theorems say that it returns. No fuel is used. Closing a cache of \<open>n\<close> shards takes at most
  \<open>4 * n + 1\<close> steps of the closing goroutine and the workers. CAS counters, hashes, lengths on the
  wire and the connection counter are machine words; times and byte counts are integers with the
  int64 wrap-around or saturation written out where the code can reach it. Each reading of the clock
  is an argument.

  \<^bold>\<open>Assumptions.\<close> Writing to a connection succeeds. A statistics call reads the shards one
  after the other, and each read is one step, although the code makes it without synchronisation with
  the shard's worker. A \<open>select\<close> takes up a ready channel in the end
  where a theorem says that something can always happen. The int64 account \<open>usedMemory\<close> and the times
  in milliseconds do not leave their range. A float64 outside int64 converts to a parameter, as Go
  leaves it to the platform; \<^verbatim>\<open>strconv.ParseFloat\<close>, the contents of files, and the largest sizes for which
  there is memory, of a value and of the slice of workers, are parameters.

  \<^bold>\<open>Not modelled.\<close> Log lines, the usage text, the profiling server, the listener, socket options and
  deadlines: calls into the operating system or the library without a result that the program uses,
  other than a connection or none. \<^verbatim>\<open>runtime.GOMAXPROCS\<close>: no effect on results. The accessors
  \<^verbatim>\<open>RequestChan\<close>, \<^verbatim>\<open>Index\<close>, \<^verbatim>\<open>UsedMemory\<close>, \<^verbatim>\<open>Evictions\<close> and \<^verbatim>\<open>ExpiryHeap\<close>: the definitions read the field
  itself. \<^verbatim>\<open>CacheInterface\<close>: the list of the methods that \<open>Sharded\<close> defines. The benchmarks under
  \<^verbatim>\<open>benchmarks/\<close>.
\<close>

section \<open>From one connection to another\<close>

text \<open>
  C8. A value stored over a connection in the binary protocol is read back byte for byte over
  another connection in the text protocol, and \<open>gets\<close> shows there the token that the binary client
  was answered with.
\<close>

theorem value_crosses_protocols:
  assumes q: "calm W" and inv: "conn_ok c" and k: "plain key"
    and e: "length extras = 8" "BE_Uint32 (cut 4 8 extras) = 0" and f: "fits extras key val"
    and a: "int (length extras + length key + length val) \<le> max_alloc W"
    and ttl: "DefaultTTL (workers (conn_cache c) ! workerFor (conn_cache c) key) \<le> 0"
    and i: "input_left (rd c) = request_bytes opSet extras key val opq 0"
    and d: "input_left (rd d) = ''gets '' @ key @ CRLF"
  shows "\<exists>c' cas. handleConnection W c = Some (c', Closed) \<and>
    sent (wr c') = written (wr c) @ reply_bytes (request opSet extras key val opq 0)
      \<lparr>rStatus = resSuccess, rExtras = [], rKey = [], rValue = [], rCas = cas\<rparr> \<and>
    (\<exists>d'. handleConnection W (d\<lparr>conn_cache := conn_cache c'\<rparr>) = Some (d', Closed) \<and>
      sent (wr d') = written (wr d) @ ''VALUE '' @ key @ '' 0 '' @ FormatInt (int (length val)) @ '' '' @
        FormatUint (uint cas) @ CRLF @ val @ CRLF @ ''END'' @ CRLF)"
proof -
  have "byte_char 0x80 = CHR 0x80" by code_simp
  then have "\<exists>ys. input_left (rd c) = CHR 0x80 # ys"
    by (simp add: i request_bytes_def request_header_def reqMagic_def)
  then obtain r where r: "input_left r = input_left (rd c)" "handleConnection W c = handleBinary W (c\<lparr>rd := r\<rparr>)"
    using handleConnection_dispatch[of c] by fastforce
  have i': "input_left (rd (c\<lparr>rd := r\<rparr>)) = request_bytes opSet extras key val opq 0 @ []" using i r(1) by simp
  obtain c1 cas where 1: "handleBinary W (c\<lparr>rd := r\<rparr>) = handleBinary W (flush_if_idle c1)" "conn_ok c1"
    "Set (envs W (clk c + 1)) key val 0 (conn_cache c) = Some (conn_cache c1, cas, None)" "input_left (rd c1) = []"
    "written (wr c1) = written (wr c) @ reply_bytes (request opSet extras key val opq 0)
      \<lparr>rStatus = resSuccess, rExtras = [], rKey = [], rValue = [], rCas = cas\<rparr>"
    using binary_set[OF q _ e f a i'] inv by auto
  obtain c' where c': "handleConnection W c = Some (c', Closed)" "sent (wr c') = written (wr c1)" "conn_cache c' = conn_cache c1"
    using handleBinary_last[OF 1(1,4)] r(2) by auto
  let ?d = "d\<lparr>conn_cache := conn_cache c'\<rparr>"
  obtain s where s: "input_left s = ''gets '' @ key @ CRLF @ []" "handleConnection W ?d = handleText W (?d\<lparr>rd := s\<rparr>)"
    using handleConnection_dispatch[of ?d "CHR ''g''" "''ets '' @ key @ CRLF" W] d by auto
  obtain sc where "Get (envs W (clk d)) key (conn_cache c1) = Some (sc, val, cas, 0, None)"
    using Set_then_Get[OF _ _ 1(3), of "envs W (clk d)"] ttl inv by (auto simp: conn_ok_def effective_ttl_def)
  then obtain d1 where d1: "handleText W (?d\<lparr>rd := s\<rparr>) = handleText W (flush_if_idle d1)" "input_left (rd d1) = []"
    "written (wr d1) = written (wr d) @ value_line True key val cas @ ''END'' @ CRLF"
    using text_get[OF k, of "?d\<lparr>rd := s\<rparr>" True "[]" W sc val cas] s(1) q c'(3) by (auto simp: calm_def)
  from handleText_last[OF d1(1,2)] d1(3) s(2) c' 1(5) show ?thesis by (auto simp: value_line_def)
qed

theorem value_crosses_protocols_witness:
  "\<exists>c' cas d'. handleConnection quiet_world (client [request_bytes opSet (replicate 8 (CHR 0x00)) ''k'' (''a'' @ CRLF) 1 0]) =
       Some (c', Closed) \<and>
     handleConnection quiet_world ((client [''ge'', ''ts k'' @ CRLF])\<lparr>conn_cache := conn_cache c'\<rparr>) = Some (d', Closed) \<and>
     sent (wr d') = ''VALUE k 0 3 '' @ FormatUint (uint (cas :: uint64)) @ CRLF @ ''a'' @ CRLF @ CRLF @ ''END'' @ CRLF"
proof -
  let ?e = "replicate 8 (CHR 0x00)" and ?v = "''a'' @ CRLF"
  let ?c = "client [request_bytes opSet ?e ''k'' ?v 1 0]" and ?d = "client [''ge'', ''ts k'' @ CRLF]"
  have e: "length ?e = 8" "BE_Uint32 (cut 4 8 ?e) = 0" and k: "plain ''k''" and n: "FormatInt (int (length ?v)) = ''3''"
    by code_simp+
  have f: "fits ?e ''k'' ?v" and a: "int (length ?e + length ''k'' + length ?v) \<le> max_alloc quiet_world"
    by (simp_all add: fits_def quiet_world_def CRLF_def)
  have "DefaultTTL (workers two_shards ! workerFor two_shards ''k'') \<le> 0" by code_simp
  then have t: "DefaultTTL (workers (conn_cache ?c) ! workerFor (conn_cache ?c) ''k'') \<le> 0" by (simp add: client_def)
  have i: "input_left (rd ?c) = request_bytes opSet ?e ''k'' ?v 1 0" "input_left (rd ?d) = ''gets '' @ ''k'' @ CRLF"
    by (simp_all add: client_def input_left_def)
  have w: "written (wr ?d) = []" by (simp add: client_def written_def)
  from value_crosses_protocols[OF client_ok(1,3) k e f a t i] show ?thesis
  proof (elim exE conjE)
    fix c' d' and cas :: uint64
    assume "handleConnection quiet_world ?c = Some (c', Closed)"
      and "handleConnection quiet_world (?d\<lparr>conn_cache := conn_cache c'\<rparr>) = Some (d', Closed)"
      and "sent (wr d') = written (wr ?d) @ ''VALUE '' @ ''k'' @ '' 0 '' @ FormatInt (int (length ?v)) @ '' '' @
        FormatUint (uint cas) @ CRLF @ ?v @ CRLF @ ''END'' @ CRLF"
    then show ?thesis unfolding w n by (intro exI[of _ c'] exI[of _ cas] exI[of _ d']) simp
  qed
qed

end
